(* ===== verification/Prelude.thy ===== *)
theory Prelude
  imports Main "HOL-Library.Word" "HOL-Library.Monad_Syntax" "HOL-Library.AList"
begin

text \<open>
  What every component shares: the machine types of the C code, the C remainder and
  division, the log of calls to code outside the repository together with the
  environment that answers them, and the lemma collections of the development.
\<close>

type_synonym i32 = "32 word"
type_synonym u32 = "32 word"
type_synonym u64 = "64 word"
type_synonym u8 = "8 word"

named_theorems handler_defs "definitions unfolded to execute one handler"
named_theorems trace_simps "how counting functions act on logs"

section \<open>C integer division\<close>

text \<open>C truncates towards zero; the divisor must not be zero.\<close>

definition cdiv :: "int \<Rightarrow> int \<Rightarrow> int" where
  "cdiv a b = sgn a * sgn b * (\<bar>a\<bar> div \<bar>b\<bar>)"

definition crem :: "int \<Rightarrow> int \<Rightarrow> int" where
  "crem a b = sgn a * (\<bar>a\<bar> mod \<bar>b\<bar>)"

lemma crem_pos [simp]: "0 \<le> a \<Longrightarrow> 0 < b \<Longrightarrow> crem a b = a mod b"
  by (cases "a = 0") (auto simp: crem_def)

lemma cdiv_pos: "0 \<le> a \<Longrightarrow> 0 < b \<Longrightarrow> cdiv a b = a div b"
  by (cases "a = 0") (auto simp: cdiv_def)

section \<open>Logs of external calls\<close>

text \<open>
  Code outside the repository (liburing, libbpf, the extended helpers of the bpftime
  runtime, the kernel) is a parameter of the model: an environment that answers each
  call from everything that was called before it. A program appends each call it makes
  to its log, so its observable behaviour is the log and the values it returns.
\<close>

type_synonym ('e, 'r) env = "'e list \<Rightarrow> 'e \<Rightarrow> 'r"

definition cnt :: "('e \<Rightarrow> bool) \<Rightarrow> 'e list \<Rightarrow> nat" where
  "cnt P xs = length (filter P xs)"

lemma cnt_Nil [simp, trace_simps]: "cnt P [] = 0"
  by (simp add: cnt_def)

lemma cnt_Cons [simp, trace_simps]: "cnt P (x # xs) = (if P x then 1 else 0) + cnt P xs"
  by (simp add: cnt_def)

lemma cnt_append [simp, trace_simps]: "cnt P (xs @ ys) = cnt P xs + cnt P ys"
  by (simp add: cnt_def)

lemma cnt_replicate [simp, trace_simps]: "cnt P (replicate n x) = (if P x then n else 0)"
  by (simp add: cnt_def)

lemma cnt_mono: "(\<And>x. P x \<Longrightarrow> Q x) \<Longrightarrow> cnt P xs \<le> cnt Q xs"
  by (induction xs) auto

section \<open>Words\<close>

lemma unat_plus_one: "unat (w :: 'a::len word) < 2 ^ LENGTH('a) - 1 \<Longrightarrow> unat (w + 1) = unat w + 1"
  by (simp add: unat_word_ariths)

lemma unat_suc_less:
  fixes i c :: "'a::len word"
  assumes "i < c"
  shows "unat (i + 1) = unat i + 1"
proof -
  have "unat i < unat c" using assms by (simp add: word_less_nat_alt)
  moreover have "unat c < 2 ^ LENGTH('a)" by (rule unsigned_less)
  ultimately show ?thesis by (intro unat_plus_one) linarith
qed

lemma unat_ucast_byte [simp]: "unat (ucast (w :: u8) :: u64) = unat w"
proof -
  have "unat w < 2 ^ 8" using unsigned_less [of w] by simp
  then show ?thesis by (simp add: unsigned_ucast_eq take_bit_nat_eq_self)
qed

end
