(* ===== verification/Bounded_Fifo.thy ===== *)
theory Bounded_Fifo
  imports Prelude
begin

text \<open>
  The contract of a bounded first-in first-out queue with C calling conventions
  (0 on success, -1 on failure, \<open>None\<close> for undefined behaviour), and its specification:
  a list of at most \<open>cap\<close> elements. The client lemmas compare whole runs.
\<close>

datatype 'a qop = QEnq 'a | QDeq

datatype 'a qres = QPut bool | QGot "'a option"

fun spec_step :: "nat \<Rightarrow> 'a qop \<Rightarrow> 'a list \<Rightarrow> 'a qres \<times> 'a list" where
  "spec_step c (QEnq x) xs = (if length xs < c then (QPut True, xs @ [x]) else (QPut False, xs))"
| "spec_step c QDeq [] = (QGot None, [])"
| "spec_step c QDeq (x # xs) = (QGot (Some x), xs)"

fun spec_run :: "nat \<Rightarrow> 'a qop list \<Rightarrow> 'a list \<Rightarrow> 'a qres list \<times> 'a list" where
  "spec_run c [] xs = ([], xs)"
| "spec_run c (o1 # os) xs =
     (let (r, ys) = spec_step c o1 xs; (rs, zs) = spec_run c os ys in (r # rs, zs))"

text \<open>A run of the C operations: the out-parameter of a failed dequeue keeps its value.\<close>

fun impl_step :: "('q \<Rightarrow> 'a \<Rightarrow> (int \<times> 'q) option) \<Rightarrow> ('q \<Rightarrow> 'a \<Rightarrow> (int \<times> 'a \<times> 'q) option)
    \<Rightarrow> 'a \<Rightarrow> 'a qop \<Rightarrow> 'q \<Rightarrow> ('a qres \<times> 'q) option" where
  "impl_step enq deq d (QEnq x) q = do { (rc, q') \<leftarrow> enq q x; Some (QPut (rc = 0), q') }"
| "impl_step enq deq d QDeq q =
     do { (rc, x, q') \<leftarrow> deq q d; Some (QGot (if rc = 0 then Some x else None), q') }"

fun impl_run :: "('q \<Rightarrow> 'a \<Rightarrow> (int \<times> 'q) option) \<Rightarrow> ('q \<Rightarrow> 'a \<Rightarrow> (int \<times> 'a \<times> 'q) option)
    \<Rightarrow> 'a \<Rightarrow> 'a qop list \<Rightarrow> 'q \<Rightarrow> ('a qres list \<times> 'q) option" where
  "impl_run enq deq d [] q = Some ([], q)"
| "impl_run enq deq d (o1 # os) q = do {
     (r, q') \<leftarrow> impl_step enq deq d o1 q;
     (rs, q'') \<leftarrow> impl_run enq deq d os q';
     Some (r # rs, q'') }"

lemma spec_run_bound: "length xs \<le> c \<Longrightarrow> length (snd (spec_run c os xs)) \<le> c"
proof (induction os arbitrary: xs)
  case (Cons o1 os)
  have "length (snd (spec_step c o1 xs)) \<le> c"
    using Cons.prems by (cases o1; cases xs) auto
  from Cons.IH [OF this] show ?case by (simp add: Let_def case_prod_beta)
qed auto

locale bounded_fifo =
  fixes inv :: "'q \<Rightarrow> bool"
    and elems :: "'q \<Rightarrow> 'a list"
    and capacity :: "'q \<Rightarrow> nat"
    and enq :: "'q \<Rightarrow> 'a \<Rightarrow> (int \<times> 'q) option"
    and deq :: "'q \<Rightarrow> 'a \<Rightarrow> (int \<times> 'a \<times> 'q) option"
  assumes enq_room: "inv q \<Longrightarrow> length (elems q) < capacity q \<Longrightarrow>
      \<exists>q'. enq q x = Some (0, q') \<and> inv q' \<and> elems q' = elems q @ [x] \<and> capacity q' = capacity q"
    and enq_full: "inv q \<Longrightarrow> \<not> length (elems q) < capacity q \<Longrightarrow> enq q x = Some (- 1, q)"
    and deq_empty: "inv q \<Longrightarrow> elems q = [] \<Longrightarrow> deq q d = Some (- 1, d, q)"
    and deq_first: "inv q \<Longrightarrow> elems q = x # xs \<Longrightarrow>
      \<exists>q'. deq q d = Some (0, x, q') \<and> inv q' \<and> elems q' = xs \<and> capacity q' = capacity q"
    and elems_bound: "inv q \<Longrightarrow> length (elems q) \<le> capacity q"
begin

lemma step_refines:
  assumes "inv q"
  shows "\<exists>q'. impl_step enq deq d o1 q = Some (fst (spec_step (capacity q) o1 (elems q)), q')
           \<and> inv q' \<and> elems q' = snd (spec_step (capacity q) o1 (elems q))
           \<and> capacity q' = capacity q"
proof (cases o1)
  case (QEnq x)
  then show ?thesis
    using enq_room [OF assms, of x] enq_full [OF assms, of x] assms
    by (cases "length (elems q) < capacity q") auto
next
  case QDeq
  then show ?thesis
  proof (cases "elems q")
    case Nil
    with QDeq assms deq_empty show ?thesis by auto
  next
    case (Cons x xs)
    with QDeq deq_first [OF assms Cons, of d] show ?thesis by auto
  qed
qed

lemma run_refines:
  assumes "inv q"
  shows "\<exists>q'. impl_run enq deq d os q = Some (fst (spec_run (capacity q) os (elems q)), q')
           \<and> inv q' \<and> elems q' = snd (spec_run (capacity q) os (elems q))
           \<and> capacity q' = capacity q"
  using assms
proof (induction os arbitrary: q)
  case (Cons o1 os)
  from step_refines [OF Cons.prems, of d o1] obtain q1
    where s: "impl_step enq deq d o1 q = Some (fst (spec_step (capacity q) o1 (elems q)), q1)"
      and i: "inv q1" and e: "elems q1 = snd (spec_step (capacity q) o1 (elems q))"
      and c: "capacity q1 = capacity q"
    by blast
  from Cons.IH [OF i] s e c show ?case
    by (auto simp: Let_def split: prod.splits)
qed auto

lemma put_get:
  assumes "inv q" and "elems q = []" and "0 < capacity q"
  shows "\<exists>q1 q2. enq q x = Some (0, q1) \<and> deq q1 d = Some (0, x, q2) \<and> inv q2
           \<and> elems q2 = [] \<and> capacity q2 = capacity q"
proof -
  from enq_room [OF assms(1), of x] assms(2,3) obtain q1
    where q1: "enq q x = Some (0, q1)" "inv q1" "elems q1 = [x]" "capacity q1 = capacity q"
    by auto
  from deq_first [OF q1(2,3), of d] q1 show ?thesis by auto
qed

end

end
