(* ===== verification/C_String.thy ===== *)
theory C_String
  imports Prelude
begin

text \<open>
  The C strings the programs handle: a buffer is its list of bytes, a string ends at the
  first NUL. Reading or writing past the end of a buffer is \<open>None\<close>. The functions are
  those of the C library the code calls (\<open>strlen\<close>, \<open>strncat\<close>, \<open>snprintf\<close> with a \<open>%d\<close>).
\<close>

abbreviation NUL :: char where
  "NUL \<equiv> CHR 0x00"

fun c_strlen :: "string \<Rightarrow> nat option" where
  "c_strlen [] = None"
| "c_strlen (c # cs) = (if c = NUL then Some 0 else map_option Suc (c_strlen cs))"

definition c_put :: "string \<Rightarrow> nat \<Rightarrow> string \<Rightarrow> string option" where
  "c_put buf off s =
     (if off + length s \<le> length buf
      then Some (take off buf @ s @ drop (off + length s) buf) else None)"

text \<open>\<open>strncat(dest, src, n)\<close>: append at most \<open>n\<close> characters of \<open>src\<close>, then a NUL.\<close>

definition c_strncat :: "string \<Rightarrow> string \<Rightarrow> nat \<Rightarrow> string option" where
  "c_strncat dest src n = do {
     d \<leftarrow> c_strlen dest;
     c_put dest d (take n src @ [NUL]) }"

text \<open>\<open>snprintf(dest, n, ...)\<close> of a formatted string: cut to \<open>n - 1\<close> characters and a NUL.\<close>

definition c_snprintf :: "string \<Rightarrow> nat \<Rightarrow> string \<Rightarrow> string option" where
  "c_snprintf dest n s = (if n = 0 then Some dest else c_put dest 0 (take (n - 1) s @ [NUL]))"

fun dec_of_nat :: "nat \<Rightarrow> string" where
  "dec_of_nat n =
     (if n < 10 then [char_of (48 + n)] else dec_of_nat (n div 10) @ [char_of (48 + n mod 10)])"

declare dec_of_nat.simps [simp del]

definition c_text :: "string \<Rightarrow> string" where
  "c_text buf = takeWhile (\<lambda>c. c \<noteq> NUL) buf"

section \<open>Lemmas\<close>

lemma c_text_Cons: "c_text (c # cs) = (if c = NUL then [] else c # c_text cs)"
  by (simp add: c_text_def)

lemma c_strlen_prefix: "NUL \<notin> set s \<Longrightarrow> c_strlen (s @ NUL # rest) = Some (length s)"
  by (induction s) auto

lemma c_strlen_lt: "c_strlen buf = Some n \<Longrightarrow> n < length buf"
  by (induction buf arbitrary: n) (auto split: if_splits)

lemma c_strlen_text: "c_strlen buf = Some n \<Longrightarrow> n = length (c_text buf) \<and> take n buf = c_text buf"
  by (induction buf arbitrary: n) (auto simp: c_text_def split: if_splits)

lemma c_strlen_nth: "c_strlen buf = Some n \<Longrightarrow> buf ! n = NUL"
  by (induction buf arbitrary: n) (auto split: if_splits)

lemma c_text_prefix: "NUL \<notin> set s \<Longrightarrow> c_text (s @ NUL # rest) = s"
  by (induction s) (auto simp: c_text_def)

lemma c_put_length: "c_put buf off s = Some buf' \<Longrightarrow> length buf' = length buf"
  by (auto simp: c_put_def split: if_splits)

lemma NUL_notin_text: "NUL \<notin> set (c_text buf)"
  by (auto simp: c_text_def dest: set_takeWhileD)

lemma char_of_digit_ne_NUL: "(n :: nat) < 10 \<Longrightarrow> char_of (48 + n) \<noteq> NUL"
proof
  assume "n < 10" and eq: "char_of (48 + n) = NUL"
  have "of_char (char_of (48 + n) :: char) = (48 + n :: nat)"
    using \<open>n < 10\<close> by (simp add: of_char_of)
  with eq show False by simp
qed

lemma NUL_notin_dec: "NUL \<notin> set (dec_of_nat n)"
proof (induction n rule: dec_of_nat.induct)
  case (1 n)
  show ?case
  proof (cases "n < 10")
    case True
    then show ?thesis by (subst dec_of_nat.simps) (auto dest: char_of_digit_ne_NUL)
  next
    case False
    moreover have "n mod 10 < 10" by simp
    ultimately show ?thesis
      using "1.IH" char_of_digit_ne_NUL [of "n mod 10"] by (subst dec_of_nat.simps) auto
  qed
qed

text \<open>
  The bound of \<open>strncat\<close>: with room for the text, the appended characters and one NUL
  the call stays inside the buffer, whatever the length of the source.
\<close>

lemma c_strncat_spec:
  assumes len: "c_strlen dest = Some d" and room: "d + n < length dest"
    and src: "NUL \<notin> set src"
  shows "\<exists>dest'. c_strncat dest src n = Some dest' \<and> length dest' = length dest
           \<and> c_text dest' = c_text dest @ take n src
           \<and> c_strlen dest' = Some (d + min n (length src))"
proof -
  let ?k = "take n src"
  let ?dest' = "take d dest @ ?k @ NUL # drop (d + length ?k + 1) dest"
  have put: "c_strncat dest src n = Some ?dest'"
    using len room by (simp add: c_strncat_def c_put_def)
  have td: "take d dest = c_text dest" using c_strlen_text [OF len] by blast
  have nn: "NUL \<notin> set (c_text dest @ ?k)"
    using NUL_notin_text src by (auto dest: in_set_takeD)
  have ld: "length (c_text dest) = d" using c_strlen_text [OF len] by simp
  have "length ?dest' = length dest" using room by simp
  moreover have "c_text ?dest' = c_text dest @ ?k"
    using c_text_prefix [OF nn] td by simp
  moreover have "c_strlen ?dest' = Some (d + min n (length src))"
    using c_strlen_prefix [OF nn] td ld by (simp add: min.commute)
  ultimately show ?thesis using put by blast
qed

lemma c_snprintf_spec:
  assumes "0 < n" and "n \<le> length dest" and "NUL \<notin> set s"
  shows "\<exists>dest'. c_snprintf dest n s = Some dest' \<and> length dest' = length dest
           \<and> c_text dest' = take (n - 1) s \<and> c_strlen dest' = Some (min (n - 1) (length s))"
proof -
  let ?k = "take (n - 1) s"
  let ?dest' = "?k @ NUL # drop (length ?k + 1) dest"
  have nn: "NUL \<notin> set ?k" using assms(3) by (auto dest: in_set_takeD)
  have put: "c_snprintf dest n s = Some ?dest'"
    using assms by (auto simp: c_snprintf_def c_put_def)
  have "length ?dest' = length dest" using assms by auto
  then show ?thesis
    using put c_text_prefix [OF nn] c_strlen_prefix [OF nn] by (auto simp: min.commute)
qed

end
