(* ===== verification/Simple_Ring.thy ===== *)
theory Simple_Ring
  imports Bounded_Fifo C_String
begin

text \<open>
  The ring buffer of \<open>ring_pipeline/four_ring_pipeline.c\<close>: an array of packets with a
  head (next slot to write) and a tail (next slot to read), one slot kept empty to tell a
  full ring from an empty one. \<open>None\<close> is undefined behaviour of C: a division by a zero
  size, or an access outside the array.
\<close>

record packet =
  p_len :: u64
  p_data :: string

definition PACKET_SIZE :: nat where
  "PACKET_SIZE = 2048"

definition RING_SIZE :: int where
  "RING_SIZE = 64"

record simple_ring =
  r_buf :: "packet list option"
  r_size :: int
  r_head :: int
  r_tail :: int

definition zero_packet :: packet where
  "zero_packet = \<lparr>p_len = 0, p_data = replicate PACKET_SIZE NUL\<rparr>"

text \<open>\<open>calloc\<close> either fails (NULL) or returns zeroed memory; which one is the flag \<open>mem\<close>.\<close>

definition ring_init :: "bool \<Rightarrow> int \<Rightarrow> simple_ring \<Rightarrow> int \<times> simple_ring" where
  "ring_init mem sz r =
     (let r = r\<lparr>r_buf := (if mem then Some (replicate (nat sz) zero_packet) else None)\<rparr> in
      if r_buf r = None then (- 1, r)
      else (0, r\<lparr>r_size := sz, r_head := 0, r_tail := 0\<rparr>))"

definition next_slot :: "simple_ring \<Rightarrow> int \<Rightarrow> int option" where
  "next_slot r i = (if r_size r = 0 then None else Some (crem (i + 1) (r_size r)))"

definition ring_is_full :: "simple_ring \<Rightarrow> bool option" where
  "ring_is_full r = map_option (\<lambda>i. i = r_tail r) (next_slot r (r_head r))"

definition ring_is_empty :: "simple_ring \<Rightarrow> bool" where
  "ring_is_empty r \<longleftrightarrow> r_head r = r_tail r"

definition buf_read :: "simple_ring \<Rightarrow> int \<Rightarrow> packet option" where
  "buf_read r i = do {
     b \<leftarrow> r_buf r;
     (if 0 \<le> i \<and> nat i < length b then Some (b ! nat i) else None) }"

definition buf_write :: "simple_ring \<Rightarrow> int \<Rightarrow> packet \<Rightarrow> simple_ring option" where
  "buf_write r i p = do {
     b \<leftarrow> r_buf r;
     (if 0 \<le> i \<and> nat i < length b then Some (r\<lparr>r_buf := Some (b[nat i := p])\<rparr>) else None) }"

definition ring_enqueue :: "simple_ring \<Rightarrow> packet \<Rightarrow> (int \<times> simple_ring) option" where
  "ring_enqueue r p = do {
     full \<leftarrow> ring_is_full r;
     if full then Some (- 1, r)
     else do {
       r \<leftarrow> buf_write r (r_head r) p;
       h \<leftarrow> next_slot r (r_head r);
       Some (0, r\<lparr>r_head := h\<rparr>) } }"

text \<open>The out-parameter \<open>p\<close> is written only when a packet is taken.\<close>

definition ring_dequeue ::
    "simple_ring \<Rightarrow> packet \<Rightarrow> (int \<times> packet \<times> simple_ring) option" where
  "ring_dequeue r p =
     (if ring_is_empty r then Some (- 1, p, r)
      else do {
        p \<leftarrow> buf_read r (r_tail r);
        t \<leftarrow> next_slot r (r_tail r);
        Some (0, p, r\<lparr>r_tail := t\<rparr>) })"

section \<open>Invariant and abstraction\<close>

definition ring_inv :: "simple_ring \<Rightarrow> bool" where
  "ring_inv r \<longleftrightarrow> (\<exists>b. r_buf r = Some b \<and> int (length b) = r_size r)
     \<and> 0 \<le> r_head r \<and> r_head r < r_size r \<and> 0 \<le> r_tail r \<and> r_tail r < r_size r"

definition ring_count :: "simple_ring \<Rightarrow> nat" where
  "ring_count r = nat ((r_head r - r_tail r) mod r_size r)"

definition ring_slot :: "simple_ring \<Rightarrow> nat \<Rightarrow> nat" where
  "ring_slot r k = nat ((r_tail r + int k) mod r_size r)"

definition ring_elems :: "simple_ring \<Rightarrow> packet list" where
  "ring_elems r = map (\<lambda>k. the (r_buf r) ! ring_slot r k) [0..<ring_count r]"

definition ring_capacity :: "simple_ring \<Rightarrow> nat" where
  "ring_capacity r = nat (r_size r - 1)"

lemma mod_diff_cases:
  fixes h t n :: int
  assumes "0 \<le> h" "h < n" "0 \<le> t" "t < n"
  shows "(h - t) mod n = (if t \<le> h then h - t else h - t + n)"
proof (cases "t \<le> h")
  case True
  then show ?thesis using assms by simp
next
  case False
  have "(h - t) mod n = (h - t + n) mod n" by simp
  also have "\<dots> = h - t + n" using False assms by (intro mod_pos_pos_trivial) auto
  finally show ?thesis using False by simp
qed

lemma mod_succ_cases:
  fixes h n :: int
  assumes "0 \<le> h" "h < n"
  shows "(h + 1) mod n = (if h + 1 = n then 0 else h + 1)"
  using assms by auto

lemma mod_add_cases:
  fixes t n :: int
  assumes "0 \<le> t" "t < n" "int k < n"
  shows "(t + int k) mod n = (if t + int k < n then t + int k else t + int k - n)"
proof (cases "t + int k < n")
  case True
  then show ?thesis using assms by simp
next
  case False
  have "(t + int k) mod n = (t + int k - n) mod n" by simp
  also have "\<dots> = t + int k - n" using False assms by (intro mod_pos_pos_trivial) auto
  finally show ?thesis using False by simp
qed

lemmas ring_mods = mod_diff_cases mod_succ_cases mod_add_cases

lemma ring_invE:
  assumes "ring_inv r"
  obtains b where "r_buf r = Some b" "int (length b) = r_size r" "0 < r_size r"
    "0 \<le> r_head r" "r_head r < r_size r" "0 \<le> r_tail r" "r_tail r < r_size r"
  using assms by (auto simp: ring_inv_def)

lemma length_ring_elems [simp]: "length (ring_elems r) = ring_count r"
  by (simp add: ring_elems_def)

lemma ring_count_le: "ring_inv r \<Longrightarrow> ring_count r \<le> ring_capacity r"
  by (auto simp: ring_inv_def ring_count_def ring_capacity_def mod_diff_cases)

lemma next_slot_inv: "ring_inv r \<Longrightarrow> 0 \<le> i \<Longrightarrow> next_slot r i = Some ((i + 1) mod r_size r)"
  by (auto simp: ring_inv_def next_slot_def)

lemma ring_full_iff:
  assumes "ring_inv r"
  shows "ring_is_full r = Some (\<not> ring_count r < ring_capacity r)"
proof -
  obtain b where b: "0 \<le> r_head r" "r_head r < r_size r" "0 \<le> r_tail r" "r_tail r < r_size r"
    using assms by (elim ring_invE)
  have "((r_head r + 1) mod r_size r = r_tail r) = (\<not> ring_count r < ring_capacity r)"
    using b by (auto simp: ring_count_def ring_capacity_def mod_diff_cases mod_succ_cases)
  then show ?thesis using next_slot_inv [OF assms b(1)] by (simp add: ring_is_full_def)
qed

lemma ring_empty_iff:
  assumes "ring_inv r"
  shows "ring_is_empty r \<longleftrightarrow> ring_elems r = []"
proof -
  obtain b where b: "0 \<le> r_head r" "r_head r < r_size r" "0 \<le> r_tail r" "r_tail r < r_size r"
    using assms by (elim ring_invE)
  have "ring_is_empty r \<longleftrightarrow> ring_count r = 0"
    using b by (auto simp: ring_is_empty_def ring_count_def mod_diff_cases)
  then show ?thesis by (metis length_0_conv length_ring_elems)
qed

section \<open>The operations against the list\<close>

lemma ring_slot_last:
  assumes "ring_inv r" shows "ring_slot r (ring_count r) = nat (r_head r)"
proof -
  obtain b where b: "0 \<le> r_head r" "r_head r < r_size r" "0 \<le> r_tail r" "r_tail r < r_size r"
    using assms by (elim ring_invE)
  show ?thesis
    using b by (auto simp: ring_slot_def ring_count_def ring_mods)
qed

lemma ring_slot_other:
  assumes "ring_inv r" and "k < ring_count r" shows "ring_slot r k \<noteq> nat (r_head r)"
proof -
  obtain b where b: "0 \<le> r_head r" "r_head r < r_size r" "0 \<le> r_tail r" "r_tail r < r_size r"
    using assms by (elim ring_invE)
  have "int k < r_size r"
    using ring_count_le [OF assms(1)] assms(2) b by (auto simp: ring_capacity_def)
  then show ?thesis
    using b assms(2) by (auto simp: ring_slot_def ring_count_def ring_mods nat_eq_iff split: if_splits)
qed

lemma ring_slot_bound: "ring_inv r \<Longrightarrow> r_buf r = Some b \<Longrightarrow> ring_slot r k < length b"
  by (auto simp: ring_inv_def ring_slot_def nat_less_iff)

lemma ring_enqueue_room:
  assumes inv: "ring_inv r" and room: "ring_count r < ring_capacity r"
  shows "\<exists>r'. ring_enqueue r p = Some (0, r') \<and> ring_inv r'
           \<and> ring_elems r' = ring_elems r @ [p] \<and> ring_capacity r' = ring_capacity r"
proof -
  obtain b where b: "r_buf r = Some b" "int (length b) = r_size r" "0 < r_size r"
      "0 \<le> r_head r" "r_head r < r_size r" "0 \<le> r_tail r" "r_tail r < r_size r"
    using inv by (elim ring_invE)
  define r' where "r' = r\<lparr>r_buf := Some (b[nat (r_head r) := p]),
                          r_head := (r_head r + 1) mod r_size r\<rparr>"
  have enq: "ring_enqueue r p = Some (0, r')"
    using b room ring_full_iff [OF inv]
    by (simp add: ring_enqueue_def buf_write_def next_slot_def r'_def nat_less_iff)
  have inv': "ring_inv r'" using b by (simp add: ring_inv_def r'_def)
  have cap: "ring_capacity r' = ring_capacity r" by (simp add: r'_def ring_capacity_def)
  have count: "ring_count r' = Suc (ring_count r)"
    using b room by (auto simp: r'_def ring_count_def ring_capacity_def mod_diff_cases mod_succ_cases)
  have slot: "ring_slot r' k = ring_slot r k" for k by (simp add: r'_def ring_slot_def)
  have "map (\<lambda>k. b[nat (r_head r) := p] ! ring_slot r k) [0..<ring_count r] = ring_elems r"
    using not_sym [OF ring_slot_other [OF inv]] b by (auto simp: ring_elems_def)
  moreover have "b[nat (r_head r) := p] ! ring_slot r (ring_count r) = p"
    using ring_slot_last [OF inv] b by (simp add: nat_less_iff)
  moreover have "r_buf r' = Some (b[nat (r_head r) := p])" by (simp add: r'_def)
  ultimately have "ring_elems r' = ring_elems r @ [p]"
    by (simp add: ring_elems_def [of r'] count slot)
  with enq inv' cap show ?thesis by blast
qed

lemma ring_enqueue_full:
  "ring_inv r \<Longrightarrow> \<not> ring_count r < ring_capacity r \<Longrightarrow> ring_enqueue r p = Some (- 1, r)"
  by (simp add: ring_enqueue_def ring_full_iff)

lemma ring_dequeue_empty:
  "ring_inv r \<Longrightarrow> ring_elems r = [] \<Longrightarrow> ring_dequeue r p = Some (- 1, p, r)"
  by (simp add: ring_dequeue_def ring_empty_iff)

lemma ring_dequeue_first:
  assumes inv: "ring_inv r" and ne: "ring_elems r = x # xs"
  shows "\<exists>r'. ring_dequeue r p = Some (0, x, r') \<and> ring_inv r'
           \<and> ring_elems r' = xs \<and> ring_capacity r' = ring_capacity r"
proof -
  obtain b where b: "r_buf r = Some b" "int (length b) = r_size r" "0 < r_size r"
      "0 \<le> r_head r" "r_head r < r_size r" "0 \<le> r_tail r" "r_tail r < r_size r"
    using inv by (elim ring_invE)
  define r' where "r' = r\<lparr>r_tail := (r_tail r + 1) mod r_size r\<rparr>"
  have pos: "0 < ring_count r" using ne length_ring_elems [of r] by simp
  have upt: "[0..<ring_count r] = 0 # map Suc [0..<ring_count r - 1]"
    using pos by (simp add: upt_conv_Cons map_Suc_upt)
  have "x = b ! ring_slot r 0" using ne b by (simp add: ring_elems_def upt)
  moreover have "ring_slot r 0 = nat (r_tail r)" using b by (simp add: ring_slot_def)
  ultimately have deq: "ring_dequeue r p = Some (0, x, r')"
    using b ne ring_empty_iff [OF inv]
    by (simp add: ring_dequeue_def buf_read_def next_slot_def r'_def nat_less_iff)
  have inv': "ring_inv r'" using b by (simp add: ring_inv_def r'_def)
  have cap: "ring_capacity r' = ring_capacity r" by (simp add: r'_def ring_capacity_def)
  have count: "ring_count r' = ring_count r - 1"
    using b pos by (auto simp: r'_def ring_count_def mod_diff_cases mod_succ_cases)
  have slot: "ring_slot r' k = ring_slot r (Suc k)" for k
    by (simp add: r'_def ring_slot_def mod_add_left_eq add.assoc)
  have "ring_elems r' = map (\<lambda>k. b ! ring_slot r (Suc k)) [0..<ring_count r - 1]"
    using b by (simp add: ring_elems_def count slot) (simp add: r'_def)
  also have "\<dots> = xs" using ne b by (auto simp: ring_elems_def upt)
  finally show ?thesis using deq inv' cap by blast
qed

lemma ring_init_inv:
  assumes "ring_init mem sz r = (0, r')" and "0 < sz"
  shows "ring_inv r' \<and> ring_elems r' = [] \<and> ring_capacity r' = nat (sz - 1)"
  using assms
  by (auto simp: ring_init_def Let_def ring_inv_def ring_elems_def ring_count_def
      ring_capacity_def split: if_splits)

interpretation ringq: bounded_fifo ring_inv ring_elems ring_capacity ring_enqueue ring_dequeue
  by unfold_locales
    (simp_all add: ring_enqueue_room ring_enqueue_full ring_dequeue_empty ring_dequeue_first
      ring_count_le)

end
