(* ===== verification/Ring_Pipeline.thy ===== *)
theory Ring_Pipeline
  imports Simple_Ring
begin

text \<open>
  \<open>main\<close> of \<open>ring_pipeline/four_ring_pipeline.c\<close>: ten packets go from the (simulated)
  AF_XDP ring through rings 3 and 4 to an io_uring write. The calls into liburing and the
  allocator are answered by an environment (a non-zero answer to \<open>GetSqe\<close> is an entry, zero
  is NULL; a non-zero answer to \<open>Calloc\<close> is memory); \<open>junk\<close> is what the uninitialised packet
  on the stack holds.
\<close>

datatype pipe_ev =
    QueueInit int | Calloc int int | Perror string | Fprintf string
  | GetSqe | PrepWrite int string u64 | Submit | WaitCqe | CqeSeen | QueueExit | FreeRing nat

definition setup_xdp_socket :: int where
  "setup_xdp_socket = 0"

definition packet_text :: "nat \<Rightarrow> string" where
  "packet_text i = ''packet '' @ dec_of_nat i"

text \<open>Lines 100-104: fill a packet and put it on ring 3.\<close>

definition receive_packet ::
    "nat \<Rightarrow> packet \<Rightarrow> simple_ring \<Rightarrow> (packet \<times> simple_ring) option" where
  "receive_packet i pkt r3 = do {
     d \<leftarrow> c_snprintf (p_data pkt) PACKET_SIZE (packet_text i);
     n \<leftarrow> c_strlen d;
     let pkt = \<lparr>p_len = of_nat n + 1, p_data = d\<rparr>;
     (rc, r3) \<leftarrow> ring_enqueue r3 pkt;
     Some (pkt, r3) }"

text \<open>Lines 107-112: take a packet from ring 3, append to its text, put it on ring 4.\<close>

definition process_packet ::
    "packet \<Rightarrow> simple_ring \<Rightarrow> simple_ring \<Rightarrow> (packet \<times> simple_ring \<times> simple_ring) option" where
  "process_packet pkt r3 r4 = do {
     (rc, pkt, r3) \<leftarrow> ring_dequeue r3 pkt;
     if rc = 0 then do {
       d \<leftarrow> c_strncat (p_data pkt) '' processed'' (unat (of_nat PACKET_SIZE - p_len pkt));
       n \<leftarrow> c_strlen d;
       let pkt = \<lparr>p_len = of_nat n + 1, p_data = d\<rparr>;
       (rc, r4) \<leftarrow> ring_enqueue r4 pkt;
       Some (pkt, r3, r4) }
     else Some (pkt, r3, r4) }"

text \<open>
  Lines 115-123: take a packet from ring 4 and write it through io_uring. The flag is
  whether the loop breaks.
\<close>

definition emit_packet :: "(pipe_ev, int) env \<Rightarrow> packet \<Rightarrow> simple_ring \<Rightarrow> pipe_ev list
    \<Rightarrow> (bool \<times> simple_ring \<times> pipe_ev list) option" where
  "emit_packet env pkt r4 lg = do {
     (rc, pkt, r4) \<leftarrow> ring_dequeue r4 pkt;
     if rc = 0 then
       (if env lg GetSqe = 0 then Some (True, r4, lg @ [GetSqe])
        else Some (False, r4, lg @ [GetSqe,
               PrepWrite 1 (take (unat (p_len pkt)) (p_data pkt)) 0, Submit, WaitCqe, CqeSeen]))
     else Some (False, r4, lg) }"

fun dispatch :: "(pipe_ev, int) env \<Rightarrow> (nat \<Rightarrow> packet) \<Rightarrow> nat \<Rightarrow> nat
    \<Rightarrow> simple_ring \<Rightarrow> simple_ring \<Rightarrow> pipe_ev list \<Rightarrow> pipe_ev list option" where
  "dispatch env junk 0 i r3 r4 lg = Some lg"
| "dispatch env junk (Suc k) i r3 r4 lg = do {
     (pkt, r3) \<leftarrow> receive_packet i (junk i) r3;
     (pkt, r3, r4) \<leftarrow> process_packet pkt r3 r4;
     (stop, r4, lg) \<leftarrow> emit_packet env pkt r4 lg;
     if stop then Some lg else dispatch env junk k (Suc i) r3 r4 lg }"

definition pipeline_main :: "(pipe_ev, int) env \<Rightarrow> (nat \<Rightarrow> packet)
    \<Rightarrow> simple_ring \<Rightarrow> simple_ring \<Rightarrow> (int \<times> pipe_ev list) option" where
  "pipeline_main env junk ring3 ring4 =
     (let lg = [QueueInit 64] in
      if env [] (QueueInit 64) \<noteq> 0 then Some (1, lg @ [Perror ''io_uring_queue_init''])
      else if setup_xdp_socket \<noteq> 0 then Some (1, lg @ [Fprintf ''failed to setup AF_XDP socket''])
      else
        (let c3 = Calloc 64 2056; m3 = env lg c3 \<noteq> 0; (e3, ring3) = ring_init m3 RING_SIZE ring3;
             lg = lg @ [c3] in
         if e3 \<noteq> 0 then Some (1, lg @ [Fprintf ''failed to init ring buffers''])
         else
           (let m4 = env lg c3 \<noteq> 0; (e4, ring4) = ring_init m4 RING_SIZE ring4; lg = lg @ [c3] in
            if e4 \<noteq> 0 then Some (1, lg @ [Fprintf ''failed to init ring buffers''])
            else do {
              lg \<leftarrow> dispatch env junk 10 0 ring3 ring4 lg;
              Some (0, lg @ [QueueExit, FreeRing 3, FreeRing 4]) })))"

section \<open>What a packet is on its way\<close>

definition stack_packets :: "(nat \<Rightarrow> packet) \<Rightarrow> bool" where
  "stack_packets junk \<longleftrightarrow> (\<forall>i. length (p_data (junk i)) = PACKET_SIZE)"

definition good_packet :: "string \<Rightarrow> packet \<Rightarrow> bool" where
  "good_packet t p \<longleftrightarrow> length (p_data p) = PACKET_SIZE \<and> c_text (p_data p) = t
     \<and> c_strlen (p_data p) = Some (length t) \<and> p_len p = of_nat (length t) + 1"

definition fresh_ring :: "simple_ring \<Rightarrow> bool" where
  "fresh_ring r \<longleftrightarrow> ring_inv r \<and> ring_elems r = [] \<and> ring_capacity r = 63"

lemma PACKET_SIZE_val: "PACKET_SIZE = 2048"
  by (simp add: PACKET_SIZE_def)

lemma length_dec_of_nat_small: "i < 100 \<Longrightarrow> length (dec_of_nat i) \<le> 2"
  by (subst dec_of_nat.simps, subst dec_of_nat.simps) auto

lemma NUL_notin_packet_text: "NUL \<notin> set (packet_text i)"
  using NUL_notin_dec by (simp add: packet_text_def)

lemma length_packet_text: "i < 100 \<Longrightarrow> length (packet_text i) \<le> 9"
  using length_dec_of_nat_small [of i] by (simp add: packet_text_def)

lemma good_packet_len:
  "good_packet t p \<Longrightarrow> unat (p_len p) = length t + 1 \<and> length t < PACKET_SIZE"
proof -
  assume g: "good_packet t p"
  then have "length t < 2048" using c_strlen_lt [of "p_data p"] by (auto simp: good_packet_def PACKET_SIZE_def)
  moreover have "p_len p = of_nat (length t + 1)" using g by (simp add: good_packet_def add.commute)
  ultimately show ?thesis by (simp add: PACKET_SIZE_def unat_word_ariths unat_of_nat)
qed

lemma good_packet_bytes:
  assumes "good_packet t p"
  shows "take (unat (p_len p)) (p_data p) = t @ [NUL]"
proof -
  have l: "c_strlen (p_data p) = Some (length t)" and t: "c_text (p_data p) = t"
    using assms by (auto simp: good_packet_def)
  have "length t < length (p_data p)" using c_strlen_lt [OF l] .
  moreover have "p_data p ! length t = NUL" using c_strlen_nth [OF l] .
  moreover have "take (length t) (p_data p) = t" using c_strlen_text [OF l] t by blast
  ultimately show ?thesis
    using good_packet_len [OF assms] by (simp add: take_Suc_conv_app_nth)
qed

section \<open>One packet through the pipeline\<close>

lemma fresh_ring_put:
  assumes "fresh_ring r"
  obtains r' where "ring_enqueue r p = Some (0, r')" "ring_inv r'" "ring_elems r' = [p]"
    "ring_capacity r' = 63"
  using ringq.enq_room [of r p] assms length_ring_elems [of r] by (auto simp: fresh_ring_def)

lemma receive_packet_ok:
  assumes "stack_packets junk" and "fresh_ring r3" and "i < 100"
  shows "\<exists>pkt r3'. receive_packet i (junk i) r3 = Some (pkt, r3') \<and> good_packet (packet_text i) pkt
           \<and> ring_inv r3' \<and> ring_elems r3' = [pkt] \<and> ring_capacity r3' = 63"
proof -
  have dl: "length (p_data (junk i)) = PACKET_SIZE" using assms(1) by (simp add: stack_packets_def)
  obtain d where d: "c_snprintf (p_data (junk i)) PACKET_SIZE (packet_text i) = Some d"
      "length d = PACKET_SIZE" "c_text d = packet_text i"
      "c_strlen d = Some (length (packet_text i))"
    using c_snprintf_spec [of PACKET_SIZE "p_data (junk i)" "packet_text i"] dl
      NUL_notin_packet_text [of i] length_packet_text [OF assms(3)]
    by (auto simp: PACKET_SIZE_def min_def)
  define pkt where "pkt = \<lparr>p_len = of_nat (length (packet_text i)) + 1, p_data = d\<rparr>"
  have g: "good_packet (packet_text i) pkt" using d by (simp add: good_packet_def pkt_def)
  obtain r3' where "ring_enqueue r3 pkt = Some (0, r3')" "ring_inv r3'" "ring_elems r3' = [pkt]"
      "ring_capacity r3' = 63"
    using fresh_ring_put [OF assms(2)] by blast
  then show ?thesis using d g by (auto simp: receive_packet_def pkt_def)
qed

lemma process_packet_ok:
  assumes r3: "ring_inv r3" "ring_elems r3 = [pkt]" "ring_capacity r3 = 63"
    and r4: "fresh_ring r4" and g: "good_packet t pkt" and len: "length t \<le> 9"
  shows "\<exists>pkt' r3' r4'. process_packet p0 r3 r4 = Some (pkt', r3', r4') \<and> fresh_ring r3'
           \<and> good_packet (t @ '' processed'') pkt'
           \<and> ring_inv r4' \<and> ring_elems r4' = [pkt'] \<and> ring_capacity r4' = 63"
proof -
  obtain r3' where r3': "ring_dequeue r3 p0 = Some (0, pkt, r3')" "fresh_ring r3'"
    using ringq.deq_first [OF r3(1,2), of p0] r3(3) by (auto simp: fresh_ring_def)
  have dl: "length (p_data pkt) = 2048" and dt: "c_text (p_data pkt) = t"
    and ds: "c_strlen (p_data pkt) = Some (length t)" and pl: "unat (p_len pkt) = length t + 1"
    using g good_packet_len [OF g] by (auto simp: good_packet_def PACKET_SIZE_def)
  have n: "unat (of_nat PACKET_SIZE - p_len pkt) = 2048 - (length t + 1)"
    using pl len by (subst unat_sub) (auto simp: word_le_nat_alt PACKET_SIZE_def)
  obtain d where d: "c_strncat (p_data pkt) '' processed'' (2048 - (length t + 1)) = Some d"
      "length d = 2048" "c_text d = t @ '' processed''" "c_strlen d = Some (length t + 10)"
    using c_strncat_spec [OF ds, of "2048 - (length t + 1)" "'' processed''"] dl dt len
    by (auto simp: min_def)
  define pkt' where "pkt' = \<lparr>p_len = of_nat (length t + 10) + 1 :: u64, p_data = d\<rparr>"
  have g': "good_packet (t @ '' processed'') pkt'"
    using d by (simp add: good_packet_def pkt'_def PACKET_SIZE_def)
  obtain r4' where "ring_enqueue r4 pkt' = Some (0, r4')" "ring_inv r4'" "ring_elems r4' = [pkt']"
      "ring_capacity r4' = 63"
    using fresh_ring_put [OF r4] by blast
  then show ?thesis
    using r3' d n g' by (auto simp: process_packet_def pkt'_def)
qed

definition emitted :: "nat \<Rightarrow> pipe_ev list" where
  "emitted i = [GetSqe, PrepWrite 1 (packet_text i @ '' processed'' @ [NUL]) 0, Submit, WaitCqe, CqeSeen]"

lemma emit_packet_ok:
  assumes r4: "ring_inv r4" "ring_elems r4 = [pkt]" "ring_capacity r4 = 63"
    and g: "good_packet (packet_text i @ '' processed'') pkt"
  shows "\<exists>r4'. emit_packet env p0 r4 lg
           = Some (if env lg GetSqe = 0 then (True, r4', lg @ [GetSqe])
                   else (False, r4', lg @ emitted i)) \<and> fresh_ring r4'"
proof -
  obtain r4' where "ring_dequeue r4 p0 = Some (0, pkt, r4')" "fresh_ring r4'"
    using ringq.deq_first [OF r4(1,2), of p0] r4(3) by (auto simp: fresh_ring_def)
  then show ?thesis
    using good_packet_bytes [OF g] by (auto simp: emit_packet_def emitted_def)
qed

lemma dispatch_ok:
  assumes "stack_packets junk" "fresh_ring r3" "fresh_ring r4" "i + k \<le> 100"
  shows "\<exists>n \<le> k. dispatch env junk k i r3 r4 lg
           = Some (lg @ concat (map emitted [i..<i + n]) @ (if n = k then [] else [GetSqe]))
         \<and> (n \<noteq> k \<longrightarrow> env (lg @ concat (map emitted [i..<i + n])) GetSqe = 0)"
  using assms
proof (induction k arbitrary: i r3 r4 lg)
  case 0
  then show ?case by simp
next
  case (Suc k)
  have i: "i < 100" using Suc.prems(4) by simp
  obtain pkt r3a where a: "receive_packet i (junk i) r3 = Some (pkt, r3a)"
      "good_packet (packet_text i) pkt" "ring_inv r3a" "ring_elems r3a = [pkt]" "ring_capacity r3a = 63"
    using receive_packet_ok [OF Suc.prems(1,2) i] by blast
  obtain pkt' r3b r4a where b: "process_packet pkt r3a r4 = Some (pkt', r3b, r4a)" "fresh_ring r3b"
      "good_packet (packet_text i @ '' processed'') pkt'"
      "ring_inv r4a" "ring_elems r4a = [pkt']" "ring_capacity r4a = 63"
    using process_packet_ok [OF a(3-5) Suc.prems(3) a(2) length_packet_text [OF i], of pkt] by blast
  obtain r4b where c: "emit_packet env pkt' r4a lg
      = Some (if env lg GetSqe = 0 then (True, r4b, lg @ [GetSqe]) else (False, r4b, lg @ emitted i))"
      "fresh_ring r4b"
    using emit_packet_ok [OF b(4-6) b(3)] by blast
  show ?case
  proof (cases "env lg GetSqe = 0")
    case True
    then show ?thesis using a b c by (intro exI [of _ 0]) simp
  next
    case False
    from Suc.IH [OF Suc.prems(1) b(2) c(2), of "Suc i" "lg @ emitted i"] Suc.prems(4) obtain n
      where n: "n \<le> k" "dispatch env junk k (Suc i) r3b r4b (lg @ emitted i)
        = Some ((lg @ emitted i) @ concat (map emitted [Suc i..<Suc i + n]) @ (if n = k then [] else [GetSqe]))"
        "n \<noteq> k \<longrightarrow> env ((lg @ emitted i) @ concat (map emitted [Suc i..<Suc i + n])) GetSqe = 0"
      by auto
    have "[i..<i + Suc n] = i # [Suc i..<Suc i + n]" by (simp add: upt_conv_Cons)
    then show ?thesis
      using a b c False n by (intro exI [of _ "Suc n"]) (auto simp: upt_rec)
  qed
qed

lemma fresh_after_init:
  "ring_init m RING_SIZE r = (0, r') \<Longrightarrow> fresh_ring r'"
  using ring_init_inv [of m RING_SIZE r r'] by (simp add: RING_SIZE_def fresh_ring_def)

section \<open>The whole program\<close>

definition pipeline_ready :: "(pipe_ev, int) env \<Rightarrow> bool" where
  "pipeline_ready env \<longleftrightarrow> env [] (QueueInit 64) = 0
     \<and> env [QueueInit 64] (Calloc 64 2056) \<noteq> 0
     \<and> env [QueueInit 64, Calloc 64 2056] (Calloc 64 2056) \<noteq> 0"

lemma pipeline_main_cases:
  "pipeline_main env junk ring3 ring4 =
    (if pipeline_ready env then do {
       lg \<leftarrow> dispatch env junk 10 0 (snd (ring_init True RING_SIZE ring3))
               (snd (ring_init True RING_SIZE ring4)) [QueueInit 64, Calloc 64 2056, Calloc 64 2056];
       Some (0, lg @ [QueueExit, FreeRing 3, FreeRing 4]) }
     else Some (1, snd (the (pipeline_main env junk ring3 ring4))))"
  by (auto simp: pipeline_main_def pipeline_ready_def setup_xdp_socket_def ring_init_def Let_def)

lemma dispatch_from_init:
  assumes "stack_packets junk"
  shows "\<exists>n \<le> 10. dispatch env junk 10 0 (snd (ring_init True RING_SIZE ring3))
               (snd (ring_init True RING_SIZE ring4)) lg
           = Some (lg @ concat (map emitted [0..<n]) @ (if n = 10 then [] else [GetSqe]))
         \<and> (n \<noteq> 10 \<longrightarrow> env (lg @ concat (map emitted [0..<n])) GetSqe = 0)"
proof -
  have f: "fresh_ring (snd (ring_init True RING_SIZE r))" for r
    by (rule fresh_after_init [of True r]) (simp add: ring_init_def Let_def)
  from dispatch_ok [OF assms f f, where i = 0 and k = 10] show ?thesis by simp
qed

definition pipeline_log :: "pipe_ev list" where
  "pipeline_log = [QueueInit 64, Calloc 64 2056, Calloc 64 2056]
     @ concat (map emitted [0..<10]) @ [QueueExit, FreeRing 3, FreeRing 4]"

text \<open>
  C13: whatever liburing and the allocator answer and whatever the uninitialised packets on the
  stack hold, the pipeline program has no undefined behaviour: every access to a ring, every
  \<open>snprintf\<close>, \<open>strncat\<close> and \<open>strlen\<close> stays inside its buffer, and \<open>main\<close> returns 0 or 1.
\<close>

theorem pipeline_no_overflow:
  assumes "stack_packets junk"
  shows "\<exists>rc lg. pipeline_main env junk ring3 ring4 = Some (rc, lg) \<and> rc \<in> {0, 1}"
proof (cases "pipeline_ready env")
  case True
  then show ?thesis
    using dispatch_from_init [OF assms, of env ring3 ring4
        "[QueueInit 64, Calloc 64 2056, Calloc 64 2056]"]
    by (subst pipeline_main_cases) auto
next
  case False
  then show ?thesis
    by (auto simp: pipeline_main_def pipeline_ready_def setup_xdp_socket_def ring_init_def Let_def)
qed

text \<open>
  C12: when the ring and the memory are there and \<open>io_uring_get_sqe\<close> never returns NULL, the
  program writes exactly the ten texts "packet i processed" with their NUL, in order, submits,
  waits for and consumes one completion for each before it prepares the next, and releases the
  ring and both buffers.
\<close>

theorem pipeline_output:
  assumes "stack_packets junk" and "pipeline_ready env" and "\<And>lg. env lg GetSqe \<noteq> 0"
  shows "pipeline_main env junk ring3 ring4 = Some (0, pipeline_log)"
  using dispatch_from_init [OF assms(1), of env ring3 ring4
      "[QueueInit 64, Calloc 64 2056, Calloc 64 2056]"] assms(2,3)
  by (subst pipeline_main_cases) (auto simp: pipeline_log_def)

text \<open>
  C11: a freshly initialised ring of size \<open>n\<close> behaves, over every sequence of enqueues and
  dequeues, exactly as a first-in first-out list of at most \<open>n - 1\<close> packets: same results
  (success, full, empty, the packet taken) and same contents, with no access outside the array.
\<close>

theorem ring_refines_fifo:
  assumes "ring_init mem n r0 = (0, r)" and "0 < n"
  shows "\<exists>r'. impl_run ring_enqueue ring_dequeue d os r = Some (fst (spec_run (nat (n - 1)) os []), r')
           \<and> ring_elems r' = snd (spec_run (nat (n - 1)) os []) \<and> ring_inv r'"
  using ring_init_inv [OF assms] ringq.run_refines [of r d os] by auto

section \<open>Witnesses\<close>

definition ok_env :: "(pipe_ev, int) env" where
  "ok_env lg e = (case e of QueueInit _ \<Rightarrow> 0 | _ \<Rightarrow> 1)"

definition zero_ring :: simple_ring where
  "zero_ring = \<lparr>r_buf = None, r_size = 0, r_head = 0, r_tail = 0\<rparr>"

lemma stack_packets_zero: "stack_packets (\<lambda>_. zero_packet)"
  by (simp add: stack_packets_def zero_packet_def)

lemma pipeline_ready_ok: "pipeline_ready ok_env"
  by (simp add: pipeline_ready_def ok_env_def)

theorem pipeline_no_overflow_witness:
  "\<exists>rc lg. pipeline_main ok_env (\<lambda>_. zero_packet) zero_ring zero_ring = Some (rc, lg) \<and> rc \<in> {0, 1}"
  by (rule pipeline_no_overflow [OF stack_packets_zero])

theorem pipeline_output_witness:
  "pipeline_main ok_env (\<lambda>_. zero_packet) zero_ring zero_ring = Some (0, pipeline_log)"
  by (rule pipeline_output [OF stack_packets_zero pipeline_ready_ok]) (simp add: ok_env_def)

theorem ring_refines_fifo_witness:
  "\<exists>r'. impl_run ring_enqueue ring_dequeue zero_packet [QDeq, QEnq zero_packet, QEnq zero_packet, QDeq]
        (snd (ring_init True 2 zero_ring)) = Some ([QGot None, QPut True, QPut False, QGot (Some zero_packet)], r')"
proof -
  have "ring_init True 2 zero_ring = (0, snd (ring_init True 2 zero_ring))"
    by (simp add: ring_init_def Let_def)
  from ring_refines_fifo [OF this, of zero_packet "[QDeq, QEnq zero_packet, QEnq zero_packet, QDeq]"]
  show ?thesis by auto
qed

end
