(* ===== verification/Bpf_Runtime.thy ===== *)
theory Bpf_Runtime
  imports Prelude
begin

text \<open>
  What the BPF programs of the repository share. The maps a program declares are part of
  its state and follow the documented behaviour of \<open>BPF_MAP_TYPE_ARRAY\<close> (preallocated,
  zeroed, a lookup out of range is NULL) and \<open>BPF_MAP_TYPE_HASH\<close> (an update with
  \<open>BPF_ANY\<close> of a new key fails with \<open>-E2BIG\<close> when the map is full). The extended helpers
  (\<open>EXTENDED_HELPER_IOURING_*\<close>) live in the bpftime runtime, outside the repository: each
  call is logged and answered by an environment.
\<close>

section \<open>Helper calls\<close>

datatype bpf_ev =
    UringInit | SubmitWrite i32 u64 u64 | SubmitRead i32 u64 u64 u64
  | SubmitSend i32 u64 u64 i32 | SubmitRecv i32 u64 u64 i32 | SubmitFsync i32
  | WaitAndSeen | USubmit | SubmitPread i32 u64 u64 u64 | SetLinkflag
  | Printk string | OverrideReturn u64 | ProbeWriteUser u64 "u8 list"
  | RingbufOutput string "u8 list" | RingbufReserve string nat | RingbufSubmit string "u8 list"
  | MemAlloc u64

type_synonym bpf_env = "(bpf_ev, u64) env"

text \<open>What a program reads of its invocation: the argument registers, the process, the time.\<close>

record bpf_ctx =
  parm1 :: u64
  parm2 :: u64
  parm3 :: u64
  parm4 :: u64
  parm5 :: u64
  cur_pid_tgid :: u64
  ktime_ns :: u64

definition cur_pid :: "bpf_ctx \<Rightarrow> u32" where
  "cur_pid c = ucast (drop_bit 32 (cur_pid_tgid c))"

definition to_int :: "u64 \<Rightarrow> i32" where
  "to_int w = ucast w"

record bpf =
  blog :: "bpf_ev list"

definition emit :: "bpf_ev \<Rightarrow> 'a bpf_scheme \<Rightarrow> 'a bpf_scheme" where
  "emit e s = s\<lparr>blog := blog s @ [e]\<rparr>"

definition hcall :: "bpf_env \<Rightarrow> bpf_ev \<Rightarrow> 'a bpf_scheme \<Rightarrow> u64 \<times> 'a bpf_scheme" where
  "hcall env e s = (env (blog s) e, emit e s)"

lemma blog_emit [simp]: "blog (emit e s) = blog s @ [e]"
  by (simp add: emit_def)

section \<open>Array maps\<close>

definition E2BIG :: int where
  "E2BIG = 7"

definition am_lookup :: "'v list \<Rightarrow> u32 \<Rightarrow> 'v option" where
  "am_lookup m k = (if unat k < length m then Some (m ! unat k) else None)"

definition am_update :: "'v list \<Rightarrow> u32 \<Rightarrow> 'v \<Rightarrow> int \<times> 'v list" where
  "am_update m k v = (if unat k < length m then (0, m[unat k := v]) else (- E2BIG, m))"

text \<open>A store through the pointer a lookup returned.\<close>

definition am_store :: "'v list \<Rightarrow> u32 \<Rightarrow> 'v \<Rightarrow> 'v list" where
  "am_store m k v = m[unat k := v]"

section \<open>Hash maps\<close>

record ('k, 'v) hmap =
  hm_entries :: "('k \<times> 'v) list"
  hm_max :: nat

definition hm_lookup :: "('k, 'v) hmap \<Rightarrow> 'k \<Rightarrow> 'v option" where
  "hm_lookup m k = map_of (hm_entries m) k"

definition hm_keys :: "('k, 'v) hmap \<Rightarrow> 'k list" where
  "hm_keys m = map fst (hm_entries m)"

definition hm_room :: "'k \<Rightarrow> ('k, 'v) hmap \<Rightarrow> bool" where
  "hm_room k m \<longleftrightarrow> k \<in> set (hm_keys m) \<or> length (hm_entries m) < hm_max m"

definition hm_update :: "('k, 'v) hmap \<Rightarrow> 'k \<Rightarrow> 'v \<Rightarrow> int \<times> ('k, 'v) hmap" where
  "hm_update m k v =
     (if hm_room k m then (0, m\<lparr>hm_entries := AList.update k v (hm_entries m)\<rparr>) else (- E2BIG, m))"

definition hm_delete :: "('k, 'v) hmap \<Rightarrow> 'k \<Rightarrow> ('k, 'v) hmap" where
  "hm_delete m k = m\<lparr>hm_entries := AList.delete k (hm_entries m)\<rparr>"

definition hm_store :: "('k, 'v) hmap \<Rightarrow> 'k \<Rightarrow> 'v \<Rightarrow> ('k, 'v) hmap" where
  "hm_store m k v =
     (if k \<in> set (hm_keys m) then m\<lparr>hm_entries := AList.update k v (hm_entries m)\<rparr> else m)"

definition hm_wf :: "('k, 'v) hmap \<Rightarrow> bool" where
  "hm_wf m \<longleftrightarrow> distinct (hm_keys m) \<and> length (hm_entries m) \<le> hm_max m"

definition hm_empty :: "nat \<Rightarrow> ('k, 'v) hmap" where
  "hm_empty n = \<lparr>hm_entries = [], hm_max = n\<rparr>"

section \<open>The map contract\<close>

text \<open>What a program relies on when it looks up, updates and stores through a pointer.\<close>

locale bpf_map =
  fixes lookup :: "'m \<Rightarrow> 'k \<Rightarrow> 'v option"
    and update :: "'m \<Rightarrow> 'k \<Rightarrow> 'v \<Rightarrow> int \<times> 'm"
    and store :: "'m \<Rightarrow> 'k \<Rightarrow> 'v \<Rightarrow> 'm"
    and accepts :: "'k \<Rightarrow> 'm \<Rightarrow> bool"
  assumes lookup_update: "accepts k m \<Longrightarrow> lookup (snd (update m k v)) j = (if j = k then Some v else lookup m j)"
    and update_rc: "fst (update m k v) = (if accepts k m then 0 else - E2BIG)"
    and update_full: "\<not> accepts k m \<Longrightarrow> snd (update m k v) = m"
    and present: "lookup m k \<noteq> None \<Longrightarrow> accepts k m"
    and lookup_store: "lookup m k \<noteq> None \<Longrightarrow> lookup (store m k v) j = (if j = k then Some v else lookup m j)"
begin

lemma update_same: "accepts k m \<Longrightarrow> lookup (snd (update m k v)) k = Some v"
  by (simp add: lookup_update)

lemma update_monotone: "lookup m j \<noteq> None \<Longrightarrow> lookup (snd (update m k v)) j \<noteq> None"
  using lookup_update [of k m v j] update_full [of k m v] by (cases "accepts k m") auto

text \<open>
  The idiom of the handlers: increment through the pointer, then write the element back
  with an update from the same pointer. The update changes nothing any more.
\<close>

lemma store_then_update:
  assumes "lookup m k = Some w"
  shows "lookup (snd (update (store m k v) k v)) = (lookup m)(k \<mapsto> v)
       \<and> fst (update (store m k v) k v) = 0"
proof -
  have s: "lookup (store m k v) j = (if j = k then Some v else lookup m j)" for j
    using lookup_store [of m k v j] assms by simp
  then have "accepts k (store m k v)" by (intro present) simp
  then show ?thesis by (auto simp: update_rc lookup_update s fun_eq_iff)
qed

end

interpretation array_map: bpf_map am_lookup am_update am_store "\<lambda>k m. unat k < length m"
  by unfold_locales
    (auto simp: am_lookup_def am_update_def am_store_def nth_list_update word_unat_eq_iff
      split: if_splits)

lemma map_of_update: "map_of (AList.update k v al) j = (if j = k then Some v else map_of al j)"
  by (simp add: update_conv')

lemma hm_keys_mem: "k \<in> set (hm_keys m) \<longleftrightarrow> hm_lookup m k \<noteq> None"
  by (auto simp: hm_keys_def hm_lookup_def map_of_eq_None_iff)

interpretation hash_map: bpf_map hm_lookup hm_update hm_store hm_room
  by unfold_locales
    (auto simp: hm_update_def hm_store_def hm_room_def hm_keys_mem,
      auto simp: hm_lookup_def map_of_update)

lemma length_update:
  "length (AList.update k v al) = (if k \<in> set (map fst al) then length al else Suc (length al))"
  by (induction al) auto

lemma keys_update:
  "set (map fst (AList.update k v al)) = insert k (set (map fst al))"
  using dom_update [of k v al] by auto

lemma hm_update_wf: "hm_wf m \<Longrightarrow> hm_wf (snd (hm_update m k v))"
  by (auto simp: hm_wf_def hm_update_def hm_room_def hm_keys_def length_update
      intro: distinct_update simp del: set_map split: if_splits)

lemma hm_store_wf: "hm_wf m \<Longrightarrow> hm_wf (hm_store m k v)"
  by (auto simp: hm_wf_def hm_store_def hm_keys_def length_update intro: distinct_update simp del: set_map)

lemma hm_delete_wf: "hm_wf m \<Longrightarrow> hm_wf (hm_delete m k)"
  using length_delete_le [of k "hm_entries m"]
  by (auto simp: hm_wf_def hm_delete_def hm_keys_def intro: distinct_delete simp del: set_map)

lemma hm_update_keys:
  "hm_room k m \<Longrightarrow> set (hm_keys (snd (hm_update m k v))) = insert k (set (hm_keys m))"
  by (simp add: hm_update_def hm_keys_def keys_update dom_update [simplified])

lemma hm_update_max [simp]: "hm_max (snd (hm_update m k v)) = hm_max m"
  by (simp add: hm_update_def)

lemma hm_store_max [simp]: "hm_max (hm_store m k v) = hm_max m"
  by (simp add: hm_store_def)

lemma hm_delete_max [simp]: "hm_max (hm_delete m k) = hm_max m"
  by (simp add: hm_delete_def)

text \<open>A map of a declared capacity, within it and with one element per key.\<close>

definition typed_map :: "nat \<Rightarrow> ('k, 'v) hmap \<Rightarrow> bool" where
  "typed_map n m \<longleftrightarrow> hm_wf m \<and> hm_max m = n"

lemma typed_map_ops [simp, intro]:
  "typed_map n (hm_empty n)" "typed_map n m \<Longrightarrow> typed_map n (snd (hm_update m k v))"
  "typed_map n m \<Longrightarrow> typed_map n (hm_store m k v)" "typed_map n m \<Longrightarrow> typed_map n (hm_delete m k)"
  by (simp_all add: typed_map_def hm_update_wf hm_store_wf hm_delete_wf)
    (simp_all add: hm_wf_def hm_empty_def hm_keys_def)

end
