(* ===== verification/Uring_Account.thy ===== *)
theory Uring_Account
  imports Bpf_Runtime
begin

text \<open>
  The abstract ring behind the extended helpers: how many accepted requests wait for a
  submit, and how many submitted ones have a completion to collect. A wait with nothing in
  flight would block for ever, so it is \<open>None\<close>. The account of a log is the specification
  against which the handlers of every BPF program are measured.
\<close>

fun is_request :: "bpf_ev \<Rightarrow> bool" where
  "is_request (SubmitWrite _ _ _) = True"
| "is_request (SubmitRead _ _ _ _) = True"
| "is_request (SubmitSend _ _ _ _) = True"
| "is_request (SubmitRecv _ _ _ _) = True"
| "is_request (SubmitFsync _) = True"
| "is_request (SubmitPread _ _ _ _) = True"
| "is_request _ = False"

text \<open>The helpers return 0 on success; the programs read the answer as an \<open>int\<close>.\<close>

definition accepted :: "u64 \<Rightarrow> bool" where
  "accepted r \<longleftrightarrow> to_int r = 0"

type_synonym account = "nat \<times> nat"

fun acct_step :: "bool \<Rightarrow> bpf_ev \<Rightarrow> account \<Rightarrow> account option" where
  "acct_step ok e (queued, inflight) =
     (if is_request e then Some (if ok then queued + 1 else queued, inflight)
      else if e = USubmit then Some (0, queued + inflight)
      else if e = WaitAndSeen then (if inflight = 0 then None else Some (queued, inflight - 1))
      else Some (queued, inflight))"

fun acct_from :: "bpf_env \<Rightarrow> bpf_ev list \<Rightarrow> bpf_ev list \<Rightarrow> account \<Rightarrow> account option" where
  "acct_from env h [] a = Some a"
| "acct_from env h (e # es) a = do {
     a \<leftarrow> acct_step (accepted (env h e)) e a;
     acct_from env (h @ [e]) es a }"

definition acct :: "bpf_env \<Rightarrow> bpf_ev list \<Rightarrow> account option" where
  "acct env lg = acct_from env [] lg (0, 0)"

lemma acct_from_append:
  "acct_from env h (xs @ ys) a
     = do { a \<leftarrow> acct_from env h xs a; acct_from env (h @ xs) ys a }"
proof (induction xs arbitrary: h a)
  case (Cons x xs)
  then show ?case by (cases "acct_step (accepted (env h x)) x a") auto
qed simp

lemma acct_Nil [simp]: "acct env [] = Some (0, 0)"
  by (simp add: acct_def)

lemma acct_snoc:
  "acct env (lg @ [e]) = do { a \<leftarrow> acct env lg; acct_step (accepted (env lg e)) e a }"
  by (cases "acct_from env [] lg (0, 0)") (auto simp: acct_def acct_from_append)

text \<open>Neutral calls do not change the account.\<close>

definition neutral :: "bpf_ev \<Rightarrow> bool" where
  "neutral e \<longleftrightarrow> \<not> is_request e \<and> e \<noteq> USubmit \<and> e \<noteq> WaitAndSeen"

lemma acct_neutral: "neutral e \<Longrightarrow> acct env (lg @ [e]) = acct env lg"
  by (cases "acct env lg") (auto simp: acct_snoc neutral_def)

lemma acct_request:
  "is_request e \<Longrightarrow> acct env lg = Some (q, f) \<Longrightarrow>
     acct env (lg @ [e]) = Some (if accepted (env lg e) then q + 1 else q, f)"
  by (simp add: acct_snoc)

lemma acct_submit: "acct env lg = Some (q, f) \<Longrightarrow> acct env (lg @ [USubmit]) = Some (0, q + f)"
  by (simp add: acct_snoc)

lemma acct_waits:
  assumes "acct env lg = Some (q, f)"
  shows "acct env (lg @ replicate n WaitAndSeen) = (if n \<le> f then Some (q, f - n) else None)"
proof (induction n)
  case (Suc n)
  have "replicate (Suc n) WaitAndSeen = replicate n WaitAndSeen @ [WaitAndSeen]"
    by (simp add: replicate_append_same)
  then have "acct env (lg @ replicate (Suc n) WaitAndSeen)
      = do { a \<leftarrow> acct env (lg @ replicate n WaitAndSeen); acct_step (accepted (env (lg @ replicate n WaitAndSeen) WaitAndSeen)) WaitAndSeen a }"
    using acct_snoc [of env "lg @ replicate n WaitAndSeen" WaitAndSeen] by simp
  then show ?case using Suc.IH by auto
qed (use assms in simp)

lemma acct_flush:
  "acct env lg = Some (q, f) \<Longrightarrow> n \<le> q + f \<Longrightarrow>
     acct env (lg @ USubmit # replicate n WaitAndSeen) = Some (0, q + f - n)"
  using acct_waits [OF acct_submit, of env lg q f n] by simp

lemma acct_None: "acct env lg = None \<Longrightarrow> acct env (lg @ es) = None"
  by (simp add: acct_def acct_from_append)

lemma acct_prefix: "acct env (lg @ es) = Some a \<Longrightarrow> \<exists>b. acct env lg = Some b"
  using acct_None [of env lg es] by (cases "acct env lg") auto

text \<open>The counted wait loops \<open>for (int i = 0; i < n; i++) io_uring_wait_and_seen();\<close>\<close>

function for_waits :: "int \<Rightarrow> int \<Rightarrow> 'a bpf_scheme \<Rightarrow> 'a bpf_scheme" where
  "for_waits i n s = (if i < n then for_waits (i + 1) n (emit WaitAndSeen s) else s)"
  by pat_completeness auto
termination
  by (relation "measure (\<lambda>(i, n, s). nat (n - i))") auto

declare for_waits.simps [simp del]

lemma for_waits_eq:
  "for_waits i n s = s\<lparr>blog := blog s @ replicate (nat (n - i)) WaitAndSeen\<rparr>"
proof (induction i n s rule: for_waits.induct)
  case (1 i n s)
  show ?case
  proof (cases "i < n")
    case True
    then have "nat (n - i) = Suc (nat (n - (i + 1)))" by simp
    with True "1.IH" show ?thesis by (subst for_waits.simps) (simp add: emit_def)
  next
    case False
    then show ?thesis by (subst for_waits.simps) simp
  qed
qed

text \<open>A runtime that accepts every request.\<close>

definition accepts_all :: "bpf_env \<Rightarrow> bool" where
  "accepts_all env \<longleftrightarrow> (\<forall>lg e. is_request e \<longrightarrow> accepted (env lg e))"

lemma acct_taken:
  "accepts_all env \<Longrightarrow> is_request e \<Longrightarrow> acct env lg = Some (q, f) \<Longrightarrow>
     acct env (lg @ [e]) = Some (q + 1, f)"
  by (simp add: acct_request accepts_all_def)

section \<open>Totals of a log\<close>

definition waits :: "bpf_ev list \<Rightarrow> nat" where
  "waits lg = cnt (\<lambda>e. e = WaitAndSeen) lg"

fun taken_from :: "bpf_env \<Rightarrow> bpf_ev list \<Rightarrow> bpf_ev list \<Rightarrow> nat" where
  "taken_from env h [] = 0"
| "taken_from env h (e # es) =
     (if is_request e \<and> accepted (env h e) then 1 else 0) + taken_from env (h @ [e]) es"

text \<open>The number of requests of a log that the ring accepted.\<close>

definition taken :: "bpf_env \<Rightarrow> bpf_ev list \<Rightarrow> nat" where
  "taken env lg = taken_from env [] lg"

text \<open>
  Conservation: what was accepted is waiting for a submit, in flight, or collected.
\<close>

lemma acct_conserve_from:
  "acct_from env h es (q, f) = Some (q', f') \<Longrightarrow>
     q' + f' + waits es = q + f + taken_from env h es"
proof (induction es arbitrary: h q f)
  case (Cons e es)
  then show ?case
    by (auto simp: waits_def bind_eq_Some_conv split: if_splits) (fastforce+)?
qed (simp add: waits_def)

lemma acct_conserve: "acct env lg = Some (q, f) \<Longrightarrow> q + f + waits lg = taken env lg"
  using acct_conserve_from [of env "[]" lg 0 0 q f] by (simp add: acct_def taken_def)

section \<open>The contract of a batching program\<close>

text \<open>
  A program that issues requests and now and then collects them all: every event keeps its
  state well-formed, and in a well-formed state the ring, queued and submitted requests
  together, holds exactly the \<open>pending\<close> ones the program counts, at most \<open>limit\<close>.
\<close>

locale batching =
  fixes step :: "'e \<Rightarrow> 's \<Rightarrow> 's option"
    and wf :: "'s \<Rightarrow> bool"
    and lg :: "'s \<Rightarrow> bpf_ev list"
    and pending :: "'s \<Rightarrow> nat"
    and limit :: nat
    and env :: bpf_env
  assumes step_wf: "wf s \<Longrightarrow> \<exists>s'. step e s = Some s' \<and> wf s'"
    and wf_acct: "wf s \<Longrightarrow> \<exists>q f. acct env (lg s) = Some (q, f) \<and> q + f = pending s"
    and wf_limit: "wf s \<Longrightarrow> pending s \<le> limit"
begin

lemma no_leak: "wf s \<Longrightarrow> taken env (lg s) = waits (lg s) + pending s"
  using wf_acct [of s] acct_conserve [of env "lg s"] by fastforce

end

fun run_events :: "('e \<Rightarrow> 's \<Rightarrow> 's option) \<Rightarrow> 'e list \<Rightarrow> 's \<Rightarrow> 's option" where
  "run_events step [] s = Some s"
| "run_events step (e # es) s = do { s \<leftarrow> step e s; run_events step es s }"

lemma run_events_append:
  "run_events step (xs @ ys) s = do { s \<leftarrow> run_events step xs s; run_events step ys s }"
proof (induction xs arbitrary: s)
  case (Cons x xs)
  then show ?case by (cases "step x s") auto
qed simp

context batching begin

lemma run_wf: "wf s \<Longrightarrow> \<exists>s'. run_events step es s = Some s' \<and> wf s'"
proof (induction es arbitrary: s)
  case (Cons e es)
  then show ?case using step_wf [OF Cons.prems, of e] by fastforce
qed simp

lemma run_account:
  "wf s \<Longrightarrow> \<exists>s'. run_events step es s = Some s' \<and> wf s' \<and> acct env (lg s') \<noteq> None
       \<and> taken env (lg s') = waits (lg s') + pending s' \<and> pending s' \<le> limit"
  using run_wf [of s es] wf_acct wf_limit no_leak by fastforce

end

end
