(* ===== verification/Pending_Ops.thy ===== *)
theory Pending_Ops
  imports Uring_Account
begin

text \<open>
  The batching core of \<open>IO_syscall_patch/backup.bpf.c\<close> (the same text is in
  \<open>clickhouse-uring.bpf.c\<close> and \<open>tp.bpf.c\<close>): a counter of pending operations and a sequence
  number in one-element array maps, a hash map with the description of each pending
  operation, and the functions that queue an operation and submit a full batch.
  \<open>None\<close> is a NULL dereference.
\<close>

definition BATCH_SIZE :: u32 where
  "BATCH_SIZE = 1024"

record uring_check_data =
  cd_pid :: i32
  cd_fd :: i32
  cd_i_ino :: u64
  cd_seq_num :: u32
  cd_depends_on :: u32
  cd_res :: u32

record pend = bpf +
  global_on :: i32
  op_count :: "u32 list"
  global_seq_num :: "u32 list"
  inode_map :: "(u32, uring_check_data) hmap"

text \<open>The maps as declared, and \<open>global\<close>, when the program is loaded.\<close>

definition pend_loaded :: pend where
  "pend_loaded = \<lparr>blog = [], global_on = 0, op_count = replicate 1 0,
     global_seq_num = replicate 1 0, inode_map = hm_empty 10000\<rparr>"

lemma op_count_emit [simp]: "op_count (emit e s) = op_count s"
  by (simp add: emit_def)

text \<open>\<open>for (int i = 0; i < *count; i++) io_uring_wait_and_seen();\<close>\<close>

function reap_loop :: "u32 \<Rightarrow> 'a pend_scheme \<Rightarrow> 'a pend_scheme option" where
  "reap_loop i s = (case am_lookup (op_count s) 0 of None \<Rightarrow> None
     | Some c \<Rightarrow> if i < c then reap_loop (i + 1) (emit WaitAndSeen s) else Some s)"
  by pat_completeness auto

termination
  by (relation "measure (\<lambda>(i, s). unat (the (am_lookup (op_count s) 0)) - unat i)")
    (auto simp: unat_suc_less word_less_nat_alt)

declare reap_loop.simps [simp del]

definition handle_unbatched_ops :: "'a pend_scheme \<Rightarrow> (int \<times> 'a pend_scheme) option" where
  "handle_unbatched_ops s = do {
     let s = emit USubmit s;
     s \<leftarrow> reap_loop 0 s;
     let s = s\<lparr>op_count := snd (am_update (op_count s) 0 0)\<rparr>;
     Some (0, s) }"

definition submit_if_batch_full :: "'a pend_scheme \<Rightarrow> (int \<times> 'a pend_scheme) option" where
  "submit_if_batch_full s = (case am_lookup (op_count s) 0 of
     None \<Rightarrow> Some (0, s)
   | Some c \<Rightarrow>
       if c < BATCH_SIZE then Some (0, s)
       else do { s \<leftarrow> reap_loop 0 (emit USubmit s); Some (1, s) })"

text \<open>The result is the pointer the function returns: the stale operation, or NULL.\<close>

definition add_pending_op ::
    "uring_check_data \<Rightarrow> 'a pend_scheme \<Rightarrow> (uring_check_data option \<times> 'a pend_scheme) option" where
  "add_pending_op op s = do {
     seq \<leftarrow> am_lookup (global_seq_num s) 0;
     let op = op\<lparr>cd_seq_num := seq\<rparr>;
     let s = s\<lparr>global_seq_num := am_store (global_seq_num s) 0 (seq + 1)\<rparr>;
     let s = s\<lparr>global_seq_num := snd (am_update (global_seq_num s) 0 (seq + 1))\<rparr>;
     count \<leftarrow> am_lookup (op_count s) 0;
     let s = s\<lparr>op_count := am_store (op_count s) 0 (count + 1)\<rparr>;
     let s = s\<lparr>op_count := snd (am_update (op_count s) 0 (count + 1))\<rparr>;
     let s = s\<lparr>inode_map := snd (hm_update (inode_map s) (count + 1) op)\<rparr>;
     (res, s) \<leftarrow> submit_if_batch_full s;
     count \<leftarrow> am_lookup (op_count s) 0;
     (case hm_lookup (inode_map s) count of
        None \<Rightarrow> Some (None, emit (Printk ''op_stale is NULL'') s)
      | Some op_stale \<Rightarrow>
          let s = (if res \<noteq> 0 then s\<lparr>op_count := snd (am_update (op_count s) 0 0)\<rparr> else s)
          in Some (Some op_stale, s)) }"

section \<open>What the loop does\<close>

lemma emit_many:
  "emit e (s\<lparr>blog := blog s @ xs\<rparr>) = s\<lparr>blog := blog s @ xs @ [e]\<rparr>"
  by (simp add: emit_def)

lemma reap_loop_eq:
  assumes "am_lookup (op_count s) 0 = Some c" and "i \<le> c"
  shows "reap_loop i s = Some (s\<lparr>blog := blog s @ replicate (unat c - unat i) WaitAndSeen\<rparr>)"
  using assms
proof (induction i s rule: reap_loop.induct)
  case (1 i s)
  show ?case
  proof (cases "i < c")
    case True
    then have u: "unat (i + 1) = unat i + 1" by (rule unat_suc_less)
    then have le: "i + 1 \<le> c" using True by (simp add: word_le_nat_alt word_less_nat_alt)
    have n: "unat c - unat i = Suc (unat c - unat (i + 1))"
      using True u by (simp add: word_less_nat_alt)
    have "reap_loop i s = reap_loop (i + 1) (emit WaitAndSeen s)"
      using True "1.prems"(1) by (subst reap_loop.simps) simp
    also have "\<dots> = Some ((emit WaitAndSeen s)\<lparr>blog := blog (emit WaitAndSeen s)
        @ replicate (unat c - unat (i + 1)) WaitAndSeen\<rparr>)"
      using "1.IH" [OF "1.prems"(1) True] "1.prems"(1) le by simp
    finally show ?thesis by (simp add: emit_def n)
  next
    case False
    then have "i = c" using "1.prems"(2) by simp
    then show ?thesis using "1.prems"(1) by (subst reap_loop.simps) simp
  qed
qed

section \<open>Well-formed states\<close>

text \<open>
  Between two handlers: both array maps have their element, the description map has keys
  1 to \<open>BATCH_SIZE\<close> only (so it never fills up), fewer than a batch is pending, and the
  ring holds exactly the pending requests, none in flight.
\<close>

definition maps_ok :: "'a pend_scheme \<Rightarrow> bool" where
  "maps_ok s \<longleftrightarrow> length (op_count s) = 1 \<and> length (global_seq_num s) = 1
     \<and> hm_wf (inode_map s) \<and> hm_max (inode_map s) = 10000
     \<and> set (hm_keys (inode_map s)) \<subseteq> {1..BATCH_SIZE}"

definition count_of :: "'a pend_scheme \<Rightarrow> nat" where
  "count_of s = unat (op_count s ! 0)"

text \<open>
  \<open>pend_safe\<close> is weaker: the ring may hold more requests than are counted (a second start
  mark clears the counter without submitting). It is what keeps every wait from blocking.
\<close>

definition pend_safe :: "bpf_env \<Rightarrow> 'a pend_scheme \<Rightarrow> bool" where
  "pend_safe env s \<longleftrightarrow> maps_ok s \<and> count_of s < 1024
     \<and> (\<exists>q f. acct env (blog s) = Some (q, f) \<and> count_of s \<le> q)"

definition pend_wf :: "bpf_env \<Rightarrow> 'a pend_scheme \<Rightarrow> bool" where
  "pend_wf env s \<longleftrightarrow> maps_ok s \<and> count_of s < 1024 \<and> acct env (blog s) = Some (count_of s, 0)"

lemma am_lookup_0 [simp]: "length m = 1 \<Longrightarrow> am_lookup m 0 = Some (m ! 0)"
  by (simp add: am_lookup_def)

lemma am_update_0 [simp]: "length m = 1 \<Longrightarrow> snd (am_update m 0 v) = [v]"
  by (cases m) (auto simp: am_update_def)

lemma am_store_0 [simp]: "length m = 1 \<Longrightarrow> am_store m 0 v = [v]"
  by (cases m) (auto simp: am_store_def)

lemma card_keys:
  assumes "hm_wf m" and "set (hm_keys m) \<subseteq> {1..BATCH_SIZE}"
  shows "length (hm_entries m) \<le> 1024"
proof -
  have "length (hm_entries m) = card (set (hm_keys m))"
    using assms(1) distinct_card [of "hm_keys m"] by (simp add: hm_wf_def hm_keys_def)
  also have "\<dots> \<le> card {1..BATCH_SIZE}"
    using assms(2) by (intro card_mono) auto
  also have "{1..BATCH_SIZE} \<subseteq> of_nat ` {1..1024::nat}"
  proof
    fix x :: u32 assume "x \<in> {1..BATCH_SIZE}"
    then have "unat x \<in> {1..1024}"
      by (auto simp: BATCH_SIZE_def word_le_nat_alt)
    then show "x \<in> of_nat ` {1..1024::nat}" by (intro image_eqI [of _ _ "unat x"]) auto
  qed
  then have "card {1..BATCH_SIZE} \<le> card (of_nat ` {1..1024::nat} :: u32 set)"
    by (intro card_mono) auto
  also have "\<dots> \<le> 1024" by (rule order_trans [OF card_image_le]) auto
  finally show ?thesis .
qed

lemma maps_ok_room: "maps_ok s \<Longrightarrow> hm_room k (inode_map s)"
  using card_keys [of "inode_map s"] by (auto simp: maps_ok_def hm_room_def)

section \<open>Queueing one operation\<close>

definition flushed :: "u32 \<Rightarrow> bpf_ev list" where
  "flushed c = USubmit # replicate (unat c) WaitAndSeen"

lemma reap_all:
  assumes "am_lookup (op_count s) 0 = Some c"
  shows "reap_loop 0 (emit USubmit s) = Some (s\<lparr>blog := blog s @ flushed c\<rparr>)"
  using reap_loop_eq [of "emit USubmit s" c 0] assms by (simp add: emit_def flushed_def)

lemma count_suc:
  "count_of s < 1024 \<Longrightarrow> unat (op_count s ! 0 + 1) = count_of s + 1"
  unfolding count_of_def by (intro unat_plus_one) simp

lemma add_pending_op_eq:
  fixes op :: uring_check_data
  assumes m: "maps_ok s" and c: "count_of s < 1024"
  defines "n \<equiv> op_count s ! 0 + 1" and "op' \<equiv> op\<lparr>cd_seq_num := global_seq_num s ! 0\<rparr>"
  shows "add_pending_op op s = Some (Some op', s\<lparr>
           global_seq_num := [global_seq_num s ! 0 + 1],
           op_count := [if n < BATCH_SIZE then n else 0],
           inode_map := snd (hm_update (inode_map s) n op'),
           blog := blog s @ (if n < BATCH_SIZE then [] else flushed n)\<rparr>)"
proof -
  have l: "length (op_count s) = 1" "length (global_seq_num s) = 1" using m by (auto simp: maps_ok_def)
  have look: "hm_lookup (snd (hm_update (inode_map s) n op')) n = Some op'"
    using hash_map.update_same [OF maps_ok_room [OF m]] .
  have one: "am_lookup [v] 0 = Some v" "am_store [v] 0 w = [w]" "snd (am_update [v] 0 w) = [w]"
    for v w :: u32
    by simp_all
  show ?thesis
  proof (cases "n < BATCH_SIZE")
    case True
    then show ?thesis
      using l look by (simp add: add_pending_op_def submit_if_batch_full_def one
          n_def [symmetric] op'_def [symmetric] Let_def)
  next
    case False
    then show ?thesis
      using l look by (simp add: add_pending_op_def submit_if_batch_full_def one reap_all
          n_def [symmetric] op'_def [symmetric] Let_def)
  qed
qed

text \<open>
  The effect on the account, for a ring that holds \<open>q\<close> queued and \<open>f\<close> submitted requests,
  the one being recorded included.
\<close>

lemma add_pending_op_acct:
  assumes m: "maps_ok s" and c: "count_of s < 1024"
    and a: "acct env (blog s) = Some (q, f)" and q: "count_of s + 1 \<le> q"
  shows "\<exists>r s'. add_pending_op op s = Some (Some r, s') \<and> maps_ok s' \<and> global_on s' = global_on s
           \<and> r = op\<lparr>cd_seq_num := global_seq_num s ! 0\<rparr>
           \<and> global_seq_num s' ! 0 = global_seq_num s ! 0 + 1
           \<and> (if count_of s + 1 < 1024
              then count_of s' = count_of s + 1 \<and> acct env (blog s') = Some (q, f)
              else count_of s' = 0 \<and> acct env (blog s') = Some (0, q + f - 1024))"
proof -
  let ?n = "op_count s ! 0 + 1"
  let ?op = "op\<lparr>cd_seq_num := global_seq_num s ! 0\<rparr>"
  have n: "unat ?n = count_of s + 1" using count_suc [OF c] .
  then have in_range: "?n \<in> {1..BATCH_SIZE}"
    using c by (auto simp: BATCH_SIZE_def word_le_nat_alt)
  have maps: "hm_wf (snd (hm_update (inode_map s) ?n ?op))"
      "set (hm_keys (snd (hm_update (inode_map s) ?n ?op))) \<subseteq> {1..BATCH_SIZE}"
    using m in_range hm_update_keys [OF maps_ok_room [OF m], of ?n ?op]
    by (auto simp: maps_ok_def hm_update_wf)
  have bs: "?n < BATCH_SIZE \<longleftrightarrow> count_of s + 1 < 1024"
    using n by (simp add: word_less_nat_alt BATCH_SIZE_def)
  show ?thesis
  proof (cases "?n < BATCH_SIZE")
    case True
    then show ?thesis
      using add_pending_op_eq [OF m c, of op] maps m a n bs
      by (auto simp: maps_ok_def count_of_def)
  next
    case False
    then have "unat ?n = 1024" using n bs c by simp
    moreover have "acct env (blog s @ flushed ?n) = Some (0, q + f - unat ?n)"
    proof -
      have "unat ?n \<le> q + f" using n q by simp
      then show ?thesis unfolding flushed_def by (rule acct_flush [OF a])
    qed
    ultimately show ?thesis
      using False add_pending_op_eq [OF m c, of op] maps m bs
      by (auto simp: maps_ok_def count_of_def)
  qed
qed

lemma handle_unbatched_eq:
  assumes m: "maps_ok s"
  shows "handle_unbatched_ops s
    = Some (0, s\<lparr>blog := blog s @ flushed (op_count s ! 0), op_count := [0]\<rparr>)"
  using m by (simp add: handle_unbatched_ops_def maps_ok_def reap_all Let_def)

lemma pend_wf_emit:
  "pend_wf env s \<Longrightarrow> neutral e \<Longrightarrow> pend_wf env (emit e s)"
  by (simp add: pend_wf_def maps_ok_def count_of_def emit_def acct_neutral)

lemma emit_frame [simp]:
  "inode_map (emit e s) = inode_map s" "global_on (emit e s) = global_on s"
  "global_seq_num (emit e s) = global_seq_num s"
  by (simp_all add: emit_def)

lemma maps_ok_emit [simp]: "maps_ok (emit e s) = maps_ok s"
  by (simp add: maps_ok_def)

lemma count_of_emit [simp]: "count_of (emit e s) = count_of s"
  by (simp add: count_of_def)

lemma handle_unbatched_acct:
  assumes m: "maps_ok s" and a: "acct env (blog s) = Some (q, f)" and "count_of s \<le> q"
  shows "\<exists>s'. handle_unbatched_ops s = Some (0, s') \<and> maps_ok s' \<and> count_of s' = 0
           \<and> global_on s' = global_on s \<and> acct env (blog s') = Some (0, q + f - count_of s)"
proof -
  have "acct env (blog s @ flushed (op_count s ! 0)) = Some (0, q + f - count_of s)"
    using acct_flush [OF a, of "count_of s"] assms(3) by (simp add: flushed_def count_of_def)
  then show ?thesis
    using handle_unbatched_eq [OF m] m by (simp add: maps_ok_def count_of_def)
qed

end
