(* ===== verification/Backup_Bpf.thy ===== *)
theory Backup_Bpf
  imports Pending_Ops
begin

text \<open>
  The handlers of \<open>IO_syscall_patch/backup.bpf.c\<close>: the uprobes that replace the C library's
  \<open>pread\<close>, \<open>send\<close> and \<open>recv\<close> by queued io_uring requests, the two that answer a constant,
  and the start and end marks. A handler returns its C result and the new state; \<open>None\<close> is a
  NULL dereference.
\<close>

definition fd_of :: "bpf_ctx \<Rightarrow> i32" where
  "fd_of c = to_int (parm1 c)"

definition skip_patch :: "'a pend_scheme \<Rightarrow> i32 \<Rightarrow> bool" where
  "skip_patch s fd \<longleftrightarrow> global_on s = 0 \<or> fd <s 3"

definition new_op :: "bpf_ctx \<Rightarrow> uring_check_data" where
  "new_op c = \<lparr>cd_pid = cur_pid c, cd_fd = fd_of c, cd_i_ino = parm2 c,
     cd_seq_num = 0, cd_depends_on = 0, cd_res = 0\<rparr>"

definition bpf_write_patch :: "bpf_ctx \<Rightarrow> pend \<Rightarrow> (int \<times> pend) option" where
  "bpf_write_patch c s =
     Some (0, emit (OverrideReturn 9999) (emit (Printk ''write called'') s))"

definition bpf_read_patch :: "bpf_ctx \<Rightarrow> pend \<Rightarrow> (int \<times> pend) option" where
  "bpf_read_patch c s =
     Some (0, emit (OverrideReturn 9999) (emit (Printk ''read called'') s))"

definition bpf_pread_patch :: "bpf_env \<Rightarrow> bpf_ctx \<Rightarrow> pend \<Rightarrow> (int \<times> pend) option" where
  "bpf_pread_patch env c s = (let fd = fd_of c in
     if skip_patch s fd then Some (0, s)
     else
       let s = emit (Printk ''pread called with fd: %d, content: %s'') s;
           (ret, s) = hcall env (SubmitPread fd (parm2 c) (parm3 c) (parm4 c)) s
       in if to_int ret \<noteq> 0 then Some (0, s)
          else do {
            (p, s) \<leftarrow> add_pending_op (new_op c) (emit SetLinkflag s);
            Some (1, emit (OverrideReturn 22) s) })"

definition bpf_send_patch :: "bpf_env \<Rightarrow> bpf_ctx \<Rightarrow> pend \<Rightarrow> (int \<times> pend) option" where
  "bpf_send_patch env c s = (let fd = fd_of c in
     if skip_patch s fd then Some (0, s)
     else
       let (ret, s) = hcall env (SubmitSend fd (parm2 c) (parm3 c) (to_int (parm4 c))) s
       in if to_int ret \<noteq> 0 then Some (0, s)
          else do {
            (p, s) \<leftarrow> add_pending_op (new_op c) (emit SetLinkflag s);
            Some (0, emit (OverrideReturn (parm3 c)) s) })"

definition bpf_recv_patch :: "bpf_env \<Rightarrow> bpf_ctx \<Rightarrow> pend \<Rightarrow> (int \<times> pend) option" where
  "bpf_recv_patch env c s = (let fd = fd_of c in
     if skip_patch s fd then Some (0, s)
     else
       let (ret, s) = hcall env (SubmitRecv fd (parm2 c) (parm3 c) (to_int (parm4 c))) s
       in if to_int ret \<noteq> 0 then Some (0, s)
          else do {
            (p, s) \<leftarrow> add_pending_op (new_op c) s;
            Some (0, emit (OverrideReturn (parm3 c)) s) })"

definition bpf_end_patch :: "pend \<Rightarrow> (int \<times> pend) option" where
  "bpf_end_patch s = do {
     (r, s) \<leftarrow> handle_unbatched_ops (emit (Printk ''unbatched ops submitted'') s);
     Some (0, s) }"

definition bpf_start_patch :: "pend \<Rightarrow> (int \<times> pend) option" where
  "bpf_start_patch s =
     (let s = emit UringInit (emit (Printk ''start called and init io_uring'') s);
          s = s\<lparr>global_on := 1\<rparr>;
          s = s\<lparr>op_count := snd (am_update (op_count s) 0 0)\<rparr>;
          s = s\<lparr>global_seq_num := snd (am_update (global_seq_num s) 0 0)\<rparr>
      in Some (0, s))"

section \<open>The program as an event-driven machine\<close>

datatype io_ev = EvEnd | EvWrite bpf_ctx | EvRead bpf_ctx
  | EvPread bpf_ctx | EvSend bpf_ctx | EvRecv bpf_ctx

datatype patch_ev = EvStart | EvIo io_ev

fun io_step :: "bpf_env \<Rightarrow> io_ev \<Rightarrow> pend \<Rightarrow> (int \<times> pend) option" where
  "io_step env EvEnd s = bpf_end_patch s"
| "io_step env (EvWrite c) s = bpf_write_patch c s"
| "io_step env (EvRead c) s = bpf_read_patch c s"
| "io_step env (EvPread c) s = bpf_pread_patch env c s"
| "io_step env (EvSend c) s = bpf_send_patch env c s"
| "io_step env (EvRecv c) s = bpf_recv_patch env c s"

definition io_next :: "bpf_env \<Rightarrow> io_ev \<Rightarrow> pend \<Rightarrow> pend option" where
  "io_next env e s = map_option snd (io_step env e s)"

fun patch_next :: "bpf_env \<Rightarrow> patch_ev \<Rightarrow> pend \<Rightarrow> pend option" where
  "patch_next env EvStart s = map_option snd (bpf_start_patch s)"
| "patch_next env (EvIo e) s = io_next env e s"

section \<open>The account of one event\<close>

lemma neutral_evs [simp]:
  "neutral (Printk m)" "neutral (OverrideReturn v)" "neutral SetLinkflag" "neutral UringInit"
  by (auto simp: neutral_def)

lemma acct_emit [simp]: "neutral e \<Longrightarrow> acct env (blog (emit e s)) = acct env (blog s)"
  by (simp add: acct_neutral)

text \<open>
  A state with counter \<open>c\<close> and ring \<open>(q, f)\<close>: \<open>holds\<close> collects what the handlers need, so
  that each of them is one application of the queueing lemma.
\<close>

definition holds :: "bpf_env \<Rightarrow> pend \<Rightarrow> nat \<Rightarrow> nat \<Rightarrow> nat \<Rightarrow> bool" where
  "holds env s c q f \<longleftrightarrow> maps_ok s \<and> count_of s = c \<and> c < 1024 \<and> c \<le> q
     \<and> acct env (blog s) = Some (q, f)"

lemma holds_emit [simp]: "neutral e \<Longrightarrow> holds env (emit e s) c q f = holds env s c q f"
  by (simp add: holds_def acct_neutral)

text \<open>Recording an accepted request keeps the difference between ring and counter.\<close>

definition moved :: "nat \<Rightarrow> nat \<Rightarrow> nat \<Rightarrow> nat \<Rightarrow> nat \<Rightarrow> nat \<Rightarrow> bool" where
  "moved c q f c' q' f' \<longleftrightarrow>
     (c' = c \<and> q' = q \<and> f' = f) \<or> (c' = c + 1 \<and> q' = q + 1 \<and> f' = f)
     \<or> (c' = 0 \<and> q' = 0 \<and> f' = q + f - c)"

lemma add_pending_op_holds:
  assumes "maps_ok s" "count_of s = c" "c < 1024" "c \<le> q" "acct env (blog s) = Some (q + 1, f)"
  shows "\<exists>r s' c' q' f'. add_pending_op op s = Some (Some r, s') \<and> holds env s' c' q' f' \<and> moved c q f c' q' f'"
proof -
  obtain r s' where r: "add_pending_op op s = Some (Some r, s')" "maps_ok s'"
      "if count_of s + 1 < 1024
              then count_of s' = count_of s + 1 \<and> acct env (blog s') = Some (q + 1, f)
              else count_of s' = 0 \<and> acct env (blog s') = Some (0, q + 1 + f - 1024)"
    using add_pending_op_acct [OF assms(1) _ assms(5), of op] assms(2-4) by auto
  show ?thesis
  proof (cases "c + 1 < 1024")
    case True
    then have "holds env s' (c + 1) (q + 1) f" "moved c q f (c + 1) (q + 1) f"
      using r assms(2,4) by (auto simp: holds_def moved_def)
    then show ?thesis using r by blast
  next
    case False
    then have "holds env s' 0 0 (q + f - c)" "moved c q f 0 0 (q + f - c)"
      using r assms(2-4) by (auto simp: holds_def moved_def)
    then show ?thesis using r by blast
  qed
qed

text \<open>The three queueing handlers are one scheme: request, test of the answer, record.\<close>

lemma queue_holds:
  assumes h: "holds env s c q f" and e: "is_request e" and pre: "neutral pe" "neutral pf"
    and acc: "to_int (env (blog s) e) = 0"
  shows "\<exists>r s' c' q' f'. add_pending_op op (emit pe (emit e s)) = Some (Some r, s')
           \<and> holds env (emit pf s') c' q' f' \<and> moved c q f c' q' f'"
    and "\<exists>r s' c' q' f'. add_pending_op op (emit e s) = Some (Some r, s')
           \<and> holds env (emit pf s') c' q' f' \<and> moved c q f c' q' f'"
proof -
  have a: "acct env (blog (emit e s)) = Some (q + 1, f)"
    using h acct_request [OF e, of env "blog s" q f] acc by (simp add: holds_def accepted_def)
  then have a2: "acct env (blog (emit pe (emit e s))) = Some (q + 1, f)"
    using pre(1) by (simp only: acct_emit)
  have m: "maps_ok s" "count_of s = c" "c < 1024" "c \<le> q" using h by (auto simp: holds_def)
  show "\<exists>r s' c' q' f'. add_pending_op op (emit pe (emit e s)) = Some (Some r, s')
           \<and> holds env (emit pf s') c' q' f' \<and> moved c q f c' q' f'"
    using add_pending_op_holds [of "emit pe (emit e s)" c q env f op] a2 m pre(2) by simp
  show "\<exists>r s' c' q' f'. add_pending_op op (emit e s) = Some (Some r, s')
           \<and> holds env (emit pf s') c' q' f' \<and> moved c q f c' q' f'"
    using add_pending_op_holds [of "emit e s" c q env f op] a m pre(2) by simp
qed

lemma refused_holds:
  assumes "holds env s c q f" and "is_request e" and "to_int (env (blog s) e) \<noteq> 0"
  shows "holds env (emit e s) c q f"
  using assms acct_request [of e env "blog s" q f] by (simp add: holds_def accepted_def)

lemma moved_refl [simp]: "moved c q f c q f"
  by (simp add: moved_def)

text \<open>
  What the three handlers do once a call is taken over: ask for request \<open>e\<close>, and when it is
  accepted, link it, record it and answer the caller.
\<close>

definition queue_call :: "bpf_env \<Rightarrow> bpf_ev \<Rightarrow> bool \<Rightarrow> uring_check_data \<Rightarrow> int \<Rightarrow> u64 \<Rightarrow> pend \<Rightarrow> (int \<times> pend) option" where
  "queue_call env e link op r v s =
     (let (ret, s) = hcall env e s in
      if to_int ret \<noteq> 0 then Some (0, s)
      else do {
        (p, s) \<leftarrow> add_pending_op op (if link then emit SetLinkflag s else s);
        Some (r, emit (OverrideReturn v) s) })"

lemma handlers_queue:
  "bpf_pread_patch env x s = (if skip_patch s (fd_of x) then Some (0, s) else
     queue_call env (SubmitPread (fd_of x) (parm2 x) (parm3 x) (parm4 x)) True (new_op x) 1 22
       (emit (Printk ''pread called with fd: %d, content: %s'') s))"
  "bpf_send_patch env x s = (if skip_patch s (fd_of x) then Some (0, s) else
     queue_call env (SubmitSend (fd_of x) (parm2 x) (parm3 x) (to_int (parm4 x))) True (new_op x) 0 (parm3 x) s)"
  "bpf_recv_patch env x s = (if skip_patch s (fd_of x) then Some (0, s) else
     queue_call env (SubmitRecv (fd_of x) (parm2 x) (parm3 x) (to_int (parm4 x))) False (new_op x) 0 (parm3 x) s)"
  by (simp_all add: bpf_pread_patch_def bpf_send_patch_def bpf_recv_patch_def queue_call_def Let_def hcall_def)

lemma queue_call_holds:
  assumes h: "holds env s c q f" and e: "is_request e"
  shows "\<exists>r' s' c' q' f'. queue_call env e link op r v s = Some (r', s') \<and> holds env s' c' q' f' \<and> moved c q f c' q' f'"
proof (cases "to_int (env (blog s) e) = 0")
  case False
  then show ?thesis using refused_holds [OF h e] moved_refl by (fastforce simp: queue_call_def hcall_def)
next
  case True
  show ?thesis
  proof (cases link)
    case True
    with queue_holds(1) [OF h e, of SetLinkflag "OverrideReturn v" op] \<open>to_int (env (blog s) e) = 0\<close>
    show ?thesis by (fastforce simp: queue_call_def hcall_def)
  next
    case False
    with queue_holds(2) [OF h e, of SetLinkflag "OverrideReturn v" op] \<open>to_int (env (blog s) e) = 0\<close>
    show ?thesis by (fastforce simp: queue_call_def hcall_def)
  qed
qed

lemma intercepted_holds:
  assumes h: "holds env s c q f"
  shows "\<exists>r s' c' q' f'. bpf_pread_patch env x s = Some (r, s') \<and> holds env s' c' q' f' \<and> moved c q f c' q' f'"
    and "\<exists>r s' c' q' f'. bpf_send_patch env x s = Some (r, s') \<and> holds env s' c' q' f' \<and> moved c q f c' q' f'"
    and "\<exists>r s' c' q' f'. bpf_recv_patch env x s = Some (r, s') \<and> holds env s' c' q' f' \<and> moved c q f c' q' f'"
proof -
  have skip: "\<exists>r s' c' q' f'. Some (0 :: int, s) = Some (r, s') \<and> holds env s' c' q' f' \<and> moved c q f c' q' f'"
    using h moved_refl by blast
  have p: "holds env (emit (Printk ''pread called with fd: %d, content: %s'') s) c q f" using h by simp
  show "\<exists>r s' c' q' f'. bpf_pread_patch env x s = Some (r, s') \<and> holds env s' c' q' f' \<and> moved c q f c' q' f'"
    unfolding handlers_queue using skip queue_call_holds [OF p] by simp
  show "\<exists>r s' c' q' f'. bpf_send_patch env x s = Some (r, s') \<and> holds env s' c' q' f' \<and> moved c q f c' q' f'"
    unfolding handlers_queue using skip queue_call_holds [OF h] by simp
  show "\<exists>r s' c' q' f'. bpf_recv_patch env x s = Some (r, s') \<and> holds env s' c' q' f' \<and> moved c q f c' q' f'"
    unfolding handlers_queue using skip queue_call_holds [OF h] by simp
qed

lemma end_holds:
  assumes h: "holds env s c q f"
  shows "\<exists>s'. bpf_end_patch s = Some (0, s') \<and> holds env s' 0 0 (q + f - c)"
proof -
  let ?s = "emit (Printk ''unbatched ops submitted'') s"
  have h': "holds env ?s c q f" using h by simp
  then show ?thesis
    using handle_unbatched_acct [of ?s env q f]
    by (auto simp: bpf_end_patch_def holds_def simp del: blog_emit)
qed

lemma io_holds:
  assumes h: "holds env s c q f"
  shows "\<exists>s' c' q' f'. io_next env e s = Some s' \<and> holds env s' c' q' f' \<and> moved c q f c' q' f'"
proof (cases e)
  case EvEnd
  moreover have "moved c q f 0 0 (q + f - c)" by (simp add: moved_def)
  ultimately show ?thesis using end_holds [OF h] by (auto simp: io_next_def)
next
  case (EvWrite x)
  then show ?thesis using h by (auto simp: io_next_def bpf_write_patch_def intro!: exI)
next
  case (EvRead x)
  then show ?thesis using h by (auto simp: io_next_def bpf_read_patch_def intro!: exI)
next
  case (EvPread x)
  then show ?thesis using intercepted_holds(1) [OF h, of x] by (auto simp: io_next_def)
next
  case (EvSend x)
  then show ?thesis using intercepted_holds(2) [OF h, of x] by (auto simp: io_next_def)
next
  case (EvRecv x)
  then show ?thesis using intercepted_holds(3) [OF h, of x] by (auto simp: io_next_def)
qed

lemma start_holds:
  assumes h: "holds env s c q f"
  shows "\<exists>s'. bpf_start_patch s = Some (0, s') \<and> holds env s' 0 q f \<and> global_on s' = 1
     \<and> global_seq_num s' ! 0 = 0"
proof -
  let ?s = "emit UringInit (emit (Printk ''start called and init io_uring'') s)"
  have h': "holds env ?s c q f" using h by simp
  then show ?thesis
    by (auto simp: bpf_start_patch_def Let_def holds_def maps_ok_def count_of_def simp del: blog_emit)
qed

lemma patch_safe:
  assumes "holds env s c q f"
  shows "\<exists>s' c' q' f'. patch_next env e s = Some s' \<and> holds env s' c' q' f'"
proof (cases e)
  case EvStart
  then show ?thesis using start_holds [OF assms] by auto
next
  case (EvIo i)
  then show ?thesis using io_holds [OF assms, of i] by auto
qed

lemma holds_loaded: "holds env pend_loaded 0 0 0"
  by (simp add: holds_def pend_loaded_def maps_ok_def count_of_def hm_wf_def hm_empty_def hm_keys_def)

lemma pend_wf_holds: "pend_wf env s \<longleftrightarrow> holds env s (count_of s) (count_of s) 0"
  by (auto simp: pend_wf_def holds_def)

interpretation backup: batching "io_next env" "pend_wf env" blog count_of 1023 env
  for env
proof (unfold_locales, goal_cases)
  case (1 s e)
  then obtain s' c' q' f' where "io_next env e s = Some s'" "holds env s' c' q' f'"
      "moved (count_of s) (count_of s) 0 c' q' f'"
    using io_holds [of env s "count_of s" "count_of s" 0 e] by (auto simp: pend_wf_holds)
  then show ?case by (auto simp: pend_wf_holds moved_def holds_def)
qed (auto simp: pend_wf_def)

section \<open>Runs\<close>

lemma patch_run_safe:
  "holds env s c q f \<Longrightarrow> \<exists>s' c' q' f'. run_events (patch_next env) es s = Some s' \<and> holds env s' c' q' f'"
proof (induction es arbitrary: s c q f)
  case (Cons e es)
  then show ?case using patch_safe [OF Cons.prems, of e] by fastforce
qed auto

lemma started_wf:
  "\<exists>s. patch_next env EvStart pend_loaded = Some s \<and> pend_wf env s \<and> global_on s = 1
     \<and> global_seq_num s ! 0 = 0"
  using start_holds [OF holds_loaded, of env] by (auto simp: pend_wf_holds holds_def)

text \<open>
  C2: from the loaded program, under every sequence of probe events (start and end marks, reads,
  writes, sends and receives of any process, in any order) and every answer of the runtime, no
  handler dereferences NULL, fewer than 1024 operations are counted as pending, and no
  \<open>io_uring_wait_and_seen\<close> is ever issued without a submitted, uncollected request: the wait
  loops cannot block for ever.
\<close>

theorem patched_process_never_blocks:
  "\<exists>s. run_events (patch_next env) es pend_loaded = Some s \<and> count_of s < 1024
     \<and> (\<exists>q f. acct env (blog s) = Some (q, f) \<and> count_of s \<le> q)"
  using patch_run_safe [OF holds_loaded, of env es] by (auto simp: holds_def)

text \<open>
  C1: after the start mark, every request the runtime accepts is counted until its completion is
  collected: over any sequence of I/O events the accepted requests are the collected ones plus the
  pending ones, at most 1023 of them, and after an end mark every accepted request has been
  collected.
\<close>

theorem no_request_lost:
  "\<exists>s0 s s'. patch_next env EvStart pend_loaded = Some s0 \<and> run_events (io_next env) es s0 = Some s
     \<and> taken env (blog s) = waits (blog s) + count_of s \<and> count_of s \<le> 1023
     \<and> acct env (blog s) = Some (count_of s, 0)
     \<and> io_next env EvEnd s = Some s' \<and> taken env (blog s') = waits (blog s') \<and> count_of s' = 0"
proof -
  obtain s0 where s0: "patch_next env EvStart pend_loaded = Some s0" "pend_wf env s0"
    using started_wf by blast
  obtain s where s: "run_events (io_next env) es s0 = Some s" "pend_wf env s"
    using backup.run_wf [OF s0(2)] by blast
  then have h: "holds env s (count_of s) (count_of s) 0" by (simp add: pend_wf_holds)
  obtain s' where s': "bpf_end_patch s = Some (0, s')" "holds env s' 0 0 0"
    using end_holds [OF h] by auto
  then have "pend_wf env s'" by (simp add: pend_wf_holds holds_def)
  from backup.no_leak [OF this] s'(2) have "taken env (blog s') = waits (blog s')" "count_of s' = 0"
    by (auto simp: holds_def)
  moreover have "io_next env EvEnd s = Some s'" using s'(1) by (simp add: io_next_def)
  ultimately show ?thesis
    using s0 s backup.no_leak [OF s(2)] backup.wf_limit [OF s(2)] s(2)
    unfolding pend_wf_def by blast
qed

section \<open>One intercepted call\<close>

text \<open>
  Before the start mark, and always for the standard streams (a descriptor below 3), the
  patched \<open>pread\<close>, \<open>send\<close> and \<open>recv\<close> leave the original call alone: they return 0, call no
  helper, override nothing and change no state.
\<close>

theorem unpatched_calls_pass_through:
  assumes "global_on s = 0 \<or> sint (fd_of c) < 3"
  shows "bpf_pread_patch env c s = Some (0, s) \<and> bpf_send_patch env c s = Some (0, s)
       \<and> bpf_recv_patch env c s = Some (0, s)"
proof -
  have "skip_patch s (fd_of c)"
    using assms by (auto simp: skip_patch_def word_sless_alt)
  then show ?thesis
    by (simp add: bpf_pread_patch_def bpf_send_patch_def bpf_recv_patch_def Let_def)
qed

theorem unpatched_calls_pass_through_witness:
  "bpf_pread_patch (\<lambda>_ _. 0) \<lparr>parm1 = 7, parm2 = 0, parm3 = 0, parm4 = 0, parm5 = 0,
     cur_pid_tgid = 0, ktime_ns = 0\<rparr> pend_loaded = Some (0, pend_loaded)"
  using unpatched_calls_pass_through [of pend_loaded "\<lparr>parm1 = 7, parm2 = 0, parm3 = 0, parm4 = 0,
     parm5 = 0, cur_pid_tgid = 0, ktime_ns = 0\<rparr>" "\<lambda>_ _. 0"]
  by (simp add: pend_loaded_def)

text \<open>
  An intercepted \<open>send\<close> that the runtime accepts, with room left in the batch, queues exactly
  that call, links it to the next one, tells the caller that all \<open>n\<close> bytes were sent, and
  records under the new count an entry with the caller's process, descriptor, buffer address and
  the next sequence number; both counters advance by one and nothing is submitted yet.
\<close>

theorem send_is_queued_and_recorded:
  assumes m: "maps_ok s" and on: "global_on s \<noteq> 0" and fd: "3 \<le> sint (fd_of c)"
    and room: "count_of s + 1 < 1024"
    and acc: "to_int (env (blog s) (SubmitSend (fd_of c) (parm2 c) (parm3 c) (to_int (parm4 c)))) = 0"
  shows "\<exists>s'. bpf_send_patch env c s = Some (0, s')
       \<and> blog s' = blog s @ [SubmitSend (fd_of c) (parm2 c) (parm3 c) (to_int (parm4 c)),
                             SetLinkflag, OverrideReturn (parm3 c)]
       \<and> hm_lookup (inode_map s') (op_count s ! 0 + 1)
           = Some \<lparr>cd_pid = cur_pid c, cd_fd = fd_of c, cd_i_ino = parm2 c,
                   cd_seq_num = global_seq_num s ! 0, cd_depends_on = 0, cd_res = 0\<rparr>
       \<and> count_of s' = count_of s + 1 \<and> global_seq_num s' = [global_seq_num s ! 0 + 1]"
proof -
  let ?e = "SubmitSend (fd_of c) (parm2 c) (parm3 c) (to_int (parm4 c))"
  let ?s = "emit SetLinkflag (emit ?e s)"
  let ?n = "op_count s ! 0 + 1"
  have n: "unat ?n = count_of s + 1" using count_suc [of s] room by simp
  then have lt: "?n < BATCH_SIZE" using room by (simp add: word_less_nat_alt BATCH_SIZE_def)
  have ms: "maps_ok ?s" "count_of ?s < 1024" using m room by simp_all
  have noskip: "\<not> skip_patch s (fd_of c)" using on fd by (simp add: skip_patch_def word_sless_alt)
  have "bpf_send_patch env c s
      = map_option (\<lambda>(p, s). (0, emit (OverrideReturn (parm3 c)) s)) (add_pending_op (new_op c) ?s)"
    using noskip acc
    by (cases "add_pending_op (new_op c) ?s") (auto simp: bpf_send_patch_def Let_def hcall_def)
  moreover have "hm_lookup (snd (hm_update (inode_map s) ?n
      ((new_op c)\<lparr>cd_seq_num := global_seq_num s ! 0\<rparr>))) ?n
      = Some ((new_op c)\<lparr>cd_seq_num := global_seq_num s ! 0\<rparr>)"
    by (rule hash_map.update_same [OF maps_ok_room [OF m]])
  ultimately show ?thesis
    using add_pending_op_eq [OF ms, of "new_op c"] lt n
    by (simp add: new_op_def count_of_def)
qed

definition sample_send :: bpf_ctx where
  "sample_send = \<lparr>parm1 = 5, parm2 = 4096, parm3 = 10, parm4 = 0, parm5 = 0,
     cur_pid_tgid = push_bit 32 42, ktime_ns = 0\<rparr>"

definition sample_state :: "u32 \<Rightarrow> pend" where
  "sample_state n = pend_loaded\<lparr>global_on := 1, op_count := [n]\<rparr>"

lemma sample_state_ok [simp]:
  "maps_ok (sample_state n)" "count_of (sample_state n) = unat n" "global_on (sample_state n) = 1"
  "3 \<le> sint (fd_of sample_send)"
  by (simp_all add: sample_state_def pend_loaded_def maps_ok_def count_of_def hm_wf_def hm_empty_def
      hm_keys_def sample_send_def fd_of_def to_int_def)

lemma sample_fields:
  "fd_of sample_send = 5" "parm2 sample_send = 4096" "parm3 sample_send = 10"
  "to_int (parm4 sample_send) = 0" "blog (sample_state n) = []" "to_int 0 = 0"
  by (simp_all add: fd_of_def to_int_def sample_send_def sample_state_def pend_loaded_def)

theorem send_is_queued_and_recorded_witness:
  "\<exists>s'. bpf_send_patch (\<lambda>_ _. 0) sample_send (sample_state 1) = Some (0, s')
     \<and> blog s' = [SubmitSend 5 4096 10 0, SetLinkflag, OverrideReturn 10] \<and> count_of s' = 2"
  using send_is_queued_and_recorded [of "sample_state 1" sample_send "\<lambda>_ _. 0"]
  by (auto simp: sample_fields)

text \<open>
  The operation that completes a batch submits it: when the 1024th pending \<open>recv\<close> is
  accepted, the handler submits the ring once, collects exactly 1024 completions and starts again
  from an empty batch, while the sequence number goes on.
\<close>

theorem full_batch_is_flushed:
  assumes m: "maps_ok s" and on: "global_on s \<noteq> 0" and fd: "3 \<le> sint (fd_of c)"
    and full: "count_of s = 1023"
    and acc: "to_int (env (blog s) (SubmitRecv (fd_of c) (parm2 c) (parm3 c) (to_int (parm4 c)))) = 0"
  shows "\<exists>s'. bpf_recv_patch env c s = Some (0, s')
       \<and> blog s' = blog s @ SubmitRecv (fd_of c) (parm2 c) (parm3 c) (to_int (parm4 c))
                     # USubmit # replicate 1024 WaitAndSeen @ [OverrideReturn (parm3 c)]
       \<and> count_of s' = 0 \<and> global_seq_num s' = [global_seq_num s ! 0 + 1]"
proof -
  let ?e = "SubmitRecv (fd_of c) (parm2 c) (parm3 c) (to_int (parm4 c))"
  let ?n = "op_count s ! 0 + 1"
  have n: "unat ?n = 1024" using count_suc [of s] full by simp
  then have lt: "\<not> ?n < BATCH_SIZE" by (simp add: word_less_nat_alt BATCH_SIZE_def)
  have fl: "flushed ?n = USubmit # replicate 1024 WaitAndSeen" unfolding flushed_def n ..
  have ms: "maps_ok (emit ?e s)" "count_of (emit ?e s) < 1024" using m full by simp_all
  have noskip: "\<not> skip_patch s (fd_of c)" using on fd by (simp add: skip_patch_def word_sless_alt)
  have "bpf_recv_patch env c s
      = map_option (\<lambda>(p, s). (0, emit (OverrideReturn (parm3 c)) s)) (add_pending_op (new_op c) (emit ?e s))"
    using noskip acc
    by (cases "add_pending_op (new_op c) (emit ?e s)") (auto simp: bpf_recv_patch_def Let_def hcall_def)
  then show ?thesis
    using add_pending_op_eq [OF ms, of "new_op c"] lt
    by (simp add: count_of_def fl del: replicate.simps)
qed

theorem full_batch_is_flushed_witness:
  "\<exists>s'. bpf_recv_patch (\<lambda>_ _. 0) sample_send (sample_state 1023) = Some (0, s')
     \<and> blog s' = SubmitRecv 5 4096 10 0 # USubmit # replicate 1024 WaitAndSeen @ [OverrideReturn 10]
     \<and> count_of s' = 0"
  using full_batch_is_flushed [of "sample_state 1023" sample_send "\<lambda>_ _. 0"]
  by (auto simp: sample_fields simp del: replicate.simps)

end
