(* ===== verification/Bytes.thy ===== *)
theory Bytes
  imports Prelude
begin

text \<open>
  Little-endian layout of integers in the buffers that cross from BPF programs to user space,
  and C character arrays as bytes.
\<close>

fun le_bytes :: "nat \<Rightarrow> 'a::len word \<Rightarrow> u8 list" where
  "le_bytes 0 w = []"
| "le_bytes (Suc n) w = ucast w # le_bytes n (drop_bit 8 w)"

fun from_le :: "u8 list \<Rightarrow> 'a::len word" where
  "from_le [] = 0"
| "from_le (b # bs) = or (ucast b) (push_bit 8 (from_le bs))"

lemma length_le_bytes [simp]: "length (le_bytes n w) = n"
  by (induction n arbitrary: w) auto

lemma from_le_bytes: "from_le (le_bytes n (w :: 'a::len word)) = take_bit (8 * n) w"
proof (induction n arbitrary: w)
  case (Suc n)
  show ?case
    by (rule bit_eqI) (auto simp: Suc.IH bit_simps)
qed simp

lemma from_le_32 [simp]: "from_le (le_bytes 4 w) = (w :: u32)"
  using from_le_bytes [of 4 w] by (simp add: take_bit_word_eq_self)

lemma from_le_64 [simp]: "from_le (le_bytes 8 w) = (w :: u64)"
  using from_le_bytes [of 8 w] by (simp add: take_bit_word_eq_self)

definition byte_at :: "u8 list \<Rightarrow> nat \<Rightarrow> nat \<Rightarrow> u8 list" where
  "byte_at bs off n = take n (drop off bs)"

text \<open>A cast of a buffer to a C type reads each field at its offset.\<close>

definition read32 :: "u8 list \<Rightarrow> nat \<Rightarrow> u32" where
  "read32 bs off = from_le (byte_at bs off 4)"

definition read64 :: "u8 list \<Rightarrow> nat \<Rightarrow> u64" where
  "read64 bs off = from_le (byte_at bs off 8)"

lemma byte_at_here: "length xs = off \<Longrightarrow> length ys = n \<Longrightarrow> byte_at (xs @ ys @ zs) off n = ys"
  by (simp add: byte_at_def)

definition chars :: "u8 list \<Rightarrow> string" where
  "chars bs = map (\<lambda>b. char_of (unat b)) bs"

definition bytes_of :: "string \<Rightarrow> u8 list" where
  "bytes_of s = map (\<lambda>c. of_nat (of_char c)) s"

lemma chars_bytes_of [simp]: "chars (bytes_of s) = s"
proof (induction s)
  case (Cons c s)
  have "(of_char c :: nat) < 256" by simp
  then have "char_of (unat (of_nat (of_char c) :: u8)) = c" by (simp add: unat_of_nat)
  with Cons show ?case by (simp add: chars_def bytes_of_def)
qed (simp add: chars_def bytes_of_def)

lemma length_bytes_of [simp]: "length (bytes_of s) = length s"
  by (simp add: bytes_of_def)

end
