(* ===== verification/Observers.thy ===== *)
theory Observers
  imports Pending_Ops Bytes C_String
begin

text \<open>
  The BPF programs that only observe: \<open>IO_syscall_patch/clickhouse-uring.bpf.c\<close> (its patched
  calls are commented out; what is left counts), \<open>tp.bpf.c\<close> (USDT counters and the fork
  tracer) with the consumer side of \<open>tp.c\<close>, and \<open>uprobe.bpf.c\<close>. Their state is the one of
  the batching core, whose text the first two share.
\<close>

section \<open>clickhouse-uring.bpf.c\<close>

definition bump_count :: "pend \<Rightarrow> pend" where
  "bump_count s = (case am_lookup (op_count s) 0 of
     None \<Rightarrow> s
   | Some c \<Rightarrow>
       let s = s\<lparr>op_count := am_store (op_count s) 0 (c + 1)\<rparr>
       in s\<lparr>op_count := snd (am_update (op_count s) 0 (c + 1))\<rparr>)"

definition ch_readImpl_patch :: "pend \<Rightarrow> int \<times> pend" where
  "ch_readImpl_patch s = (0, emit (Printk ''DB::DiskAccessStorage::readImpl'') s)"

definition ch_start_patch :: "pend \<Rightarrow> int \<times> pend" where
  "ch_start_patch s =
     (let s = emit (Printk ''DB::Server::main called'') s;
          s = bump_count s
      in (0, s\<lparr>global_on := 1\<rparr>))"

text \<open>The local operation record of the write probe is built and never used.\<close>

definition ch_write_patch :: "bpf_ctx \<Rightarrow> pend \<Rightarrow> int \<times> pend" where
  "ch_write_patch c s =
     (let s = bump_count s; fd = to_int (parm1 c) in
      if global_on s = 0 \<or> fd <s 3 then (0, s)
      else (0, emit (Printk ''write called with fd: %d, content: %s'') s))"

datatype ch_ev = ChReadImpl | ChStart | ChWrite bpf_ctx

fun ch_step :: "ch_ev \<Rightarrow> pend \<Rightarrow> int \<times> pend" where
  "ch_step ChReadImpl s = ch_readImpl_patch s"
| "ch_step ChStart s = ch_start_patch s"
| "ch_step (ChWrite c) s = ch_write_patch c s"

definition counted :: "ch_ev \<Rightarrow> bool" where
  "counted e \<longleftrightarrow> e \<noteq> ChReadImpl"

section \<open>tp.bpf.c\<close>

definition tp_start_patch :: "pend \<Rightarrow> int \<times> pend" where
  "tp_start_patch s =
     (let s = emit (Printk ''DB::Server::main called'') s;
          s = bump_count s
      in (0, s\<lparr>global_on := 1\<rparr>))"

definition tp_read_bytes_count :: "pend \<Rightarrow> int \<times> pend" where
  "tp_read_bytes_count s = (0, s)"

definition tp_read_from_task :: "pend \<Rightarrow> int \<times> pend" where
  "tp_read_from_task s = (0, bump_count s)"

definition tp_read_strict :: "pend \<Rightarrow> int \<times> pend" where
  "tp_read_strict s = (0, bump_count s)"

record fork_ctx =
  fk_child_pid :: i32
  fk_parent_pid :: i32
  fk_child_comm :: string

definition COMM_LEN :: nat where
  "COMM_LEN = 16"

text \<open>
  \<open>bpf_probe_read_kernel_str\<close> copies at most \<open>size - 1\<close> characters and a NUL and leaves the
  rest of the destination as it was.
\<close>

definition read_kernel_str :: "string \<Rightarrow> nat \<Rightarrow> string \<Rightarrow> string" where
  "read_kernel_str dest sz src =
     (let t = take (sz - 1) (c_text src) @ [NUL] in t @ drop (length t) dest)"

text \<open>The record on the wire: \<open>struct fork_event\<close>, 24 bytes.\<close>

definition fork_bytes :: "u32 \<Rightarrow> u32 \<Rightarrow> string \<Rightarrow> u8 list" where
  "fork_bytes pid ppid comm = le_bytes 4 pid @ le_bytes 4 ppid @ bytes_of comm"

definition trace_sched_process_fork ::
    "bpf_env \<Rightarrow> string \<Rightarrow> fork_ctx \<Rightarrow> pend \<Rightarrow> int \<times> pend" where
  "trace_sched_process_fork env junk c s =
     (let (p, s) = hcall env (RingbufReserve ''ringbuf'' 24) s in
      if p = 0 then (0, s)
      else
        let s = emit (Printk ''fork event: pid: %d, ppid: %d, comm: %s'') s;
            comm = read_kernel_str junk COMM_LEN (fk_child_comm c)
        in (0, emit (RingbufSubmit ''ringbuf''
                 (fork_bytes (fk_child_pid c) (fk_parent_pid c) comm)) s))"

text \<open>The consumer in \<open>tp.c\<close>: what \<open>handle_event\<close> prints of a record.\<close>

definition handle_event :: "u8 list \<Rightarrow> u32 \<times> u32 \<times> string" where
  "handle_event d = (read32 d 0, read32 d 4, c_text (chars (byte_at d 8 16)))"

section \<open>uprobe.bpf.c\<close>

definition overrideTrace :: "pend \<Rightarrow> int \<times> pend" where
  "overrideTrace s = (0, emit (Printk (take 13 ''overrideTrace'')) s)"

section \<open>Lemmas\<close>

lemma bump_count_eq:
  "length (op_count s) = 1 \<Longrightarrow> bump_count s = s\<lparr>op_count := [op_count s ! 0 + 1]\<rparr>"
  by (simp add: bump_count_def Let_def)

definition is_printk :: "bpf_ev \<Rightarrow> bool" where
  "is_printk e \<longleftrightarrow> (\<exists>m. e = Printk m)"

lemma ch_step_effect:
  assumes "length (op_count s) = 1"
  shows "\<exists>g ps. snd (ch_step e s) = s\<lparr>global_on := g,
           op_count := [op_count s ! 0 + (if counted e then 1 else 0)], blog := blog s @ ps\<rparr>
         \<and> list_all is_printk ps"
proof -
  have one: "op_count s = [op_count s ! 0]" using assms by (cases "op_count s") auto
  show ?thesis
  proof (cases e)
    case ChReadImpl
    show ?thesis using one
      by (intro exI [of _ "global_on s"] exI [of _ "[Printk ''DB::DiskAccessStorage::readImpl'']"])
        (simp add: ChReadImpl ch_readImpl_patch_def counted_def is_printk_def emit_def)
  next
    case ChStart
    show ?thesis
      by (intro exI [of _ 1] exI [of _ "[Printk ''DB::Server::main called'']"])
        (simp add: ChStart ch_start_patch_def counted_def is_printk_def emit_def Let_def
          bump_count_eq assms)
  next
    case (ChWrite c)
    show ?thesis
    proof (cases "global_on s = 0 \<or> to_int (parm1 c) <s 3")
      case True
      then show ?thesis
        by (intro exI [of _ "global_on s"] exI [of _ "[]"])
          (auto simp: ChWrite ch_write_patch_def counted_def Let_def bump_count_eq assms)
    next
      case False
      then show ?thesis
        by (intro exI [of _ "global_on s"]
            exI [of _ "[Printk ''write called with fd: %d, content: %s'']"])
          (auto simp: ChWrite ch_write_patch_def counted_def is_printk_def emit_def Let_def
            bump_count_eq assms)
    qed
  qed
qed

lemma ch_run_effect:
  assumes "length (op_count s) = 1"
  shows "\<exists>ps. op_count (fold (\<lambda>e s. snd (ch_step e s)) es s)
             = [op_count s ! 0 + of_nat (cnt counted es)]
           \<and> blog (fold (\<lambda>e s. snd (ch_step e s)) es s) = blog s @ ps \<and> list_all is_printk ps"
  using assms
proof (induction es arbitrary: s)
  case Nil
  then show ?case by (cases "op_count s") auto
next
  case (Cons e es)
  obtain g ps where e: "snd (ch_step e s) = s\<lparr>global_on := g,
           op_count := [op_count s ! 0 + (if counted e then 1 else 0)], blog := blog s @ ps\<rparr>"
      "list_all is_printk ps"
    using ch_step_effect [OF Cons.prems] by blast
  have "length (op_count (snd (ch_step e s))) = 1" by (simp add: e)
  from Cons.IH [OF this] e show ?case by (auto simp: algebra_simps)
qed

lemma read_kernel_str_text:
  assumes "length dest = 16"
  shows "length (read_kernel_str dest 16 src) = 16
       \<and> c_text (read_kernel_str dest 16 src) = take 15 (c_text src)"
proof -
  let ?t = "take 15 (c_text src)"
  have r: "read_kernel_str dest 16 src = ?t @ NUL # drop (Suc (length ?t)) dest"
    by (simp add: read_kernel_str_def Let_def)
  have "NUL \<notin> set ?t" using NUL_notin_text by (auto dest: in_set_takeD)
  then show ?thesis using c_text_prefix [of ?t] assms unfolding r by simp
qed

lemma handle_event_fork_bytes:
  assumes "length comm = 16"
  shows "handle_event (fork_bytes pid ppid comm) = (pid, ppid, c_text comm)"
  using assms byte_at_here [of "[]" 0 "le_bytes 4 pid" 4 "le_bytes 4 ppid @ bytes_of comm"]
    byte_at_here [of "le_bytes 4 pid" 4 "le_bytes 4 ppid" 4 "bytes_of comm"]
    byte_at_here [of "le_bytes 4 pid @ le_bytes 4 ppid" 8 "bytes_of comm" 16 "[]"]
  by (simp add: handle_event_def fork_bytes_def read32_def)

text \<open>
  The ClickHouse probes observe and nothing else: over any sequence of their events the
  counter in \<open>op_count\<close> grows by exactly the number of counted events (server start marks and
  writes, modulo 2 to the 32), and all they ever do besides is print: no io_uring helper is
  called and no return value is overridden.
\<close>

theorem clickhouse_probes_only_count:
  assumes "length (op_count s) = 1"
  shows "\<exists>ps. op_count (fold (\<lambda>e s. snd (ch_step e s)) es s)
             = [op_count s ! 0 + of_nat (cnt counted es)]
           \<and> blog (fold (\<lambda>e s. snd (ch_step e s)) es s) = blog s @ ps \<and> list_all is_printk ps"
  by (rule ch_run_effect [OF assms])

theorem clickhouse_probes_only_count_witness:
  "\<exists>ps. op_count (fold (\<lambda>e s. snd (ch_step e s)) [ChStart, ChReadImpl, ChStart] pend_loaded) = [2]
      \<and> list_all is_printk ps"
proof -
  have "length (op_count pend_loaded) = 1" by (simp add: pend_loaded_def)
  from clickhouse_probes_only_count [OF this, of "[ChStart, ChReadImpl, ChStart]"]
  show ?thesis by (auto simp: counted_def pend_loaded_def)
qed

text \<open>
  A fork event survives the ring buffer: whatever the reserved memory held, the record the
  tracer submits is decoded by the consumer as the child's and the parent's process ids and the
  child's name cut to 15 characters; when the buffer has no room nothing is submitted.
\<close>

theorem fork_event_roundtrip:
  assumes "length junk = 16"
  shows "\<exists>lg d. snd (trace_sched_process_fork env junk c s) = s\<lparr>blog := lg\<rparr>
         \<and> (if env (blog s) (RingbufReserve ''ringbuf'' 24) = 0
            then lg = blog s @ [RingbufReserve ''ringbuf'' 24]
            else last lg = RingbufSubmit ''ringbuf'' d \<and> length d = 24
              \<and> handle_event d = (fk_child_pid c, fk_parent_pid c, take 15 (c_text (fk_child_comm c))))"
proof -
  let ?comm = "read_kernel_str junk 16 (fk_child_comm c)"
  let ?d = "fork_bytes (fk_child_pid c) (fk_parent_pid c) ?comm"
  have "handle_event ?d = (fk_child_pid c, fk_parent_pid c, take 15 (c_text (fk_child_comm c)))"
      "length ?d = 24"
    using handle_event_fork_bytes [of ?comm] read_kernel_str_text [OF assms]
    by (simp_all add: fork_bytes_def)
  then show ?thesis
    by (auto simp: trace_sched_process_fork_def hcall_def Let_def emit_def COMM_LEN_def)
qed

theorem fork_event_roundtrip_witness:
  "\<exists>lg d. snd (trace_sched_process_fork (\<lambda>_ _. 1) (replicate 16 (CHR ''x''))
       \<lparr>fk_child_pid = 7, fk_parent_pid = 3, fk_child_comm = ''clickhouse'' @ [NUL]\<rparr> pend_loaded)
       = pend_loaded\<lparr>blog := lg\<rparr>
     \<and> last lg = RingbufSubmit ''ringbuf'' d \<and> handle_event d = (7, 3, ''clickhouse'')"
  using fork_event_roundtrip [of "replicate 16 (CHR ''x'')" "\<lambda>_ _. 1"
      "\<lparr>fk_child_pid = 7, fk_parent_pid = 3, fk_child_comm = ''clickhouse'' @ [NUL]\<rparr>" pend_loaded]
  by (auto simp: c_text_def)

end
