(* ===== verification/Hotpatch_Bpf.thy ===== *)
theory Hotpatch_Bpf
  imports Uring_Account
begin

text \<open>
  The syscall-batching programs that keep their counters in global variables:
  \<open>clickhouse-iouring/rocksdb.bpf.c\<close> (batches of 48), \<open>iouring_hotpatch/rocksdb.bpf.c\<close> and
  \<open>iouring_hotpatch/test.bpf.c\<close> (batches of 100000000). A C \<open>int\<close> is an \<open>int\<close> here: the
  invariants bound the counters far below the overflow.
\<close>

record hot = bpf +
  patch_size :: int
  current_count :: int
  hot_global :: bool
  ctx_map :: "(u32, u64) hmap"

text \<open>The common shape: queue a request; if the batch was already full, submit and collect.\<close>

definition submit_counted :: "bpf_ev \<Rightarrow> hot \<Rightarrow> hot" where
  "submit_counted e s =
     (if current_count s < patch_size s then
        (let s = emit e s in s\<lparr>current_count := current_count s + 1\<rparr>)
      else
        (let s = emit e s; s = s\<lparr>current_count := current_count s + 1\<rparr>;
             s = emit USubmit s; s = for_waits 0 (current_count s) s
         in s\<lparr>current_count := 0\<rparr>))"

section \<open>clickhouse-iouring/rocksdb.bpf.c\<close>

definition ci_loaded :: hot where
  "ci_loaded = \<lparr>blog = [], patch_size = 48, current_count = 0, hot_global = False,
     ctx_map = hm_empty 0\<rparr>"

definition ci_write :: "i32 \<Rightarrow> u64 \<Rightarrow> u64 \<Rightarrow> hot \<Rightarrow> int \<times> hot" where
  "ci_write fd buf n s =
     (if n = 5 then (0, emit (OverrideReturn 5) (submit_counted (SubmitWrite fd buf n) s))
      else (0, s))"

definition ci_fsync :: "i32 \<Rightarrow> hot \<Rightarrow> int \<times> hot" where
  "ci_fsync fd s = (0, emit (OverrideReturn 0) (submit_counted (SubmitFsync fd) s))"

definition ci_start :: "hot \<Rightarrow> int \<times> hot" where
  "ci_start s = (0, emit UringInit (emit (Printk ''start called and init io_uring'') s))"

datatype ci_ev = CiWrite i32 u64 u64 | CiFsync i32 | CiStart

fun ci_step :: "ci_ev \<Rightarrow> hot \<Rightarrow> hot option" where
  "ci_step (CiWrite fd buf n) s = Some (snd (ci_write fd buf n s))"
| "ci_step (CiFsync fd) s = Some (snd (ci_fsync fd s))"
| "ci_step CiStart s = Some (snd (ci_start s))"

section \<open>iouring_hotpatch/rocksdb.bpf.c\<close>

definition hp_loaded :: hot where
  "hp_loaded = \<lparr>blog = [], patch_size = 100000000, current_count = 0, hot_global = False,
     ctx_map = hm_empty 10000\<rparr>"

definition hp_write :: "i32 \<Rightarrow> u64 \<Rightarrow> u64 \<Rightarrow> hot \<Rightarrow> int \<times> hot" where
  "hp_write fd buf n s =
     (let s = emit (Printk ''write called'') s in
      if hot_global s \<and> fd \<noteq> 1
      then (0, emit (OverrideReturn n) (submit_counted (SubmitWrite fd buf n) s))
      else (0, s))"

definition hp_fsync :: "i32 \<Rightarrow> hot \<Rightarrow> int \<times> hot" where
  "hp_fsync fd s = (0, emit (OverrideReturn 0) (submit_counted (SubmitFsync fd) s))"

definition hp_send :: "i32 \<Rightarrow> u64 \<Rightarrow> u64 \<Rightarrow> i32 \<Rightarrow> hot \<Rightarrow> int \<times> hot" where
  "hp_send fd buf n flags s =
     (let s = emit (SubmitSend fd buf n flags) s;
          s = emit USubmit s
      in (0, submit_counted (SubmitFsync fd) s))"

text \<open>
  The probe on \<open>read\<close>. The map value is a \<open>struct bpf_uring_ctx\<close> whose first field is the
  pointer stored here; the update reads the other fields from beyond the local variable.
\<close>

definition hp_read :: "bpf_env \<Rightarrow> i32 \<Rightarrow> u64 \<Rightarrow> u64 \<Rightarrow> i32 \<Rightarrow> hot \<Rightarrow> int \<times> hot" where
  "hp_read env fd buf n flags s =
     (let s = emit (SubmitRead fd buf n (scast flags)) s;
          (data, s) = hcall env (MemAlloc n) s;
          s = s\<lparr>ctx_map := snd (hm_update (ctx_map s) fd data)\<rparr>;
          s = emit USubmit s
      in (0, submit_counted (SubmitFsync fd) s))"

definition hp_start :: "hot \<Rightarrow> int \<times> hot" where
  "hp_start s =
     (let s = emit (Printk ''start called and init io_uring'') s;
          s = s\<lparr>hot_global := True\<rparr>
      in (0, emit UringInit s))"

definition hp_uring_enable :: "hot \<Rightarrow> int \<times> hot" where
  "hp_uring_enable s = (0, emit (OverrideReturn 1) s)"

datatype hp_ev = HpWrite i32 u64 u64 | HpFsync i32 | HpSend i32 u64 u64 i32
  | HpRead i32 u64 u64 i32 | HpStart | HpEnable

fun hp_step :: "bpf_env \<Rightarrow> hp_ev \<Rightarrow> hot \<Rightarrow> int \<times> hot" where
  "hp_step env (HpWrite fd buf n) s = hp_write fd buf n s"
| "hp_step env (HpFsync fd) s = hp_fsync fd s"
| "hp_step env (HpSend fd buf n fl) s = hp_send fd buf n fl s"
| "hp_step env (HpRead fd buf n fl) s = hp_read env fd buf n fl s"
| "hp_step env HpStart s = hp_start s"
| "hp_step env HpEnable s = hp_uring_enable s"

section \<open>iouring_hotpatch/test.bpf.c\<close>

definition tb_loaded :: hot where
  "tb_loaded = \<lparr>blog = [], patch_size = 100000000, current_count = 0, hot_global = True,
     ctx_map = hm_empty 10000\<rparr>"

definition tb_pread :: "i32 \<Rightarrow> u64 \<Rightarrow> u64 \<Rightarrow> u64 \<Rightarrow> hot \<Rightarrow> int \<times> hot" where
  "tb_pread fd buf n off s =
     (let s = emit (SubmitRead fd buf n off) s;
          s = emit USubmit s;
          s = s\<lparr>current_count := current_count s + 1\<rparr>
      in if current_count s = patch_size s
         then (0, (for_waits 0 (current_count s) s)\<lparr>current_count := 0\<rparr>)
         else (0, s))"

definition tb_start :: "hot \<Rightarrow> int \<times> hot" where
  "tb_start s =
     (let s = emit (Printk ''start called and init io_uring'') s;
          s = s\<lparr>hot_global := True\<rparr>
      in (0, emit UringInit s))"

datatype tb_ev = TbPread i32 u64 u64 u64 | TbStart

fun tb_step :: "tb_ev \<Rightarrow> hot \<Rightarrow> int \<times> hot" where
  "tb_step (TbPread fd buf n off) s = tb_pread fd buf n off s"
| "tb_step TbStart s = tb_start s"

section \<open>The counting core\<close>

lemma submit_counted_eq:
  "submit_counted e s =
     (if current_count s < patch_size s
      then s\<lparr>blog := blog s @ [e], current_count := current_count s + 1\<rparr>
      else s\<lparr>blog := blog s @ e # USubmit # replicate (nat (current_count s + 1)) WaitAndSeen,
             current_count := 0\<rparr>)"
  by (simp add: submit_counted_def Let_def emit_def for_waits_eq)

lemma hot_neutral [simp]:
  "neutral (Printk m)" "neutral (OverrideReturn v)" "neutral UringInit" "neutral (MemAlloc n)"
  by (auto simp: neutral_def)

text \<open>
  The effect of one counted request on a ring with \<open>q\<close> queued and \<open>f\<close> submitted requests
  of which the counter covers \<open>current_count\<close>.
\<close>

lemma submit_counted_acct:
  assumes e: "is_request e" and all: "accepts_all env" and a: "acct env (blog s) = Some (q, f)"
    and cov: "0 \<le> current_count s" "current_count s \<le> patch_size s" "nat (current_count s) \<le> q + f"
  shows "current_count (submit_counted e s)
           = (if current_count s < patch_size s then current_count s + 1 else 0)
    \<and> patch_size (submit_counted e s) = patch_size s
    \<and> hot_global (submit_counted e s) = hot_global s
    \<and> acct env (blog (submit_counted e s))
           = Some (if current_count s < patch_size s then (q + 1, f)
                   else (0, q + f - nat (current_count s)))"
proof -
  have a1: "acct env (blog s @ [e]) = Some (q + 1, f)" using acct_taken [OF all e a] .
  have le: "nat (current_count s + 1) \<le> q + 1 + f" using cov by simp
  have eqn: "q + 1 + f - nat (current_count s + 1) = q + f - nat (current_count s)" using cov by simp
  from acct_flush [OF a1 le] show ?thesis
    unfolding eqn using a1 by (simp add: submit_counted_eq)
qed

lemma acct_emit_neutral: "neutral e \<Longrightarrow> acct env (blog (emit e s)) = acct env (blog s)"
  by (simp add: acct_neutral)

lemma emit_hot [simp]:
  "current_count (emit e s) = current_count s" "patch_size (emit e s) = patch_size s"
  "hot_global (emit e s) = hot_global s"
  by (simp_all add: emit_def)

section \<open>clickhouse-iouring: the contract\<close>

definition ci_wf :: "bpf_env \<Rightarrow> hot \<Rightarrow> bool" where
  "ci_wf env s \<longleftrightarrow> accepts_all env \<and> patch_size s = 48 \<and> 0 \<le> current_count s
     \<and> current_count s \<le> 48 \<and> acct env (blog s) = Some (nat (current_count s), 0)"

lemma ci_wf_emit: "neutral e \<Longrightarrow> ci_wf env (emit e s) = ci_wf env s"
  by (simp add: ci_wf_def acct_neutral)

lemma ci_wf_submit:
  assumes "ci_wf env s" and "is_request e" shows "ci_wf env (submit_counted e s)"
  using submit_counted_acct [of e env s "nat (current_count s)" 0] assms by (auto simp: ci_wf_def)

lemma ci_step_wf: "ci_wf env s \<Longrightarrow> \<exists>s'. ci_step e s = Some s' \<and> ci_wf env s'"
  by (cases e) (auto simp: ci_write_def ci_fsync_def ci_start_def ci_wf_emit ci_wf_submit)

interpretation ci: batching ci_step "ci_wf env" blog "\<lambda>s. nat (current_count s)" 48 env
  for env
  by unfold_locales (auto simp: ci_step_wf, auto simp: ci_wf_def)

lemma ci_wf_loaded: "accepts_all env \<Longrightarrow> ci_wf env ci_loaded"
  by (simp add: ci_wf_def ci_loaded_def)

section \<open>iouring_hotpatch: what the counter misses\<close>

text \<open>The ring holds \<open>d\<close> requests more than the counter knows of.\<close>

definition hp_inv :: "bpf_env \<Rightarrow> nat \<Rightarrow> hot \<Rightarrow> bool" where
  "hp_inv env d s \<longleftrightarrow> 0 \<le> current_count s \<and> current_count s \<le> patch_size s
     \<and> (\<exists>q f. acct env (blog s) = Some (q, f) \<and> q + f = nat (current_count s) + d)"

lemma hp_inv_emit: "neutral e \<Longrightarrow> hp_inv env d (emit e s) = hp_inv env d s"
  by (simp add: hp_inv_def acct_neutral)

lemma hp_inv_submit:
  assumes "accepts_all env" and "hp_inv env d s" and "is_request e"
  shows "hp_inv env d (submit_counted e s)"
proof -
  obtain q f where "acct env (blog s) = Some (q, f)" "q + f = nat (current_count s) + d"
      "0 \<le> current_count s" "current_count s \<le> patch_size s"
    using assms(2) by (auto simp: hp_inv_def)
  then show ?thesis
    using submit_counted_acct [OF assms(3,1), of s q f] by (auto simp: hp_inv_def)
qed

lemma hp_inv_uncounted:
  assumes "accepts_all env" and "hp_inv env d s" and "is_request e"
  shows "hp_inv env (Suc d) (emit e s)"
proof -
  obtain q f where "acct env (blog s) = Some (q, f)" "q + f = nat (current_count s) + d"
    using assms(2) by (auto simp: hp_inv_def)
  then have "acct env (blog s @ [e]) = Some (q + 1, f)" "q + 1 + f = nat (current_count s) + Suc d"
    using acct_taken [OF assms(1,3)] by auto
  then show ?thesis using assms(2) by (simp add: hp_inv_def)
qed

lemma hp_inv_usubmit:
  assumes "hp_inv env d s" shows "hp_inv env d (emit USubmit s)"
proof -
  obtain q f where "acct env (blog s) = Some (q, f)" "q + f = nat (current_count s) + d"
    using assms by (auto simp: hp_inv_def)
  then have "acct env (blog s @ [USubmit]) = Some (0, q + f)" "0 + (q + f) = nat (current_count s) + d"
    using acct_submit by auto
  then show ?thesis using assms by (simp add: hp_inv_def)
qed

lemma hp_inv_frame [simp]:
  "hp_inv env d (s\<lparr>hot_global := g\<rparr>) = hp_inv env d s"
  "hp_inv env d (s\<lparr>ctx_map := m\<rparr>) = hp_inv env d s"
  by (simp_all add: hp_inv_def)

definition uncounted :: "hp_ev \<Rightarrow> bool" where
  "uncounted e \<longleftrightarrow> (case e of HpSend _ _ _ _ \<Rightarrow> True | HpRead _ _ _ _ \<Rightarrow> True | _ \<Rightarrow> False)"

lemma hp_step_inv:
  assumes "accepts_all env" and "hp_inv env d s"
  shows "hp_inv env (d + (if uncounted e then 1 else 0)) (snd (hp_step env e s))"
  using assms
  by (cases e) (auto simp: uncounted_def hp_write_def hp_fsync_def hp_send_def hp_read_def hp_start_def
      hp_uring_enable_def Let_def hcall_def hp_inv_emit hp_inv_submit hp_inv_uncounted hp_inv_usubmit)

lemma hp_run_inv:
  assumes "accepts_all env" and "hp_inv env d s"
  shows "hp_inv env (d + cnt uncounted es) (fold (\<lambda>e s. snd (hp_step env e s)) es s)"
  using assms(2)
proof (induction es arbitrary: d s)
  case (Cons e es)
  from Cons.IH [OF hp_step_inv [OF assms(1) Cons.prems, of e]] show ?case
    by (simp add: add.assoc)
qed simp

section \<open>iouring_hotpatch/test.bpf.c\<close>

definition tb_inv :: "bpf_env \<Rightarrow> hot \<Rightarrow> bool" where
  "tb_inv env s \<longleftrightarrow> 0 \<le> current_count s \<and> current_count s < patch_size s
     \<and> acct env (blog s) = Some (0, nat (current_count s))"

lemma tb_pread_inv:
  assumes "accepts_all env" and i: "tb_inv env s"
  shows "tb_inv env (snd (tb_pread fd buf n off s))"
proof -
  let ?c = "current_count s"
  have a: "acct env (blog s @ [SubmitRead fd buf n off]) = Some (1, nat ?c)"
    using acct_taken [OF assms(1), of "SubmitRead fd buf n off" "blog s" 0 "nat ?c"] i
    by (simp add: tb_inv_def)
  have w: "acct env (blog s @ SubmitRead fd buf n off # USubmit # replicate (nat (?c + 1)) WaitAndSeen)
      = Some (0, 0)"
    using acct_flush [OF a, of "nat (?c + 1)"] i by (simp add: tb_inv_def nat_add_distrib)
  have s: "acct env (blog s @ [SubmitRead fd buf n off, USubmit]) = Some (0, nat (?c + 1))"
    using acct_submit [OF a] i by (simp add: tb_inv_def nat_add_distrib)
  show ?thesis
    using i w s by (auto simp: tb_pread_def Let_def for_waits_eq tb_inv_def emit_def)
qed

lemma tb_step_inv: "accepts_all env \<Longrightarrow> tb_inv env s \<Longrightarrow> tb_inv env (snd (tb_step e s))"
proof (cases e)
  case TbStart
  then show "tb_inv env s \<Longrightarrow> tb_inv env (snd (tb_step e s))"
    using acct_emit_neutral [of UringInit env "(emit (Printk ''start called and init io_uring'') s)\<lparr>hot_global := True\<rparr>"]
    by (auto simp: tb_start_def Let_def tb_inv_def acct_neutral simp del: blog_emit) (simp add: acct_neutral)
qed (simp add: tb_pread_inv)


definition tb_next :: "tb_ev \<Rightarrow> hot \<Rightarrow> hot option" where
  "tb_next e s = Some (snd (tb_step e s))"

definition tb_wf :: "bpf_env \<Rightarrow> hot \<Rightarrow> bool" where
  "tb_wf env s \<longleftrightarrow> accepts_all env \<and> patch_size s = 100000000 \<and> tb_inv env s"

lemma tb_patch_size [simp]: "patch_size (snd (tb_step e s)) = patch_size s"
  by (cases e) (auto simp: tb_pread_def tb_start_def Let_def for_waits_eq)

interpretation tb: batching tb_next "tb_wf env" blog "\<lambda>s. nat (current_count s)" 99999999 env
  for env
  by unfold_locales (auto simp: tb_next_def tb_wf_def tb_step_inv, auto simp: tb_inv_def)

lemma tb_wf_loaded: "accepts_all env \<Longrightarrow> tb_wf env tb_loaded"
  by (simp add: tb_wf_def tb_inv_def tb_loaded_def)

section \<open>Properties\<close>

text \<open>
  When the runtime accepts every request, the ClickHouse write and fsync probes keep an exact
  account over any sequence of events: accepted requests are the collected ones plus
  \<open>current_count\<close>, never more than 48, and no wait is issued for a request that has not been
  submitted.
\<close>

theorem clickhouse_batches_balance:
  assumes "accepts_all env"
  shows "\<exists>s. run_events ci_step es ci_loaded = Some s \<and> acct env (blog s) \<noteq> None
     \<and> taken env (blog s) = waits (blog s) + nat (current_count s)
     \<and> 0 \<le> current_count s \<and> current_count s \<le> 48"
  using ci.run_account [OF ci_wf_loaded [OF assms], of es] by (auto simp: ci_wf_def)

text \<open>
  The batch is submitted by the request after the 48th: with 48 counted requests a write of 5
  bytes queues its request, submits once, collects 49 completions, resets the counter and reports
  5 bytes; a write of any other length is left to the C library.
\<close>

theorem clickhouse_write_flushes_at_49:
  assumes "patch_size s = 48" and "current_count s = 48"
  shows "ci_write fd buf n s = (if n = 5
     then (0, s\<lparr>blog := blog s @ [SubmitWrite fd buf 5, USubmit] @ replicate 49 WaitAndSeen
                      @ [OverrideReturn 5], current_count := 0\<rparr>)
     else (0, s))"
  using assms by (simp add: ci_write_def submit_counted_eq emit_def del: replicate.simps)

text \<open>
  The answers of the submit helpers are ignored, so a refused request is counted too: when the
  ring holds fewer requests than the full batch counts, the flush waits for a completion that
  never comes (the account has no answer).
\<close>

theorem refused_request_blocks_flush:
  assumes "is_request e" and "current_count s = patch_size s" and "0 \<le> patch_size s"
    and "acct env (blog s) = Some (q, 0)"
    and "q + (if accepted (env (blog s) e) then 1 else 0) < nat (current_count s + 1)"
  shows "acct env (blog (submit_counted e s)) = None"
proof -
  let ?q = "q + (if accepted (env (blog s) e) then 1 else 0)"
  have "acct env (blog s @ [e]) = Some (?q, 0)"
    using acct_request [OF assms(1,4)] by simp
  then have "acct env (blog s @ e # USubmit # replicate (nat (current_count s + 1)) WaitAndSeen) = None"
    using acct_waits [OF acct_submit, of env "blog s @ [e]" ?q 0 "nat (current_count s + 1)"]
      assms(5) by simp
  then show ?thesis using assms(2) by (simp add: submit_counted_eq)
qed

text \<open>
  The hot-patched \<open>send\<close> and \<open>read\<close> queue two requests and count one: over any sequence of
  events, with every request accepted, the accepted requests exceed the collected and the counted
  ones by exactly the number of \<open>send\<close> and \<open>read\<close> events, so their completions are never
  collected; the counter still never asks for more completions than there are.
\<close>

theorem hotpatch_send_read_leak:
  fixes es :: "hp_ev list"
  assumes "accepts_all env"
  defines "s \<equiv> fold (\<lambda>e s. snd (hp_step env e s)) es hp_loaded"
  shows "acct env (blog s) \<noteq> None
     \<and> taken env (blog s) = waits (blog s) + nat (current_count s) + cnt uncounted es"
proof -
  have "hp_inv env 0 hp_loaded" by (simp add: hp_inv_def hp_loaded_def)
  from hp_run_inv [OF assms(1) this, of es] obtain q f
    where qf: "acct env (blog s) = Some (q, f)" "q + f = nat (current_count s) + cnt uncounted es"
    unfolding s_def hp_inv_def by auto
  then show ?thesis using acct_conserve [OF qf(1)] by auto
qed

text \<open>
  The probe of the test program submits every \<open>pread\<close> at once and collects in batches: with
  every request accepted, over any sequence of events, the accepted requests are the collected
  ones plus \<open>current_count\<close>, which stays below 100000000, and no wait blocks.
\<close>

theorem test_probe_balance:
  assumes "accepts_all env"
  shows "\<exists>s. run_events tb_next es tb_loaded = Some s \<and> acct env (blog s) \<noteq> None
     \<and> taken env (blog s) = waits (blog s) + nat (current_count s)
     \<and> 0 \<le> current_count s \<and> current_count s < 100000000"
  using tb.run_account [OF tb_wf_loaded [OF assms], of es] by (auto simp: tb_wf_def tb_inv_def)

section \<open>Witnesses\<close>

lemma accepts_all_zero: "accepts_all (\<lambda>_ _. 0)"
  by (simp add: accepts_all_def accepted_def to_int_def)

theorem clickhouse_batches_balance_witness:
  "\<exists>s. run_events ci_step [CiStart, CiWrite 3 0 5, CiFsync 3, CiWrite 3 0 6] ci_loaded = Some s
     \<and> taken (\<lambda>_ _. 0) (blog s) = 2 \<and> current_count s = 2"
  using clickhouse_batches_balance [OF accepts_all_zero,
      of "[CiStart, CiWrite 3 0 5, CiFsync 3, CiWrite 3 0 6]"]
  by (simp add: ci_write_def ci_fsync_def ci_start_def submit_counted_eq ci_loaded_def waits_def)

theorem clickhouse_write_flushes_at_49_witness:
  "ci_write 3 0 5 (ci_loaded\<lparr>current_count := 48\<rparr>)
     = (0, ci_loaded\<lparr>blog := [SubmitWrite 3 0 5, USubmit] @ replicate 49 WaitAndSeen
                      @ [OverrideReturn 5], current_count := 0\<rparr>)"
  using clickhouse_write_flushes_at_49 [of "ci_loaded\<lparr>current_count := 48\<rparr>" 3 0 5]
  by (simp add: ci_loaded_def del: replicate.simps)

theorem refused_request_blocks_flush_witness:
  "acct (\<lambda>_ _. 1) (blog (submit_counted (SubmitFsync 3) (ci_loaded\<lparr>current_count := 48\<rparr>))) = None"
  by (rule refused_request_blocks_flush [where q = 0]) (auto simp: ci_loaded_def accepted_def to_int_def)

theorem hotpatch_send_read_leak_witness:
  "taken (\<lambda>_ _. 0) (blog (fold (\<lambda>e s. snd (hp_step (\<lambda>_ _. 0) e s)) [HpSend 4 0 8 0, HpRead 4 0 8 0] hp_loaded))
     = 4"
  using hotpatch_send_read_leak [OF accepts_all_zero, of "[HpSend 4 0 8 0, HpRead 4 0 8 0]"]
  by (simp add: uncounted_def hp_send_def hp_read_def submit_counted_eq hp_loaded_def waits_def emit_def
      hcall_def Let_def)

theorem test_probe_balance_witness:
  "\<exists>s. run_events tb_next [TbStart, TbPread 3 0 4 0] tb_loaded = Some s
     \<and> taken (\<lambda>_ _. 0) (blog s) = 1"
  using test_probe_balance [OF accepts_all_zero, of "[TbStart, TbPread 3 0 4 0]"]
  by (simp add: tb_next_def tb_start_def tb_pread_def tb_loaded_def waits_def emit_def Let_def)

end
