(* ===== verification/Batch_Bpf.thy ===== *)
theory Batch_Bpf
  imports Uring_Account Bytes
begin

text \<open>
  \<open>IO_syscall_patch/batch.bpf.c\<close>: the USDT probes that let ClickHouse queue its preads on the
  extended io_uring helpers and collect them in \<open>batchSubmit\<close>. A pointer a map lookup returns
  is followed by storing through it; the keys of \<open>fd_info_map\<close> are C ints.
\<close>

definition BB_BATCH_SIZE :: int where
  "BB_BATCH_SIZE = 1024"

record pread_submit_info =
  ps_pid :: i32
  ps_fd :: i32
  ps_dest :: u64
  ps_size :: u64
  ps_i_ino :: u64
  ps_seq_num :: u32
  ps_depends_on :: u32
  ps_res :: u32

record fd_info =
  fi_total :: u64
  fi_batched :: u64
  fi_fd :: i32

record batch = bpf +
  bb_global :: i32
  bb_seq :: i32
  submit_map :: "(u32, pread_submit_info) hmap"
  fd_map :: "(i32, fd_info) hmap"

definition batch_loaded :: batch where
  "batch_loaded = \<lparr>blog = [], bb_global = 0, bb_seq = 0, submit_map = hm_empty 10000,
     fd_map = hm_empty 1000\<rparr>"

definition zero_submit_info :: pread_submit_info where
  "zero_submit_info = \<lparr>ps_pid = 0, ps_fd = 0, ps_dest = 0, ps_size = 0, ps_i_ino = 0,
     ps_seq_num = 0, ps_depends_on = 0, ps_res = 0\<rparr>"

definition bb_handle_batched_ops :: "batch \<Rightarrow> int \<times> batch" where
  "bb_handle_batched_ops s = (0, for_waits 0 BB_BATCH_SIZE (emit USubmit s))"

text \<open>\<open>info\<close> points to the map element of key \<open>k\<close>.\<close>

definition bb_add_pending_op ::
    "bpf_env \<Rightarrow> u32 \<Rightarrow> pread_submit_info \<Rightarrow> batch \<Rightarrow> int \<times> batch" where
  "bb_add_pending_op env k info s =
     (let (r, s) = hcall env (SubmitPread (ps_fd info) (ps_dest info) (ps_size info) 0) s;
          res = to_int r;
          info = info\<lparr>ps_res := res\<rparr>;
          s = s\<lparr>submit_map := hm_store (submit_map s) k info\<rparr>;
          s = s\<lparr>submit_map := snd (hm_update (submit_map s) (ps_seq_num info) info)\<rparr>
      in (sint res, s))"

definition main_entry :: "batch \<Rightarrow> int \<times> batch" where
  "main_entry s = (0, (emit UringInit s)\<lparr>bb_global := 1\<rparr>)"

definition bb_readS :: "bpf_ctx \<Rightarrow> batch \<Rightarrow> int \<times> batch" where
  "bb_readS c s =
     (let s = emit (ProbeWriteUser (parm4 c) [1]) s;
          pid = cur_pid c;
          info = zero_submit_info\<lparr>ps_pid := pid, ps_dest := parm3 c, ps_size := parm2 c\<rparr>
      in (0, s\<lparr>submit_map := snd (hm_update (submit_map s) pid info)\<rparr>))"

definition note_read :: "i32 \<Rightarrow> u64 \<Rightarrow> u32 \<Rightarrow> batch \<Rightarrow> batch" where
  "note_read fd to_read pid s =
     (case hm_lookup (fd_map s) fd of
        Some fi \<Rightarrow> s\<lparr>fd_map := hm_store (fd_map s) fd
            (fi\<lparr>fi_total := fi_total fi + to_read, fi_batched := fi_batched fi + 1\<rparr>)\<rparr>
      | None \<Rightarrow> s\<lparr>fd_map := snd (hm_update (fd_map s) pid
            \<lparr>fi_total = to_read, fi_batched = 1, fi_fd = fd\<rparr>)\<rparr>)"

definition bb_preadRaw :: "bpf_env \<Rightarrow> bpf_ctx \<Rightarrow> batch \<Rightarrow> int \<times> batch" where
  "bb_preadRaw env c s =
     (let fd = to_int (parm1 c); to_read = parm5 c;
          s = emit (ProbeWriteUser (parm4 c) [1]) s;
          pid = cur_pid c
      in case hm_lookup (submit_map s) pid of
           None \<Rightarrow> (0, s)
         | Some info \<Rightarrow>
             let info = info\<lparr>ps_fd := fd, ps_size := to_read, ps_i_ino := - 1,
                             ps_seq_num := bb_seq s, ps_depends_on := 0\<rparr>;
                 s = s\<lparr>bb_seq := bb_seq s + 1, submit_map := hm_store (submit_map s) pid info\<rparr>;
                 (r, s) = bb_add_pending_op env pid info s
             in (0, note_read fd to_read pid s))"

definition bb_batchSubmit :: "bpf_ctx \<Rightarrow> batch \<Rightarrow> int \<times> batch" where
  "bb_batchSubmit c s =
     (case hm_lookup (fd_map s) (cur_pid c) of
        None \<Rightarrow> (0, s)
      | Some fi \<Rightarrow>
          let s = emit (ProbeWriteUser (parm1 c) (le_bytes 8 (fi_total fi))) s;
              (r, s) = bb_handle_batched_ops s
          in (0, s))"

definition bb_readCount :: "bpf_ctx \<Rightarrow> batch \<Rightarrow> int \<times> batch" where
  "bb_readCount c s = (0, emit (Printk ''Read latency: %lld'') s)"

section \<open>Lemmas\<close>

lemma handle_batched_eq:
  "bb_handle_batched_ops s = (0, s\<lparr>blog := blog s @ USubmit # replicate 1024 WaitAndSeen\<rparr>)"
  by (simp add: bb_handle_batched_ops_def for_waits_eq BB_BATCH_SIZE_def emit_def del: replicate.simps)

lemma batch_neutral [simp]: "neutral (ProbeWriteUser a bs)"
  by (simp add: neutral_def)

lemma note_read_log [simp]: "blog (note_read fd n pid s) = blog s"
  by (simp add: note_read_def split: option.split)

lemma bb_preadRaw_log:
  assumes "hm_lookup (submit_map s) (cur_pid c) = Some info"
  shows "blog (snd (bb_preadRaw env c s)) = blog s @ [ProbeWriteUser (parm4 c) [1],
           SubmitPread (to_int (parm1 c)) (ps_dest info) (parm5 c) 0]"
  using assms by (simp add: bb_preadRaw_def Let_def bb_add_pending_op_def hcall_def emit_def)

lemma bb_preadRaw_fd_map:
  assumes "hm_lookup (submit_map s) (cur_pid c) = Some info"
  shows "fd_map (snd (bb_preadRaw env c s)) = fd_map (note_read (to_int (parm1 c)) (parm5 c) (cur_pid c) s)"
  using assms
  by (simp add: bb_preadRaw_def Let_def bb_add_pending_op_def hcall_def emit_def note_read_def
      split: option.split)

lemma bb_preadRaw_keeps_info:
  assumes "hm_lookup (submit_map s) (cur_pid c) = Some info"
  shows "\<exists>info'. hm_lookup (submit_map (snd (bb_preadRaw env c s))) (cur_pid c) = Some info'
       \<and> ps_dest info' = ps_dest info"
proof -
  define i1 where "i1 = info\<lparr>ps_fd := to_int (parm1 c), ps_size := parm5 c, ps_i_ino := - 1,
                             ps_seq_num := bb_seq s, ps_depends_on := 0\<rparr>"
  let ?m1 = "hm_store (submit_map s) (cur_pid c) i1"
  define i2 where "i2 = i1\<lparr>ps_res := to_int (env (blog s @ [ProbeWriteUser (parm4 c) [1]])
      (SubmitPread (ps_fd i1) (ps_dest i1) (ps_size i1) 0))\<rparr>"
  let ?m2 = "hm_store ?m1 (cur_pid c) i2"
  have l1: "hm_lookup ?m1 (cur_pid c) = Some i1"
    using hash_map.lookup_store [of "submit_map s" "cur_pid c" i1 "cur_pid c"] assms by simp
  have l2: "hm_lookup ?m2 (cur_pid c) = Some i2"
    using hash_map.lookup_store [of ?m1 "cur_pid c" i2 "cur_pid c"] l1 by simp
  have m: "submit_map (snd (bb_preadRaw env c s)) = snd (hm_update ?m2 (ps_seq_num i2) i2)"
    using assms
    by (simp add: bb_preadRaw_def Let_def bb_add_pending_op_def hcall_def emit_def note_read_def
        i1_def i2_def split: option.split)
  have "hm_lookup (snd (hm_update ?m2 (ps_seq_num i2) i2)) (cur_pid c) = Some i2"
    using hash_map.lookup_update [of "ps_seq_num i2" ?m2 i2 "cur_pid c"]
      hash_map.update_full [of "ps_seq_num i2" ?m2 i2] l2
    by (cases "hm_room (ps_seq_num i2) ?m2") auto
  moreover have "ps_dest i2 = ps_dest info" by (simp add: i2_def i1_def)
  ultimately show ?thesis using m by simp
qed

text \<open>
  A \<open>preadRaw\<close> for which \<open>readS\<close> has registered a destination queues one pread into that
  destination with the given descriptor and size, but always at file offset 0, whatever offset the
  caller asked for; without a registration nothing is queued.
\<close>

theorem pread_offset_is_dropped:
  "blog (snd (bb_preadRaw env c s)) = blog s @ ProbeWriteUser (parm4 c) [1] #
     (case hm_lookup (submit_map s) (cur_pid c) of None \<Rightarrow> []
      | Some info \<Rightarrow> [SubmitPread (to_int (parm1 c)) (ps_dest info) (parm5 c) 0])"
proof (cases "hm_lookup (submit_map s) (cur_pid c)")
  case None
  then show ?thesis by (simp add: bb_preadRaw_def Let_def emit_def)
next
  case (Some info)
  then show ?thesis by (simp add: bb_preadRaw_log)
qed

text \<open>
  \<open>batchSubmit\<close> always collects 1024 completions: on a ring with at least that many accepted
  requests it leaves the rest, and with fewer it blocks for ever (no account), however many reads
  were really batched.
\<close>

theorem batch_submit_waits_for_1024:
  assumes "acct env (blog s) = Some (q, f)"
  shows "acct env (blog (snd (bb_batchSubmit c s))) =
    (if hm_lookup (fd_map s) (cur_pid c) = None then Some (q, f)
     else if q + f < 1024 then None else Some (0, q + f - 1024))"
proof (cases "hm_lookup (fd_map s) (cur_pid c)")
  case None
  then show ?thesis using assms by (simp add: bb_batchSubmit_def)
next
  case (Some fi)
  let ?l = "blog s @ [ProbeWriteUser (parm1 c) (le_bytes 8 (fi_total fi))]"
  have a: "acct env ?l = Some (q, f)" using assms by (simp add: acct_neutral)
  have "blog (snd (bb_batchSubmit c s)) = ?l @ USubmit # replicate 1024 WaitAndSeen"
    using Some by (simp add: bb_batchSubmit_def Let_def handle_batched_eq emit_def del: replicate.simps)
  then show ?thesis
    using acct_waits [OF acct_submit [OF a], of 1024] Some
    by (auto simp del: replicate.simps)
qed

section \<open>What batchSubmit reports\<close>

definition bb_reads :: "bpf_env \<Rightarrow> bpf_ctx list \<Rightarrow> batch \<Rightarrow> batch" where
  "bb_reads env cs s = fold (\<lambda>c s. snd (bb_preadRaw env c s)) cs s"

lemma note_read_miss:
  assumes "hm_lookup (fd_map s) fd = None" and "hm_room pid (fd_map s)"
  shows "hm_lookup (fd_map (note_read fd n pid s)) = (hm_lookup (fd_map s))(pid \<mapsto>
     \<lparr>fi_total = n, fi_batched = 1, fi_fd = fd\<rparr>)"
  using assms by (auto simp: note_read_def hash_map.lookup_update fun_eq_iff)

lemma note_read_room:
  assumes "hm_room pid (fd_map s)" and "hm_lookup (fd_map s) fd = None"
  shows "hm_room pid (fd_map (note_read fd n pid s))"
  by (rule hash_map.present) (simp add: note_read_miss [OF assms(2,1)])

lemma bb_reads_last:
  assumes "hm_lookup (submit_map s) pid \<noteq> None" and "hm_room pid (fd_map s)"
    and "\<forall>k. k \<noteq> pid \<longrightarrow> hm_lookup (fd_map s) k = None"
    and "\<forall>c \<in> set (cs @ [c]). cur_pid c = pid \<and> to_int (parm1 c) \<noteq> pid"
  shows "hm_lookup (fd_map (bb_reads env (cs @ [c]) s)) pid
    = Some \<lparr>fi_total = parm5 c, fi_batched = 1, fi_fd = to_int (parm1 c)\<rparr>"
  using assms
proof (induction cs arbitrary: s)
  case Nil
  then show ?case
    using note_read_miss [of s "to_int (parm1 c)" pid "parm5 c"]
    by (auto simp: bb_reads_def bb_preadRaw_fd_map)
next
  case (Cons x cs)
  obtain info where i: "hm_lookup (submit_map s) pid = Some info" using Cons.prems(1) by auto
  have x: "cur_pid x = pid" "to_int (parm1 x) \<noteq> pid" using Cons.prems(4) by auto
  then have miss: "hm_lookup (fd_map s) (to_int (parm1 x)) = None" using Cons.prems(3) by blast
  let ?s = "snd (bb_preadRaw env x s)"
  have m: "fd_map ?s = fd_map (note_read (to_int (parm1 x)) (parm5 x) pid s)"
    using bb_preadRaw_fd_map [of s x info env] i x by simp
  have "hm_lookup (submit_map ?s) pid \<noteq> None"
    using bb_preadRaw_keeps_info [of s x info env] i x by auto
  moreover have "hm_room pid (fd_map ?s)" unfolding m by (rule note_read_room [OF Cons.prems(2) miss])
  moreover have "\<forall>k. k \<noteq> pid \<longrightarrow> hm_lookup (fd_map ?s) k = None"
    unfolding m using note_read_miss [OF miss Cons.prems(2)] Cons.prems(3) by simp
  ultimately have "hm_lookup (fd_map (bb_reads env (cs @ [c]) ?s)) pid
      = Some \<lparr>fi_total = parm5 c, fi_batched = 1, fi_fd = to_int (parm1 c)\<rparr>"
    using Cons.IH Cons.prems(4) by simp
  then show ?case by (simp add: bb_reads_def)
qed

text \<open>
  The read totals are looked up by descriptor and stored by process id, so they never
  accumulate: after any number of preads of one process, on descriptors that differ from its
  process id, the entry \<open>batchSubmit\<close> reports holds the size of the last pread alone and counts
  one read.
\<close>

theorem batched_total_is_last_read:
  assumes "hm_lookup (submit_map s) pid \<noteq> None" and "hm_room pid (fd_map s)"
    and "\<forall>k. k \<noteq> pid \<longrightarrow> hm_lookup (fd_map s) k = None"
    and "\<forall>c \<in> set (cs @ [c]). cur_pid c = pid \<and> to_int (parm1 c) \<noteq> pid"
  shows "hm_lookup (fd_map (bb_reads env (cs @ [c]) s)) pid
    = Some \<lparr>fi_total = parm5 c, fi_batched = 1, fi_fd = to_int (parm1 c)\<rparr>"
  using bb_reads_last [OF assms] .

section \<open>Witnesses\<close>

definition bb_ctx :: "u64 \<Rightarrow> bpf_ctx" where
  "bb_ctx n = \<lparr>parm1 = 9, parm2 = 0, parm3 = 4096, parm4 = 8192, parm5 = n,
     cur_pid_tgid = push_bit 32 77, ktime_ns = 0\<rparr>"

theorem batch_submit_waits_for_1024_witness:
  "acct (\<lambda>_ _. 0) (blog (snd (bb_batchSubmit (bb_ctx 1)
       (batch_loaded\<lparr>fd_map := \<lparr>hm_entries = [(77, \<lparr>fi_total = 5, fi_batched = 1, fi_fd = 9\<rparr>)],
          hm_max = 1000\<rparr>\<rparr>)))) = None"
proof -
  have "acct (\<lambda>_ _. 0) (blog (batch_loaded\<lparr>fd_map := \<lparr>hm_entries
      = [(77, \<lparr>fi_total = 5, fi_batched = 1, fi_fd = 9\<rparr>)], hm_max = 1000\<rparr>\<rparr>)) = Some (0, 0)"
    by (simp add: batch_loaded_def)
  from batch_submit_waits_for_1024 [OF this, of "bb_ctx 1"] show ?thesis
    by (simp add: bb_ctx_def cur_pid_def hm_lookup_def)
qed

theorem batched_total_is_last_read_witness:
  "hm_lookup (fd_map (bb_reads (\<lambda>_ _. 0) [bb_ctx 100, bb_ctx 23] (snd (bb_readS (bb_ctx 0) batch_loaded)))) 77
     = Some \<lparr>fi_total = 23, fi_batched = 1, fi_fd = 9\<rparr>"
proof -
  let ?s = "snd (bb_readS (bb_ctx 0) batch_loaded)"
  have "hm_lookup (submit_map ?s) 77 \<noteq> None" "hm_room 77 (fd_map ?s)"
      "\<forall>k. k \<noteq> 77 \<longrightarrow> hm_lookup (fd_map ?s) k = None"
      "\<forall>c \<in> set ([bb_ctx 100] @ [bb_ctx 23]). cur_pid c = 77 \<and> to_int (parm1 c) \<noteq> 77"
    by (simp_all add: bb_readS_def Let_def bb_ctx_def cur_pid_def batch_loaded_def hm_update_def
        hm_room_def hm_empty_def hm_keys_def hm_lookup_def emit_def to_int_def)
  from batched_total_is_last_read [OF this, of "\<lambda>_ _. 0"] show ?thesis by (simp add: bb_ctx_def to_int_def)
qed

end
