(* ===== verification/User_Bpf.thy ===== *)
theory User_Bpf
  imports Uring_Account Bytes C_String
begin

text \<open>
  \<open>IO_syscall_patch/user.bpf.c\<close>: the USDT probes that hand ClickHouse's preads to a user-space
  daemon through ring buffers. The types the daemon shares (\<open>pread_prepare_info\<close>) are here with
  their 56-byte layout. \<open>target\<close> is the address of the local array \<open>target_type\<close> on the BPF stack.
\<close>

section \<open>The record on the wire\<close>

record prep_info =
  pi_pid :: i32
  pi_fd :: i32
  pi_dest :: u64
  pi_size :: u64
  pi_i_ino :: u64
  pi_offset :: u64
  pi_seq_num :: u32
  pi_depends_on :: u32
  pi_res :: u32

definition prep_bytes :: "prep_info \<Rightarrow> u8 list" where
  "prep_bytes i = le_bytes 4 (pi_pid i) @ le_bytes 4 (pi_fd i) @ le_bytes 8 (pi_dest i)
     @ le_bytes 8 (pi_size i) @ le_bytes 8 (pi_i_ino i) @ le_bytes 8 (pi_offset i)
     @ le_bytes 4 (pi_seq_num i) @ le_bytes 4 (pi_depends_on i) @ le_bytes 4 (pi_res i)
     @ replicate 4 0"

section \<open>State\<close>

record ufd_info =
  uf_total :: u64
  uf_batched :: u64
  uf_fd :: i32

record user = bpf +
  us_seq :: i32
  us_overridden :: bool
  us_fd_map :: "(u32, ufd_info) hmap"

definition user_loaded :: user where
  "user_loaded = \<lparr>blog = [], us_seq = 0, us_overridden = False, us_fd_map = hm_empty 1000\<rparr>"

definition bool_byte :: "bool \<Rightarrow> u8" where
  "bool_byte b = (if b then 1 else 0)"

section \<open>Operations\<close>

definition us_handle_batched_ops :: "bpf_ctx \<Rightarrow> user \<Rightarrow> int \<times> user" where
  "us_handle_batched_ops c s =
     (0, emit (RingbufOutput ''pread_submit_batch_ringbuf'' (le_bytes 4 (cur_pid c))) s)"

definition us_add_pending_op :: "prep_info \<Rightarrow> user \<Rightarrow> int \<times> user" where
  "us_add_pending_op i s = (0, emit (RingbufOutput ''pread_prepare_ringbuf'' (prep_bytes i)) s)"

text \<open>\<open>char\<close> is signed; reading past the end of an array is \<open>None\<close>.\<close>

definition schar :: "char \<Rightarrow> int" where
  "schar c = sint (of_nat (of_char c) :: u8)"

fun strcmp_loop :: "nat \<Rightarrow> string \<Rightarrow> string \<Rightarrow> int option" where
  "strcmp_loop 0 s1 s2 = Some 0"
| "strcmp_loop (Suc k) (a # s1) (b # s2) =
     (if a \<noteq> b then Some (schar a - schar b)
      else if a = NUL then Some 0
      else strcmp_loop k s1 s2)"
| "strcmp_loop (Suc k) s1 s2 = None"

definition MAX_STR_LEN :: nat where
  "MAX_STR_LEN = 128"

definition bpf_strcmp :: "string \<Rightarrow> string \<Rightarrow> int option" where
  "bpf_strcmp s1 s2 = strcmp_loop MAX_STR_LEN s1 s2"

text \<open>The probe compares the pointer it is given with the address of its local array.\<close>

definition us_readS :: "u64 \<Rightarrow> bpf_ctx \<Rightarrow> user \<Rightarrow> int \<times> user" where
  "us_readS target c s =
     (if parm1 c = target
      then (let s = s\<lparr>us_overridden := True\<rparr>
            in (0, emit (ProbeWriteUser (parm4 c) [bool_byte (us_overridden s)]) s))
      else (let s = s\<lparr>us_overridden := False\<rparr>
            in (0, emit (ProbeWriteUser (parm4 c) [bool_byte (us_overridden s)]) s)))"

definition read_info :: "bpf_ctx \<Rightarrow> i32 \<Rightarrow> prep_info" where
  "read_info c seq = \<lparr>pi_pid = cur_pid c, pi_fd = to_int (parm1 c), pi_dest = parm2 c,
     pi_size = parm5 c, pi_i_ino = - 1, pi_offset = 0, pi_seq_num = seq, pi_depends_on = 0,
     pi_res = 0\<rparr>"

definition us_note_read :: "u32 \<Rightarrow> i32 \<Rightarrow> u64 \<Rightarrow> user \<Rightarrow> user" where
  "us_note_read pid fd n s =
     (case hm_lookup (us_fd_map s) pid of
        Some fi \<Rightarrow> s\<lparr>us_fd_map := hm_store (us_fd_map s) pid
            \<lparr>uf_total = uf_total fi + n, uf_batched = uf_batched fi + 1, uf_fd = fd\<rparr>\<rparr>
      | None \<Rightarrow> s\<lparr>us_fd_map := snd (hm_update (us_fd_map s) pid
            \<lparr>uf_total = n, uf_batched = 1, uf_fd = fd\<rparr>)\<rparr>)"

definition us_preadRaw :: "bpf_ctx \<Rightarrow> user \<Rightarrow> int \<times> user" where
  "us_preadRaw c s =
     (if \<not> us_overridden s then (0, s)
      else
        let s = emit (ProbeWriteUser (parm4 c) [bool_byte (us_overridden s)]) s;
            info = read_info c (us_seq s);
            s = s\<lparr>us_seq := us_seq s + 1\<rparr>;
            s = emit (RingbufOutput ''pread_prepare_ringbuf'' (prep_bytes info)) s
        in (0, us_note_read (cur_pid c) (to_int (parm1 c)) (parm5 c) s))"

definition us_batchSubmit :: "bpf_ctx \<Rightarrow> user \<Rightarrow> int \<times> user" where
  "us_batchSubmit c s =
     (case hm_lookup (us_fd_map s) (cur_pid c) of
        None \<Rightarrow> (0, s)
      | Some fi \<Rightarrow>
          let s = (if us_overridden s
                   then snd (us_handle_batched_ops c
                          (emit (ProbeWriteUser (parm1 c) (le_bytes 8 (uf_total fi))) s))
                   else s)
          in (0, s\<lparr>us_overridden := False\<rparr>))"

datatype user_ev = UsReadS bpf_ctx | UsPreadRaw bpf_ctx | UsBatchSubmit bpf_ctx

fun user_step :: "u64 \<Rightarrow> user_ev \<Rightarrow> user \<Rightarrow> int \<times> user" where
  "user_step target (UsReadS c) s = us_readS target c s"
| "user_step target (UsPreadRaw c) s = us_preadRaw c s"
| "user_step target (UsBatchSubmit c) s = us_batchSubmit c s"

section \<open>String comparison\<close>

lemma schar_inj:
  assumes "schar a = schar b" shows "a = b"
proof -
  have "(of_nat (of_char a) :: u8) = of_nat (of_char b)"
    using assms unfolding schar_def by (rule signed_word_eqI)
  then have "unat (of_nat (of_char a) :: u8) = unat (of_nat (of_char b) :: u8)" by simp
  moreover have "(of_char a :: nat) < 256" "(of_char b :: nat) < 256" by simp_all
  ultimately have "(of_char a :: nat) = of_char b" by (simp add: unat_of_nat)
  then show ?thesis by simp
qed

lemma strcmp_loop_spec:
  assumes "c_strlen s1 = Some n1" and "c_strlen s2 = Some n2"
  shows "\<exists>d. strcmp_loop k s1 s2 = Some d
    \<and> (d = 0 \<longleftrightarrow> take k (c_text s1) = take k (c_text s2))"
  using assms
proof (induction k s1 s2 arbitrary: n1 n2 rule: strcmp_loop.induct)
  case (2 k a s1 b s2)
  consider "a \<noteq> b" | "a = b" "a = NUL" | "a = b" "a \<noteq> NUL" by blast
  then show ?case
  proof cases
    case 1
    then have "schar a - schar b \<noteq> 0" using schar_inj by force
    with 1 show ?thesis by (cases "a = NUL"; cases "b = NUL") (simp_all add: c_text_Cons)
  next
    case 2
    then show ?thesis by (simp add: c_text_Cons)
  next
    case 3
    then obtain m1 m2 where "c_strlen s1 = Some m1" "c_strlen s2 = Some m2"
      using "2.prems" by (auto simp: map_option_case split: option.splits)
    with "2.IH" [of m1 m2] 3 show ?thesis by (simp add: c_text_Cons)
  qed
qed simp_all

section \<open>Lemmas\<close>

lemma length_prep_bytes [simp]: "length (prep_bytes i) = 56"
  by (simp add: prep_bytes_def)

text \<open>
  On two NUL-terminated strings \<open>bpf_strcmp\<close> stays inside both arrays and returns 0 exactly
  when the strings agree on their first 128 characters.
\<close>

theorem bpf_strcmp_decides_equality:
  assumes "c_strlen s1 = Some n1" and "c_strlen s2 = Some n2"
  shows "\<exists>d. bpf_strcmp s1 s2 = Some d \<and> (d = 0 \<longleftrightarrow> take 128 (c_text s1) = take 128 (c_text s2))"
  using strcmp_loop_spec [OF assms, of 128] by (simp add: bpf_strcmp_def MAX_STR_LEN_def)

theorem bpf_strcmp_decides_equality_witness:
  "\<exists>d. bpf_strcmp (''read'' @ [NUL]) (''rear'' @ [NUL]) = Some d \<and> d \<noteq> 0"
proof -
  have "c_strlen (''read'' @ [NUL]) = Some 4" "c_strlen (''rear'' @ [NUL]) = Some 4" by simp_all
  from bpf_strcmp_decides_equality [OF this] show ?thesis by (auto simp: c_text_def)
qed

text \<open>
  \<open>readS\<close> compares addresses, not names: as long as no caller passes the address of the probe's
  own stack array, no pread is ever taken over. Whatever the sequence of events, nothing is put on
  the two ring buffers, and all the program writes into ClickHouse is "not overridden".
\<close>

lemma inert:
  assumes "\<forall>c. UsReadS c \<in> set es \<longrightarrow> parm1 c \<noteq> target"
  shows "list_all (\<lambda>e. \<exists>a. e = ProbeWriteUser a [0])
           (blog (fold (\<lambda>e s. snd (user_step target e s)) es user_loaded))
    \<and> us_seq (fold (\<lambda>e s. snd (user_step target e s)) es user_loaded) = 0"
proof -
  define P where "P s \<longleftrightarrow> list_all (\<lambda>e. \<exists>a. e = ProbeWriteUser a [0]) (blog s)
      \<and> us_seq s = 0 \<and> \<not> us_overridden s \<and> hm_entries (us_fd_map s) = []" for s :: user
  have "P s \<Longrightarrow> P (fold (\<lambda>e s. snd (user_step target e s)) es s)" for s
    using assms
  proof (induction es arbitrary: s)
    case (Cons e es)
    have "P (snd (user_step target e s))"
      using Cons.prems
      by (cases e) (auto simp: P_def us_readS_def us_preadRaw_def us_batchSubmit_def emit_def
          bool_byte_def hm_lookup_def)
    with Cons show ?case by simp
  qed simp
  moreover have "P user_loaded" by (simp add: P_def user_loaded_def hm_empty_def)
  ultimately show ?thesis unfolding P_def by blast
qed

definition sample_call :: bpf_ctx where
  "sample_call = \<lparr>parm1 = 7, parm2 = 4096, parm3 = 0, parm4 = 8192, parm5 = 100,
     cur_pid_tgid = push_bit 32 42, ktime_ns = 0\<rparr>"

section \<open>Totals\<close>

definition us_reads :: "bpf_ctx list \<Rightarrow> user \<Rightarrow> user" where
  "us_reads cs s = fold (\<lambda>c s. snd (us_preadRaw c s)) cs s"

lemma us_preadRaw_on:
  assumes "us_overridden s"
  shows "us_overridden (snd (us_preadRaw c s))"
    "us_fd_map (snd (us_preadRaw c s))
       = us_fd_map (us_note_read (cur_pid c) (to_int (parm1 c)) (parm5 c) s)"
    "blog (snd (us_preadRaw c s)) = blog s @ [ProbeWriteUser (parm4 c) [1],
       RingbufOutput ''pread_prepare_ringbuf'' (prep_bytes (read_info c (us_seq s)))]"
    "us_seq (snd (us_preadRaw c s)) = us_seq s + 1"
  using assms
  by (auto simp: us_preadRaw_def us_note_read_def Let_def emit_def bool_byte_def split: option.split)

lemma us_reads_total:
  assumes "us_overridden s" and "hm_lookup (us_fd_map s) pid = Some fi"
    and "\<forall>c \<in> set cs. cur_pid c = pid"
  shows "\<exists>fi'. hm_lookup (us_fd_map (us_reads cs s)) pid = Some fi'
     \<and> uf_total fi' = uf_total fi + sum_list (map parm5 cs)
     \<and> uf_batched fi' = uf_batched fi + of_nat (length cs)
     \<and> us_overridden (us_reads cs s)"
  using assms
proof (induction cs arbitrary: s fi)
  case (Cons c cs)
  let ?fi = "\<lparr>uf_total = uf_total fi + parm5 c, uf_batched = uf_batched fi + 1, uf_fd = to_int (parm1 c)\<rparr>"
  have "hm_lookup (us_fd_map (snd (us_preadRaw c s))) pid = Some ?fi"
    using Cons.prems hash_map.lookup_store [of "us_fd_map s" pid ?fi pid]
    by (simp add: us_preadRaw_on us_note_read_def)
  from Cons.IH [OF us_preadRaw_on(1) [OF Cons.prems(1)] this] Cons.prems(3) show ?case
    by (auto simp: us_reads_def algebra_simps)
qed (simp add: us_reads_def)

lemma batch_log:
  assumes "us_overridden s" and "hm_lookup (us_fd_map s) pid = None" and "hm_room pid (us_fd_map s)"
    and "\<forall>c \<in> set (c0 # cs). cur_pid c = pid" and "cur_pid b = pid"
  shows "blog (snd (us_batchSubmit b (us_reads (c0 # cs) s))) = blog (us_reads (c0 # cs) s) @
      [ProbeWriteUser (parm1 b) (le_bytes 8 (sum_list (map parm5 (c0 # cs)))),
       RingbufOutput ''pread_submit_batch_ringbuf'' (le_bytes 4 pid)]"
proof -
  let ?fi = "\<lparr>uf_total = parm5 c0, uf_batched = 1, uf_fd = to_int (parm1 c0)\<rparr>"
  have "hm_lookup (us_fd_map (snd (us_preadRaw c0 s))) pid = Some ?fi"
    using assms hash_map.lookup_update [of pid "us_fd_map s" ?fi pid]
    by (simp add: us_preadRaw_on us_note_read_def)
  from us_reads_total [OF us_preadRaw_on(1) [OF assms(1)] this, of cs] assms(4)
  obtain fi' where "hm_lookup (us_fd_map (us_reads (c0 # cs) s)) pid = Some fi'"
      "uf_total fi' = sum_list (map parm5 (c0 # cs))" "us_overridden (us_reads (c0 # cs) s)"
    by (auto simp: us_reads_def)
  then show ?thesis
    using assms(5) by (simp add: us_batchSubmit_def us_handle_batched_ops_def Let_def emit_def)
qed

text \<open>
  The totals of the ring-buffer version are kept per process and accumulate: after any positive
  number of overridden preads of a process with no entry yet, \<open>batchSubmit\<close> tells ClickHouse the
  sum of all their sizes (modulo 2 to the 64) and puts one submit record with the process id on the
  ring buffer.
\<close>

theorem user_batch_total:
  assumes "us_overridden s" and "hm_lookup (us_fd_map s) pid = None" and "hm_room pid (us_fd_map s)"
    and "\<forall>c \<in> set (c0 # cs). cur_pid c = pid" and "cur_pid b = pid"
  shows "blog (snd (us_batchSubmit b (us_reads (c0 # cs) s))) = blog (us_reads (c0 # cs) s) @
      [ProbeWriteUser (parm1 b) (le_bytes 8 (sum_list (map parm5 (c0 # cs)))),
       RingbufOutput ''pread_submit_batch_ringbuf'' (le_bytes 4 pid)]"
  by (rule batch_log [OF assms])

theorem user_batch_total_witness:
  "\<exists>lg. blog (snd (us_batchSubmit sample_call
       (us_reads [sample_call, sample_call] (user_loaded\<lparr>us_overridden := True\<rparr>))))
     = lg @ [ProbeWriteUser 7 (le_bytes 8 (200 :: u64)),
             RingbufOutput ''pread_submit_batch_ringbuf'' (le_bytes 4 (42 :: u32))]"
  using user_batch_total [of "user_loaded\<lparr>us_overridden := True\<rparr>" 42 sample_call "[sample_call]" sample_call]
  by (simp add: sample_call_def user_loaded_def hm_empty_def hm_lookup_def hm_room_def cur_pid_def)

end
