(* ===== verification/Sys_Runtime.thy ===== *)
theory Sys_Runtime
  imports Complex_Main Prelude
begin

text \<open>
  What the user-space programs of the repository call: the C library and the system calls, the
  liburing interface and libbpf. All of it is outside the repository, so a program is run
  against an environment that answers each call from the history of calls and answers so far;
  the history is the observable behaviour. Memory the callee fills is part of the answer.
\<close>

section \<open>Calls and answers\<close>

datatype posix_call =
    Open string int int | Close int | Read int nat | Pread int nat int | Write int "u8 list"
  | Fsync int | Fstat int | Time | Clock | GetTimeOfDay | Sleep nat | Perror string
  | Print string | PrintErr string | PrintInt string int
  | Socket | InetPton string | Connect int | Bind int | Listen int nat | Accept int
  | Send int "u8 list" | Recv int nat | Shutdown int | SetRecvTimeout int nat
  | Memalign nat nat | Free | Mkstemp string | Unlink string | Getpid | SignalInt
  | Probe string int
  | Getdents64 int nat | Fstatat int string int | ClockGettime | PrintReal string rat int

datatype uring_call =
    QueueInit nat | GetSqe | PrepRead int u64 u32 u64 | PrepWrite int u64 u32 u64
  | PrepSend int u64 u32 | PrepRecv int u64 u32 | PrepFsync int | SetLink | SetUserData nat
  | Submit | SubmitAndWait nat | WaitCqe | PeekCqe | CqeSeen | QueueExit

text \<open>A performance event as the attach code fills it in.\<close>

record perf_attr =
  pa_type :: u32
  pa_config :: u64
  pa_config1 :: string
  pa_config2 :: u64

datatype libbpf_call =
    SetPrint | SkelOpen string | SkelLoad string | SkelAttach string | SkelDestroy string
  | SetBss string int | AddBss string int | GetBss string
  | ElfFindFunc string string | PerfEventOpen perf_attr int int int | ProgAttach string int
  | AttachUsdt string int string string string | AttachUprobe string bool int string u64
  | MapFd string | MapUpdate int u32 u32 | MapLookup int u32
  | RbNew string | RbPoll string int | RbFree string

datatype sys_call = Px posix_call | Ur uring_call | Lb libbpf_call

text \<open>\<open>rv\<close> is the returned value (0 for a NULL pointer), \<open>dat\<close> and \<open>aux\<close> what is stored
  through the pointer arguments: read data, the size of a file, the result of a completion.\<close>

record answer =
  rv :: int
  errno :: int
  aux :: int
  dat :: "u8 list"

type_synonym history = "(sys_call \<times> answer) list"
type_synonym sys_env = "history \<Rightarrow> sys_call \<Rightarrow> answer"

record sys =
  hist :: history

definition call :: "sys_env \<Rightarrow> sys_call \<Rightarrow> 'a sys_scheme \<Rightarrow> answer \<times> 'a sys_scheme" where
  "call env e s = (env (hist s) e, s\<lparr>hist := hist s @ [(e, env (hist s) e)]\<rparr>)"

text \<open>A call whose answer the program ignores.\<close>

definition do_call :: "sys_env \<Rightarrow> sys_call \<Rightarrow> 'a sys_scheme \<Rightarrow> 'a sys_scheme" where
  "do_call env e s = snd (call env e s)"

definition fresh :: sys where
  "fresh = \<lparr>hist = []\<rparr>"

text \<open>Conversions of the C integer types.\<close>

definition c_int :: "int \<Rightarrow> int" where
  "c_int x = sint (word_of_int x :: i32)"

lemma c_int_id [simp]: "- (2 ^ 31) \<le> x \<Longrightarrow> x < 2 ^ 31 \<Longrightarrow> c_int x = x"
  by (simp add: c_int_def sint_sbintrunc' signed_take_bit_int_eq_self)

section \<open>Histories\<close>

definition calls :: "history \<Rightarrow> sys_call list" where
  "calls h = map fst h"

lemma calls_append [simp]: "calls (xs @ ys) = calls xs @ calls ys"
  by (simp add: calls_def)

lemma calls_Nil [simp]: "calls [] = []"
  by (simp add: calls_def)

lemma calls_Cons [simp]: "calls ((e, a) # h) = e # calls h"
  by (simp add: calls_def)

lemma hist_call [simp]: "hist (snd (call env e s)) = hist s @ [(e, env (hist s) e)]"
  by (simp add: call_def)

lemma fst_call [simp]: "fst (call env e s) = env (hist s) e"
  by (simp add: call_def)

lemma hist_do_call [simp]: "hist (do_call env e s) = hist s @ [(e, env (hist s) e)]"
  by (simp add: do_call_def)

lemma calls_do_call [simp]: "calls (hist (do_call env e s)) = calls (hist s) @ [e]"
  by (simp add: do_call_def call_def)

text \<open>
  The submission queue as liburing documents it: \<open>io_uring_get_sqe\<close> returns NULL when the queue
  is full, and a submit empties it. \<open>unsubmitted\<close> counts the entries handed out since.
\<close>

fun unsubmitted_from :: "nat \<Rightarrow> history \<Rightarrow> nat" where
  "unsubmitted_from n [] = n"
| "unsubmitted_from n ((e, a) # h) =
     (case e of
        Ur GetSqe \<Rightarrow> unsubmitted_from (if rv a = 0 then n else Suc n) h
      | Ur Submit \<Rightarrow> unsubmitted_from (if rv a < 0 then n else 0) h
      | Ur (SubmitAndWait m) \<Rightarrow> unsubmitted_from (if rv a < 0 then n else 0) h
      | Ur (QueueInit m) \<Rightarrow> unsubmitted_from 0 h
      | _ \<Rightarrow> unsubmitted_from n h)"

definition unsubmitted :: "history \<Rightarrow> nat" where
  "unsubmitted h = unsubmitted_from 0 h"

lemma unsubmitted_from_append:
  "unsubmitted_from n (xs @ ys) = unsubmitted_from (unsubmitted_from n xs) ys"
  by (induction n xs rule: unsubmitted_from.induct)
    (auto split: sys_call.split uring_call.split)

lemma unsubmitted_append [simp]: "unsubmitted (h @ es) = unsubmitted_from (unsubmitted h) es"
  by (simp add: unsubmitted_def unsubmitted_from_append)

lemma unsubmitted_Nil [simp]: "unsubmitted [] = 0"
  by (simp add: unsubmitted_def)

definition sq_law :: "nat \<Rightarrow> sys_env \<Rightarrow> bool" where
  "sq_law depth env \<longleftrightarrow>
     (\<forall>h. rv (env h (Ur GetSqe)) \<noteq> 0 \<longleftrightarrow> unsubmitted h < depth)"

text \<open>Submits of a history that never fail.\<close>

definition submit_law :: "sys_env \<Rightarrow> bool" where
  "submit_law env \<longleftrightarrow> (\<forall>h n. 0 \<le> rv (env h (Ur (SubmitAndWait n)))) \<and> (\<forall>h. 0 \<le> rv (env h (Ur Submit)))"

lemma call_pair: "call env e s = (env (hist s) e, do_call env e s)"
  by (simp add: call_def do_call_def)

section \<open>Splitting a file into blocks\<close>

text \<open>The blocks of size \<open>b\<close> of the bytes from \<open>off\<close> to \<open>n\<close>: offset and length of each.\<close>

definition blocks :: "int \<Rightarrow> int \<Rightarrow> int \<Rightarrow> (int \<times> int) list" where
  "blocks b off n = map (\<lambda>i. (off + b * int i, min b (n - off - b * int i)))
     [0..<nat ((n - off + b - 1) div b)]"

lemma blocks_done: "0 < b \<Longrightarrow> n \<le> off \<Longrightarrow> blocks b off n = []"
proof -
  assume b: "0 < b" "n \<le> off"
  then have "(n - off + b - 1) div b \<le> (b - 1) div b" by (intro zdiv_mono1) simp_all
  also have "(b - 1) div b = 0" using b by simp
  finally have "(n - off + b - 1) div b \<le> 0" .
  then show ?thesis by (simp add: blocks_def)
qed

lemma blocks_step:
  assumes "0 < b" and "off < n"
  shows "blocks b off n = (off, min b (n - off)) # blocks b (off + min b (n - off)) n"
proof (cases "n \<le> off + b")
  case True
  then have "(n - off + b - 1) div b = 1"
    using assms int_div_pos_eq [of "n - off + b - 1" b 1 "n - off - 1"] by simp
  then show ?thesis using assms True by (simp add: blocks_def blocks_done)
next
  case False
  let ?k = "(n - (off + b) + b - 1) div b"
  have "0 \<le> ?k" using assms False by (intro pos_imp_zdiv_nonneg_iff [THEN iffD2]) simp_all
  moreover have "(n - off + b - 1) div b = ?k + 1"
    using assms div_add_self2 [of b "n - (off + b) + b - 1"] by (simp add: algebra_simps)
  ultimately have k: "nat ((n - off + b - 1) div b) = Suc (nat ?k)" by simp
  have u: "[0..<Suc (nat ?k)] = 0 # map Suc [0..<nat ?k]"
    by (simp add: upt_conv_Cons map_Suc_upt del: upt_Suc)
  have m: "min b (n - off) = b" using False by simp
  show ?thesis unfolding blocks_def k u m by (simp add: m o_def algebra_simps)
qed

text \<open>Together the blocks are the whole file.\<close>

lemma blocks_total:
  assumes "0 < b" shows "off \<le> n \<Longrightarrow> sum_list (map snd (blocks b off n)) = n - off"
proof (induction "nat (n - off)" arbitrary: off rule: less_induct)
  case less
  show ?case
  proof (cases "off < n")
    case True
    then have "sum_list (map snd (blocks b (off + min b (n - off)) n)) = n - (off + min b (n - off))"
      using assms by (intro less.hyps) auto
    then show ?thesis using True assms by (simp add: blocks_step)
  next
    case False
    then show ?thesis using less.prems assms by (simp add: blocks_done)
  qed
qed

end
