(* ===== verification/Attach_Override.thy ===== *)
theory Attach_Override
  imports Sys_Runtime
begin

text \<open>
  \<open>attach_override.h\<close>, four copies (\<open>IO_syscall_patch\<close>, \<open>clickhouse-iouring\<close>,
  \<open>iouring_hotpatch\<close>, \<open>simple_override\<close>): find a function in a binary, open a perf event of
  bpftime's override type on it and attach a program. The copies differ in one message.
\<close>

definition PERF_UPROBE_REF_CTR_OFFSET_BITS :: nat where
  "PERF_UPROBE_REF_CTR_OFFSET_BITS = 32"

definition PERF_UPROBE_REF_CTR_OFFSET_SHIFT :: nat where
  "PERF_UPROBE_REF_CTR_OFFSET_SHIFT = 32"

definition BPF_TYPE_UPROBE_OVERRIDE :: int where
  "BPF_TYPE_UPROBE_OVERRIDE = 1008"

definition EINVAL :: int where
  "EINVAL = 22"

text \<open>The pointer \<open>config1\<close> is the path it points to; the size and the flags are constants.\<close>

definition perf_event_open_with_override ::
    "sys_env \<Rightarrow> string \<Rightarrow> u64 \<Rightarrow> int \<Rightarrow> u64 \<Rightarrow> int \<Rightarrow> 'a sys_scheme \<Rightarrow> int \<times> 'a sys_scheme" where
  "perf_event_open_with_override env name offset pid ref_ctr_off type s =
     (if ref_ctr_off \<ge> push_bit PERF_UPROBE_REF_CTR_OFFSET_BITS 1 then (- EINVAL, s)
      else
        let attr = \<lparr>pa_type = word_of_int type,
              pa_config = or 0 (push_bit PERF_UPROBE_REF_CTR_OFFSET_SHIFT ref_ctr_off),
              pa_config1 = name, pa_config2 = offset\<rparr>;
            (a, s) = call env (Lb (PerfEventOpen attr (if pid < 0 then - 1 else pid)
                       (if pid = - 1 then 0 else - 1) (- 1))) s;
            pfd = c_int (rv a)
        in (if 0 \<le> pfd then pfd else - errno a, s))"

definition bpf_prog_attach_with_override ::
    "string \<Rightarrow> sys_env \<Rightarrow> string \<Rightarrow> string \<Rightarrow> string \<Rightarrow> int \<Rightarrow> 'a sys_scheme \<Rightarrow> int \<times> 'a sys_scheme" where
  "bpf_prog_attach_with_override open_msg env prog binary_path name type s =
     (let (a, s) = call env (Lb (ElfFindFunc binary_path name)) s;
          offset = c_int (rv a) in
      if offset < 0 then (offset, s)
      else
        let s = do_call env (Px (PrintInt ''offset: %d'' offset)) s;
            (res, s) = perf_event_open_with_override env binary_path (word_of_int offset) (- 1) 0 type s in
        if res < 0 then (res, do_call env (Px (PrintInt open_msg res)) s)
        else
          let (a, s) = call env (Lb (ProgAttach prog res)) s; res = c_int (rv a) in
          if res < 0 then (res, do_call env (Px (PrintInt ''bpf_prog_attach failed: %d'' res)) s)
          else (0, s))"

definition bpf_prog_attach_uprobe_with_override ::
    "sys_env \<Rightarrow> string \<Rightarrow> string \<Rightarrow> string \<Rightarrow> 'a sys_scheme \<Rightarrow> int \<times> 'a sys_scheme" where
  "bpf_prog_attach_uprobe_with_override env prog binary_path name s =
     bpf_prog_attach_with_override ''perf_event_open_with_override failed: %d'' env prog
       binary_path name BPF_TYPE_UPROBE_OVERRIDE s"

text \<open>The copies of the other three directories.\<close>

definition ci_attach_with_override ::
    "sys_env \<Rightarrow> string \<Rightarrow> string \<Rightarrow> string \<Rightarrow> 'a sys_scheme \<Rightarrow> int \<times> 'a sys_scheme" where
  "ci_attach_with_override env prog binary_path name s =
     bpf_prog_attach_with_override ''perf_event_open_error_inject failed: %d'' env prog
       binary_path name BPF_TYPE_UPROBE_OVERRIDE s"

definition hp_attach_with_override ::
    "sys_env \<Rightarrow> string \<Rightarrow> string \<Rightarrow> string \<Rightarrow> 'a sys_scheme \<Rightarrow> int \<times> 'a sys_scheme" where
  "hp_attach_with_override env prog binary_path name s =
     bpf_prog_attach_with_override ''perf_event_open_error_inject failed: %d'' env prog
       binary_path name BPF_TYPE_UPROBE_OVERRIDE s"

definition so_attach_with_override ::
    "sys_env \<Rightarrow> string \<Rightarrow> string \<Rightarrow> string \<Rightarrow> 'a sys_scheme \<Rightarrow> int \<times> 'a sys_scheme" where
  "so_attach_with_override env prog binary_path name s =
     bpf_prog_attach_with_override ''perf_event_open_error_inject failed: %d'' env prog
       binary_path name BPF_TYPE_UPROBE_OVERRIDE s"

section \<open>The perf event\<close>

text \<open>The attribute the attach code opens for a function at an offset.\<close>

definition override_attr :: "string \<Rightarrow> u64 \<Rightarrow> perf_attr" where
  "override_attr path off = \<lparr>pa_type = 1008, pa_config = 0, pa_config1 = path, pa_config2 = off\<rparr>"

lemma open_override:
  "perf_event_open_with_override env path off (- 1) 0 BPF_TYPE_UPROBE_OVERRIDE s =
     (let e = Lb (PerfEventOpen (override_attr path off) (- 1) 0 (- 1)); a = env (hist s) e;
          pfd = c_int (rv a)
      in (if 0 \<le> pfd then pfd else - errno a, do_call env e s))"
  by (simp add: perf_event_open_with_override_def call_pair override_attr_def Let_def
      PERF_UPROBE_REF_CTR_OFFSET_BITS_def BPF_TYPE_UPROBE_OVERRIDE_def)

lemma shifted_config:
  assumes "unat (r :: u64) < 2 ^ 32"
  shows "unat (or 0 (push_bit 32 r)) = unat r * 2 ^ 32"
proof -
  have "unat r * 4294967296 < 18446744073709551616" using assms by simp
  then show ?thesis by (simp add: push_bit_eq_mult unat_word_ariths)
qed

text \<open>
  Opening the event never loses bits of the reference counter offset: one that needs more than
  32 bits is refused with \<open>-EINVAL\<close> before any system call; otherwise exactly one event is opened,
  for the given path and offset, whose configuration holds the offset in its upper half.
\<close>

theorem perf_event_config:
  "(2 ^ 32 \<le> unat r \<longrightarrow> perf_event_open_with_override env name off pid r ty s = (- 22, s))
   \<and> (unat r < 2 ^ 32 \<longrightarrow> (\<exists>attr p c. calls (hist (snd (perf_event_open_with_override env name off pid r ty s)))
          = calls (hist s) @ [Lb (PerfEventOpen attr p c (- 1))]
        \<and> pa_config1 attr = name \<and> pa_config2 attr = off \<and> unat (pa_config attr) = unat r * 2 ^ 32))"
proof -
  have g: "push_bit 32 1 \<le> r \<longleftrightarrow> 2 ^ 32 \<le> unat r"
    by (simp add: word_le_nat_alt push_bit_eq_mult)
  show ?thesis
  proof (cases "2 ^ 32 \<le> unat r")
    case True
    with g show ?thesis
      by (simp add: perf_event_open_with_override_def PERF_UPROBE_REF_CTR_OFFSET_BITS_def EINVAL_def)
  next
    case False
    with g shifted_config [of r] show ?thesis
      by (simp add: perf_event_open_with_override_def PERF_UPROBE_REF_CTR_OFFSET_BITS_def
          PERF_UPROBE_REF_CTR_OFFSET_SHIFT_def call_pair Let_def)
  qed
qed

theorem perf_event_config_witness:
  "perf_event_open_with_override (\<lambda>_ _. \<lparr>rv = 5, errno = 0, aux = 0, dat = []\<rparr>) ''libc.so.6'' 64 (- 1)
     4294967296 1008 fresh = (- 22, fresh)"
  using perf_event_config [of 4294967296] by simp

section \<open>Attaching\<close>

text \<open>
  C36: when libbpf finds the function at an offset below 2 to the 31, the attach opens one event of
  the override type at that offset for all processes and attaches the program to the descriptor
  the kernel returned; it succeeds with 0.
\<close>

theorem attach_at_function_offset:
  assumes "rv (env (hist s) (Lb (ElfFindFunc path name))) = off" and "0 \<le> off" and "off < 2 ^ 31"
    and "\<forall>h a p c g. rv (env h (Lb (PerfEventOpen a p c g))) = fd" and "0 \<le> fd" and "fd < 2 ^ 31"
    and "\<forall>h. rv (env h (Lb (ProgAttach prog fd))) = 0"
  shows "fst (bpf_prog_attach_uprobe_with_override env prog path name s) = 0
    \<and> calls (hist (snd (bpf_prog_attach_uprobe_with_override env prog path name s))) = calls (hist s) @
       [Lb (ElfFindFunc path name), Px (PrintInt ''offset: %d'' off),
        Lb (PerfEventOpen (override_attr path (word_of_int off)) (- 1) 0 (- 1)), Lb (ProgAttach prog fd)]"
  using assms
  by (simp add: bpf_prog_attach_uprobe_with_override_def bpf_prog_attach_with_override_def call_pair
      open_override Let_def)

theorem attach_at_function_offset_witness:
  "fst (bpf_prog_attach_uprobe_with_override
     (\<lambda>h e. \<lparr>rv = (case e of Lb (ElfFindFunc p f) \<Rightarrow> 4096 | Lb (PerfEventOpen a p c g) \<Rightarrow> 7 | _ \<Rightarrow> 0),
        errno = 0, aux = 0, dat = []\<rparr>) ''bpf_write_patch'' ''libc.so.6'' ''write'' fresh) = 0"
  by (rule attach_at_function_offset [where off = 4096 and fd = 7, THEN conjunct1]) simp_all

text \<open>
  C37: the offset is stored in an \<open>int\<close>: a function that lies 2 to the 31 bytes or more into its
  binary, but less than 2 to the 32, is never attached; its truncated offset is returned as if it
  were an error code, and no event is opened.
\<close>

theorem large_offset_is_refused:
  assumes "rv (env (hist s) (Lb (ElfFindFunc path name))) = off" and "2 ^ 31 \<le> off" and "off < 2 ^ 32"
  shows "fst (bpf_prog_attach_uprobe_with_override env prog path name s) = off - 2 ^ 32
    \<and> calls (hist (snd (bpf_prog_attach_uprobe_with_override env prog path name s)))
      = calls (hist s) @ [Lb (ElfFindFunc path name)]"
proof -
  have "c_int off = off - 2 ^ 32"
  proof -
    have "(word_of_int off :: i32) = word_of_int (off - 2 ^ 32)"
      by (simp add: word_of_int_eq_iff take_bit_eq_mod)
    then have "c_int off = c_int (off - 2 ^ 32)" unfolding c_int_def by (rule arg_cong)
    also have "\<dots> = off - 2 ^ 32" using assms by (intro c_int_id) simp_all
    finally show ?thesis .
  qed
  then show ?thesis using assms
    by (simp add: bpf_prog_attach_uprobe_with_override_def bpf_prog_attach_with_override_def call_pair)
qed

theorem large_offset_is_refused_witness:
  "fst (bpf_prog_attach_uprobe_with_override (\<lambda>_ _. \<lparr>rv = 4294967291, errno = 0, aux = 0, dat = []\<rparr>)
     ''overrideTrace'' ''clickhouse'' ''main'' fresh) = - 5"
  by (rule large_offset_is_refused [where off = 4294967291, THEN conjunct1, THEN trans]) simp_all

end
