(* ===== verification/User_Daemon.thy ===== *)
theory User_Daemon
  imports Sys_Runtime User_Bpf
begin

text \<open>
  \<open>IO_syscall_patch/user.c\<close>: the ring-buffer consumers of the daemon that prepares and submits
  the preads recorded by \<open>user.bpf.c\<close> on its own io_uring.
\<close>

record daemon = sys +
  batch_count :: u64

definition daemon_start :: daemon where
  "daemon_start = \<lparr>hist = [], batch_count = 0\<rparr>"

text \<open>The cast \<open>(struct pread_prepare_info *)data\<close>.\<close>

definition read_prep :: "u8 list \<Rightarrow> prep_info" where
  "read_prep d = \<lparr>pi_pid = read32 d 0, pi_fd = read32 d 4, pi_dest = read64 d 8,
     pi_size = read64 d 16, pi_i_ino = read64 d 24, pi_offset = read64 d 32,
     pi_seq_num = read32 d 40, pi_depends_on = read32 d 44, pi_res = read32 d 48\<rparr>"

definition process_pread_prepare_info :: "sys_env \<Rightarrow> prep_info \<Rightarrow> daemon \<Rightarrow> daemon" where
  "process_pread_prepare_info env info s =
     (let (a, s) = call env (Ur GetSqe) s in
      if rv a = 0 then do_call env (Px (PrintErr ''Unable to get SQE'')) s
      else
        let s = do_call env (Ur (PrepRead (sint (pi_fd info)) (pi_dest info)
                  (ucast (pi_size info)) (pi_offset info))) s;
            s = do_call env (Ur SetLink) s
        in s\<lparr>batch_count := batch_count s + 1\<rparr>)"

text \<open>
  The loop that waits for the completions; \<open>True\<close> is the early return. The C counter is an
  \<open>int\<close>, compared as a \<open>size_t\<close>.
\<close>

definition see_cqe :: "sys_env \<Rightarrow> answer \<Rightarrow> daemon \<Rightarrow> daemon" where
  "see_cqe env a s =
     (let s = (if aux a < 0 then do_call env (Px (PrintErr ''Error in async operation'')) s else s)
      in do_call env (Ur CqeSeen) s)"

lemma batch_count_call [simp]:
  "batch_count (snd (call env e s)) = batch_count s" "batch_count (do_call env e s) = batch_count s"
  by (simp_all add: call_def do_call_def)

lemma batch_count_see [simp]: "batch_count (see_cqe env a s) = batch_count s"
  by (simp add: see_cqe_def)

lemma batch_count_call' [dest]: "(a, s') = call env e s \<Longrightarrow> batch_count s' = batch_count s"
  by (simp add: call_def)

function wait_batch :: "sys_env \<Rightarrow> u64 \<Rightarrow> daemon \<Rightarrow> bool \<times> daemon" where
  "wait_batch env i s =
     (if i < batch_count s then
        (let (a, s) = call env (Ur WaitCqe) s in
         if rv a < 0 then (True, do_call env (Px (PrintErr ''Error waiting for completion'')) s)
         else wait_batch env (i + 1) (see_cqe env a s))
      else (False, s))"
  by pat_completeness auto

termination
  by (relation "measure (\<lambda>(env, i, s). unat (batch_count s) - unat i)")
    (auto simp: unat_suc_less word_less_nat_alt dest!: batch_count_call')

declare wait_batch.simps [simp del]

definition process_pread_submit_info :: "sys_env \<Rightarrow> u32 \<Rightarrow> daemon \<Rightarrow> int \<times> daemon" where
  "process_pread_submit_info env pid s =
     (if batch_count s = 0 then (0, s)
      else
        let s = do_call env (Ur Submit) s;
            (failed, s) = wait_batch env 0 s
        in if failed then (1, s) else (0, s\<lparr>batch_count := 0\<rparr>))"

definition handle_pread_prepare :: "sys_env \<Rightarrow> u8 list \<Rightarrow> daemon \<Rightarrow> int \<times> daemon" where
  "handle_pread_prepare env d s = (0, process_pread_prepare_info env (read_prep d) s)"

definition handle_pread_submit :: "sys_env \<Rightarrow> u8 list \<Rightarrow> daemon \<Rightarrow> int \<times> daemon" where
  "handle_pread_submit env d s = (0, snd (process_pread_submit_info env (read32 d 0) s))"

section \<open>The wire format\<close>

lemma read_prep_bytes [simp]: "read_prep (prep_bytes i) = i"
  by (simp add: read_prep_def prep_bytes_def read32_def read64_def byte_at_def)

section \<open>Collecting a batch\<close>

definition is_wait :: "sys_call \<Rightarrow> bool" where
  "is_wait e \<longleftrightarrow> e = Ur WaitCqe"

definition is_seen :: "sys_call \<Rightarrow> bool" where
  "is_seen e \<longleftrightarrow> e = Ur CqeSeen"

lemma wait_batch_step:
  assumes "i < batch_count s" and "0 \<le> rv (env (hist s) (Ur WaitCqe))"
  shows "\<exists>es. wait_batch env i s = wait_batch env (i + 1) (s\<lparr>hist := hist s @ es\<rparr>)
     \<and> cnt is_wait (calls es) = 1 \<and> cnt is_seen (calls es) = 1 \<and> (\<forall>n. unsubmitted_from n es = n)"
proof -
  define a where "a = env (hist s) (Ur WaitCqe)"
  define s1 where "s1 = s\<lparr>hist := hist s @ [(Ur WaitCqe, a)]\<rparr>"
  have w: "wait_batch env i s = wait_batch env (i + 1) (see_cqe env a s1)"
    using assms by (subst wait_batch.simps) (simp add: call_def a_def s1_def)
  show ?thesis
  proof (cases "aux a < 0")
    case True
    then show ?thesis unfolding w see_cqe_def do_call_def call_def s1_def
      by (intro exI [of _ "[(Ur WaitCqe, a), (Px (PrintErr ''Error in async operation''), _), (Ur CqeSeen, _)]"])
        (simp add: is_wait_def is_seen_def)
  next
    case False
    then show ?thesis unfolding w see_cqe_def do_call_def call_def s1_def
      by (intro exI [of _ "[(Ur WaitCqe, a), (Ur CqeSeen, _)]"])
        (simp add: is_wait_def is_seen_def)
  qed
qed

lemma wait_batch_stop: "\<not> i < batch_count s \<Longrightarrow> wait_batch env i s = (False, s)"
  by (subst wait_batch.simps) simp

lemma wait_batch_fail:
  assumes "i < batch_count s" and "rv (env (hist s) (Ur WaitCqe)) < 0"
  shows "\<exists>es. wait_batch env i s = (True, s\<lparr>hist := hist s @ es\<rparr>) \<and> cnt is_seen (calls es) = 0"
  using assms by (subst wait_batch.simps, intro exI [of _ "[(Ur WaitCqe, _), (Px (PrintErr _), _)]"])
    (simp add: call_def do_call_def is_seen_def)

lemma wait_batch_ok:
  assumes "\<forall>h. 0 \<le> rv (env h (Ur WaitCqe))" and "i \<le> batch_count s"
  shows "\<exists>es. wait_batch env i s = (False, s\<lparr>hist := hist s @ es\<rparr>)
     \<and> cnt is_wait (calls es) = unat (batch_count s) - unat i
     \<and> cnt is_seen (calls es) = unat (batch_count s) - unat i
     \<and> (\<forall>n. unsubmitted_from n es = n)"
  using assms(2)
proof (induction "unat (batch_count s) - unat i" arbitrary: i s)
  case 0
  then have "\<not> i < batch_count s" by (simp add: word_less_nat_alt)
  with 0 show ?case by (intro exI [of _ "[]"]) (simp add: wait_batch_stop)
next
  case (Suc n)
  then have lt: "i < batch_count s" by (simp add: word_less_nat_alt)
  have u: "unat (i + 1) = unat i + 1" by (rule unat_suc_less [OF lt])
  obtain e0 where e0: "wait_batch env i s = wait_batch env (i + 1) (s\<lparr>hist := hist s @ e0\<rparr>)"
      "cnt is_wait (calls e0) = 1" "cnt is_seen (calls e0) = 1" "\<forall>n. unsubmitted_from n e0 = n"
    using wait_batch_step [OF lt, of env] assms(1) by blast
  have pre: "n = unat (batch_count (s\<lparr>hist := hist s @ e0\<rparr>)) - unat (i + 1)"
      "i + 1 \<le> batch_count (s\<lparr>hist := hist s @ e0\<rparr>)"
    using Suc.hyps(2) lt by (simp_all add: u word_le_nat_alt word_less_nat_alt)
  from Suc.hyps(1) [OF pre] obtain es where
    "wait_batch env (i + 1) (s\<lparr>hist := hist s @ e0\<rparr>) = (False, s\<lparr>hist := hist s @ e0 @ es\<rparr>)"
    "cnt is_wait (calls es) = n" "cnt is_seen (calls es) = n" "\<forall>m. unsubmitted_from m es = m"
    using pre by auto
  with e0 Suc.hyps(2) [symmetric] show ?case
    by (intro exI [of _ "e0 @ es"]) (simp add: unsubmitted_from_append)
qed

lemma wait_batch_any:
  "\<exists>r es. wait_batch env i s = (r, s\<lparr>hist := hist s @ es\<rparr>)
     \<and> (r \<longrightarrow> cnt is_seen (calls es) < unat (batch_count s) - unat i)"
proof (induction "unat (batch_count s) - unat i" arbitrary: i s)
  case 0
  then have "\<not> i < batch_count s" by (simp add: word_less_nat_alt)
  then show ?case by (intro exI [of _ False] exI [of _ "[]"]) (simp add: wait_batch_stop)
next
  case (Suc n)
  then have lt: "i < batch_count s" by (simp add: word_less_nat_alt)
  have u: "unat (i + 1) = unat i + 1" by (rule unat_suc_less [OF lt])
  show ?case
  proof (cases "rv (env (hist s) (Ur WaitCqe)) < 0")
    case True
    from wait_batch_fail [of i s env, OF lt this] lt show ?thesis by (force simp: word_less_nat_alt)
  next
    case False
    then obtain e0 where e0: "wait_batch env i s = wait_batch env (i + 1) (s\<lparr>hist := hist s @ e0\<rparr>)"
        "cnt is_seen (calls e0) = 1"
      using wait_batch_step [OF lt, of env] by auto
    have pre: "n = unat (batch_count (s\<lparr>hist := hist s @ e0\<rparr>)) - unat (i + 1)"
      using Suc.hyps(2) by (simp add: u)
    from Suc.hyps(1) [OF pre] obtain r es where
      "wait_batch env (i + 1) (s\<lparr>hist := hist s @ e0\<rparr>) = (r, s\<lparr>hist := hist s @ e0 @ es\<rparr>)"
      "r \<longrightarrow> cnt is_seen (calls es) < unat (batch_count s) - unat (i + 1)"
      by fastforce
    with e0 u lt show ?thesis
      by (intro exI [of _ r] exI [of _ "e0 @ es"]) (auto simp: word_less_nat_alt)
  qed
qed

section \<open>The consumers\<close>

text \<open>What the daemon does with one record of either ring buffer.\<close>

datatype daemon_ev = DPrepare "u8 list" | DSubmit "u8 list"

fun daemon_step :: "sys_env \<Rightarrow> daemon_ev \<Rightarrow> daemon \<Rightarrow> daemon" where
  "daemon_step env (DPrepare d) s = snd (handle_pread_prepare env d s)"
| "daemon_step env (DSubmit d) s = snd (handle_pread_submit env d s)"

lemma prepare_accepted:
  assumes "rv (env (hist s) (Ur GetSqe)) \<noteq> 0"
  shows "calls (hist (process_pread_prepare_info env info s)) = calls (hist s) @
      [Ur GetSqe, Ur (PrepRead (sint (pi_fd info)) (pi_dest info) (ucast (pi_size info)) (pi_offset info)),
       Ur SetLink]
    \<and> batch_count (process_pread_prepare_info env info s) = batch_count s + 1
    \<and> unsubmitted (hist (process_pread_prepare_info env info s)) = Suc (unsubmitted (hist s))"
  using assms by (simp add: process_pread_prepare_info_def call_pair Let_def)

lemma prepare_refused:
  assumes "rv (env (hist s) (Ur GetSqe)) = 0"
  shows "batch_count (process_pread_prepare_info env info s) = batch_count s
    \<and> unsubmitted (hist (process_pread_prepare_info env info s)) = unsubmitted (hist s)"
  using assms by (simp add: process_pread_prepare_info_def call_pair Let_def)

lemma submit_ok:
  assumes "\<forall>h. 0 \<le> rv (env h (Ur WaitCqe))"
  shows "\<exists>es. process_pread_submit_info env pid s = (0, s\<lparr>hist := hist s @ es, batch_count := 0\<rparr>)
    \<and> cnt is_wait (calls es) = unat (batch_count s) \<and> cnt is_seen (calls es) = unat (batch_count s)
    \<and> (es = [] \<and> batch_count s = 0
       \<or> (\<exists>a es'. es = (Ur Submit, a) # es' \<and> (\<forall>n. unsubmitted_from n es' = n)
            \<and> a = env (hist s) (Ur Submit)))"
proof (cases "batch_count s = 0")
  case True
  then show ?thesis by (intro exI [of _ "[]"]) (simp add: process_pread_submit_info_def)
next
  case False
  define s1 where "s1 = s\<lparr>hist := hist s @ [(Ur Submit, env (hist s) (Ur Submit))]\<rparr>"
  obtain es where "wait_batch env 0 s1 = (False, s1\<lparr>hist := hist s1 @ es\<rparr>)"
      "cnt is_wait (calls es) = unat (batch_count s)" "cnt is_seen (calls es) = unat (batch_count s)"
      "\<forall>n. unsubmitted_from n es = n"
    using wait_batch_ok [of env 0 s1, OF assms] by (auto simp: s1_def)
  moreover have "do_call env (Ur Submit) s = s1" by (simp add: do_call_def call_def s1_def)
  ultimately have "process_pread_submit_info env pid s
        = (0, s1\<lparr>hist := hist s1 @ es, batch_count := 0\<rparr>)"
      "cnt is_wait (calls es) = unat (batch_count s)" "cnt is_seen (calls es) = unat (batch_count s)"
      "\<forall>n. unsubmitted_from n es = n"
    using False by (simp_all add: process_pread_submit_info_def)
  then show ?thesis
    by (intro exI [of _ "(Ur Submit, env (hist s) (Ur Submit)) # es"])
      (simp add: s1_def is_wait_def is_seen_def)
qed

definition in_step :: "daemon \<Rightarrow> bool" where
  "in_step s \<longleftrightarrow> unat (batch_count s) = unsubmitted (hist s) \<and> unsubmitted (hist s) \<le> 1024"

lemma daemon_step_inv:
  assumes "sq_law 1024 env" "submit_law env" "\<forall>h. 0 \<le> rv (env h (Ur WaitCqe))" and "in_step s"
  shows "in_step (daemon_step env e s)"
proof (cases e)
  case (DPrepare d)
  show ?thesis
  proof (cases "rv (env (hist s) (Ur GetSqe)) = 0")
    case True
    with prepare_refused [of env s "read_prep d"] assms(4) DPrepare show ?thesis
      by (simp add: in_step_def handle_pread_prepare_def)
  next
    case False
    then have "unsubmitted (hist s) < 1024" using assms(1) by (simp add: sq_law_def)
    moreover from this assms(4) have "unat (batch_count s + 1) = unat (batch_count s) + 1"
      by (intro unat_plus_one) (simp add: in_step_def)
    ultimately show ?thesis
      using prepare_accepted [of env s "read_prep d", OF False] assms(4) DPrepare
      by (simp add: in_step_def handle_pread_prepare_def)
  qed
next
  case (DSubmit d)
  from submit_ok [of env "read32 d 0" s, OF assms(3)] assms(2,4) DSubmit show ?thesis
    by (auto simp: in_step_def handle_pread_submit_def submit_law_def not_le [symmetric])
qed

text \<open>
  C21: an overridden pread of ClickHouse, carried over the ring buffer as 56 bytes, reaches the
  daemon's io_uring as it was recorded: descriptor, destination address and size (its low 32 bits)
  are the probe's, the entry is linked to the next one, the count grows by one. The destination is
  the probe's second argument, the file offset of the call, and the offset is always 0.
\<close>

theorem pread_crosses_the_ring_buffer:
  assumes "us_overridden u" and "rv (env (hist s) (Ur GetSqe)) \<noteq> 0"
  shows "\<exists>d. last (blog (snd (us_preadRaw c u))) = RingbufOutput ''pread_prepare_ringbuf'' d
      \<and> calls (hist (daemon_step env (DPrepare d) s)) = calls (hist s) @
          [Ur GetSqe, Ur (PrepRead (sint (to_int (parm1 c))) (parm2 c) (ucast (parm5 c)) 0), Ur SetLink]
      \<and> batch_count (daemon_step env (DPrepare d) s) = batch_count s + 1"
  using us_preadRaw_on(3) [OF assms(1), of c] prepare_accepted [of env s "read_info c (us_seq u)", OF assms(2)]
  by (simp add: handle_pread_prepare_def read_info_def)

theorem pread_crosses_the_ring_buffer_witness:
  "\<exists>d. calls (hist (daemon_step (\<lambda>_ _. \<lparr>rv = 1, errno = 0, aux = 0, dat = []\<rparr>) (DPrepare d) daemon_start))
     = [Ur GetSqe, Ur (PrepRead 7 4096 100 0), Ur SetLink]"
  using pread_crosses_the_ring_buffer [of "user_loaded\<lparr>us_overridden := True\<rparr>"
      "\<lambda>_ _. \<lparr>rv = 1, errno = 0, aux = 0, dat = []\<rparr>" daemon_start sample_call]
  by (auto simp: sample_call_def to_int_def daemon_start_def)

text \<open>
  When no wait fails, a submit record collects its batch: the ring is submitted once, exactly
  \<open>batch_count\<close> completions are waited for and marked as seen, and the count is 0 again.
\<close>

theorem submit_collects_batch:
  assumes "\<forall>h. 0 \<le> rv (env h (Ur WaitCqe))" and "batch_count s \<noteq> 0"
  shows "\<exists>es. process_pread_submit_info env pid s
        = (0, s\<lparr>hist := hist s @ (Ur Submit, env (hist s) (Ur Submit)) # es, batch_count := 0\<rparr>)
    \<and> cnt is_wait (calls es) = unat (batch_count s) \<and> cnt is_seen (calls es) = unat (batch_count s)"
  using submit_ok [of env pid s, OF assms(1)] assms(2) by (auto simp: is_wait_def is_seen_def)

theorem submit_collects_batch_witness:
  "\<exists>es. snd (process_pread_submit_info (\<lambda>_ _. \<lparr>rv = 0, errno = 0, aux = 0, dat = []\<rparr>) 42
        (daemon_start\<lparr>batch_count := 3\<rparr>))
      = daemon_start\<lparr>hist := (Ur Submit, \<lparr>rv = 0, errno = 0, aux = 0, dat = []\<rparr>) # es\<rparr>
    \<and> cnt is_seen (calls es) = 3"
  using submit_collects_batch [of "\<lambda>_ _. \<lparr>rv = 0, errno = 0, aux = 0, dat = []\<rparr>"
      "daemon_start\<lparr>batch_count := 3\<rparr>" 42]
  by (auto simp: daemon_start_def)

text \<open>
  C25: a failed wait loses the balance: whenever the daemon gives up on a batch, it has collected
  fewer completions than \<open>batch_count\<close>, but \<open>batch_count\<close> keeps its value, so the next submit
  waits again for the completions already collected.
\<close>

theorem failed_wait_keeps_count:
  assumes "fst (process_pread_submit_info env pid s) = 1"
  shows "\<exists>es. snd (process_pread_submit_info env pid s) = s\<lparr>hist := hist s @ es\<rparr>
    \<and> cnt is_seen (calls es) < unat (batch_count s)"
proof -
  define s1 where "s1 = s\<lparr>hist := hist s @ [(Ur Submit, env (hist s) (Ur Submit))]\<rparr>"
  obtain r es where w: "wait_batch env 0 s1 = (r, s1\<lparr>hist := hist s1 @ es\<rparr>)"
      "r \<longrightarrow> cnt is_seen (calls es) < unat (batch_count s)"
    using wait_batch_any [of env 0 s1] by (auto simp: s1_def)
  have "do_call env (Ur Submit) s = s1" by (simp add: do_call_def call_def s1_def)
  then have "process_pread_submit_info env pid s = (if batch_count s = 0 then (0, s)
      else if r then (1, s1\<lparr>hist := hist s1 @ es\<rparr>)
      else (0, s1\<lparr>hist := hist s1 @ es, batch_count := 0\<rparr>))"
    by (simp add: process_pread_submit_info_def w(1))
  then show ?thesis using assms w(2)
    by (intro exI [of _ "(Ur Submit, env (hist s) (Ur Submit)) # es"])
      (auto simp: s1_def is_seen_def split: if_splits)
qed

theorem failed_wait_keeps_count_witness:
  "batch_count (snd (process_pread_submit_info (\<lambda>_ _. \<lparr>rv = - 4, errno = 4, aux = 0, dat = []\<rparr>) 42
     (daemon_start\<lparr>batch_count := 3\<rparr>))) = 3"
proof -
  let ?env = "\<lambda>_ _. \<lparr>rv = - 4, errno = 4, aux = 0, dat = []\<rparr>"
  let ?s = "daemon_start\<lparr>batch_count := 3\<rparr>"
  have "fst (process_pread_submit_info ?env 42 ?s) = 1"
    by (simp add: process_pread_submit_info_def wait_batch.simps call_pair Let_def)
  from failed_wait_keeps_count [OF this] show ?thesis by auto
qed

text \<open>
  C20: with a ring of 1024 entries that hands out an entry exactly when one is free, and submits and
  waits that succeed, the daemon's count is always the number of prepared, unsubmitted entries,
  under every sequence of prepare and submit records; so every record it acts on is submitted and
  collected by the next submit record.
\<close>

theorem daemon_count_is_exact:
  assumes "sq_law 1024 env" and "submit_law env" and "\<forall>h. 0 \<le> rv (env h (Ur WaitCqe))"
  shows "unat (batch_count (fold (daemon_step env) es daemon_start))
      = unsubmitted (hist (fold (daemon_step env) es daemon_start))
    \<and> unsubmitted (hist (fold (daemon_step env) es daemon_start)) \<le> 1024"
proof -
  have "in_step s \<Longrightarrow> in_step (fold (daemon_step env) es s)" for s
    by (induction es arbitrary: s) (auto simp: daemon_step_inv [OF assms])
  moreover have "in_step daemon_start" by (simp add: in_step_def daemon_start_def)
  ultimately show ?thesis unfolding in_step_def by blast
qed

text \<open>A kernel that follows the documentation of the submission queue.\<close>

definition queue_env :: "nat \<Rightarrow> sys_env" where
  "queue_env depth h e = \<lparr>rv = (if e = Ur GetSqe \<and> unsubmitted h < depth then 1 else 0),
     errno = 0, aux = 0, dat = []\<rparr>"

lemma queue_env_law: "sq_law depth (queue_env depth)" "submit_law (queue_env depth)"
  by (simp_all add: sq_law_def submit_law_def queue_env_def)

theorem daemon_count_is_exact_witness:
  "unsubmitted (hist (fold (daemon_step (queue_env 1024))
     [DPrepare (replicate 56 0), DPrepare (replicate 56 0)] daemon_start)) = 2"
proof -
  have w: "\<forall>h. 0 \<le> rv (queue_env 1024 h (Ur WaitCqe))" by (simp add: queue_env_def)
  have "unat (batch_count (fold (daemon_step (queue_env 1024))
     [DPrepare (replicate 56 0), DPrepare (replicate 56 0)] daemon_start)) = 2"
    by (simp add: handle_pread_prepare_def process_pread_prepare_info_def call_pair Let_def queue_env_def
        daemon_start_def unsubmitted_def)
  with daemon_count_is_exact [OF queue_env_law w, of "[DPrepare (replicate 56 0), DPrepare (replicate 56 0)]"]
  show ?thesis by simp
qed

end
