(* ===== verification/Loaders.thy ===== *)
theory Loaders
  imports Attach_Override User_Daemon Observers "HOL-Library.Sublist"
begin

text \<open>
  The \<open>main\<close> functions that load the BPF programs: open and load the skeleton, attach the programs
  one after the other, install the SIGINT handler, poll until it has run, destroy the skeleton.
  \<open>None\<close> is undefined behaviour. \<open>n\<close> is how often the loop test finds \<open>exiting\<close> still 0.
\<close>

section \<open>One attach step and its error handling\<close>

datatype attach_step =
    Override string string string string  \<comment> \<open>program, binary, function, message; sets err\<close>
  | Usdt string string string string      \<comment> \<open>program, binary, probe, message; err = errno\<close>
  | UsdtKeep string string string string  \<comment> \<open>the same, but err is left alone\<close>
  | UprobeKeep string string u64 string   \<comment> \<open>program, binary, address, message; err is left alone\<close>
  | Skeleton string string                \<comment> \<open>attach all programs of the skeleton\<close>
  | Preset string int                     \<comment> \<open>store to the skeleton's bss\<close>
  | PresetPid string
  | Say string

type_synonym 'a attach_fn = "sys_env \<Rightarrow> string \<Rightarrow> string \<Rightarrow> string \<Rightarrow> 'a sys_scheme \<Rightarrow> int \<times> 'a sys_scheme"

fun do_step :: "'a attach_fn \<Rightarrow> sys_env \<Rightarrow> attach_step \<Rightarrow> int \<Rightarrow> 'a sys_scheme \<Rightarrow> bool \<times> int \<times> 'a sys_scheme" where
  "do_step att env (Override p path f m) err s =
     (let (err, s) = att env p path f s in
      if err \<noteq> 0 then (False, err, do_call env (Px (PrintErr m)) s) else (True, err, s))"
| "do_step att env (Usdt p path n m) err s =
     (let (a, s) = call env (Lb (AttachUsdt p (- 1) path ''clickhouse'' n)) s in
      if rv a = 0 then (False, errno a, do_call env (Px (PrintErr m)) s) else (True, err, s))"
| "do_step att env (UsdtKeep p path n m) err s =
     (let (a, s) = call env (Lb (AttachUsdt p (- 1) path ''clickhouse'' n)) s in
      if rv a = 0 then (False, err, do_call env (Px (PrintErr m)) s) else (True, err, s))"
| "do_step att env (UprobeKeep p path addr m) err s =
     (let (a, s) = call env (Lb (AttachUprobe p False (- 1) path addr)) s in
      if rv a = 0 then (False, err, do_call env (Px (PrintErr m)) s) else (True, err, s))"
| "do_step att env (Skeleton nm m) err s =
     (let (a, s) = call env (Lb (SkelAttach nm)) s; err = c_int (rv a) in
      if err \<noteq> 0 then (False, err, do_call env (Px (PrintErr m)) s) else (True, err, s))"
| "do_step att env (Preset f v) err s = (True, err, do_call env (Lb (SetBss f v)) s)"
| "do_step att env (PresetPid f) err s =
     (let (a, s) = call env (Px Getpid) s in (True, err, do_call env (Lb (SetBss f (rv a))) s))"
| "do_step att env (Say m) err s = (True, err, do_call env (Px (Print m)) s)"

fun attach_all :: "'a attach_fn \<Rightarrow> sys_env \<Rightarrow> attach_step list \<Rightarrow> int \<Rightarrow> 'a sys_scheme \<Rightarrow> bool \<times> int \<times> 'a sys_scheme" where
  "attach_all att env [] err s = (True, err, s)"
| "attach_all att env (p # ps) err s =
     (case do_step att env p err s of
        (False, err, s) \<Rightarrow> (False, err, s)
      | (True, err, s) \<Rightarrow> attach_all att env ps err s)"

section \<open>The common course of a loader\<close>

record loader =
  ld_name :: string
  ld_open_msg :: string
  ld_load_msg :: string
  ld_signal_msg :: string
  ld_plan :: "attach_step list"

definition SIG_ERR :: int where
  "SIG_ERR = - 1"

definition exit_code :: "int \<Rightarrow> int" where
  "exit_code err = (if err \<noteq> 0 then 1 else 0)"

type_synonym 'a finish = "int \<Rightarrow> 'a sys_scheme \<Rightarrow> (int \<times> 'a sys_scheme) option"

text \<open>\<open>early\<close> is what \<open>goto cleanup\<close> does up to the signal handler, \<open>tail\<close> what follows it.\<close>

definition run_loader ::
    "'a attach_fn \<Rightarrow> loader \<Rightarrow> sys_env \<Rightarrow> 'a finish \<Rightarrow> 'a finish \<Rightarrow> 'a sys_scheme \<Rightarrow> (int \<times> 'a sys_scheme) option" where
  "run_loader att ld env early tail s =
     (let s = do_call env (Lb SetPrint) s;
          (a, s) = call env (Lb (SkelOpen (ld_name ld))) s in
      if rv a = 0 then Some (1, do_call env (Px (PrintErr (ld_open_msg ld))) s)
      else
        let (a, s) = call env (Lb (SkelLoad (ld_name ld))) s; err = c_int (rv a) in
        if err \<noteq> 0 then early err (do_call env (Px (PrintErr (ld_load_msg ld))) s)
        else
          (case attach_all att env (ld_plan ld) err s of
             (False, err, s) \<Rightarrow> early err s
           | (True, err, s) \<Rightarrow>
               let (a, s) = call env (Px SignalInt) s in
               if rv a = SIG_ERR then early 1 (do_call env (Px (PrintErr (ld_signal_msg ld))) s)
               else tail err s))"

definition plain_cleanup :: "string \<Rightarrow> sys_env \<Rightarrow> 'a finish" where
  "plain_cleanup nm env err s = Some (exit_code err, do_call env (Lb (SkelDestroy nm)) s)"

text \<open>Busy waiting, and waiting in \<open>sleep(1)\<close>.\<close>

definition spin_tail :: "string \<Rightarrow> sys_env \<Rightarrow> nat \<Rightarrow> 'a finish" where
  "spin_tail nm env n err s = plain_cleanup nm env err s"

definition sleep_tail :: "string \<Rightarrow> sys_env \<Rightarrow> nat \<Rightarrow> 'a finish" where
  "sleep_tail nm env n err s = plain_cleanup nm env err (((do_call env (Px (Sleep 1))) ^^ n) s)"

section \<open>The programs\<close>

text \<open>Paths of the binaries the probes are attached to.\<close>

definition CLICKHOUSE :: string where
  "CLICKHOUSE = ''/mnt/fast25/ClickHouse/build/programs/clickhouse''"

definition CLICKHOUSE_SERVER :: string where
  "CLICKHOUSE_SERVER = ''/mnt/fast25/ClickHouse/build/programs/clickhouse-server''"

definition LIBC :: string where
  "LIBC = ''/lib/x86_64-linux-gnu/libc.so.6''"

definition clickhouse_uring_loader :: loader where
  "clickhouse_uring_loader = \<lparr>ld_name = ''clickhouse_uring'', ld_open_msg = ''Failed to open BPF object'',
     ld_load_msg = ''Failed to load BPF object: %d'', ld_signal_msg = ''Can't set signal handler: %s'',
     ld_plan = [Override ''bpf_start_patch'' CLICKHOUSE_SERVER ''_ZN2DB16ThreadPoolReader6submitENS_19IAsynchronousReader7RequestE''
         ''Failed to attach BPF program to open'',
       Override ''bpf_start_patch'' CLICKHOUSE_SERVER ''_ZN2DB16ThreadPoolReader4waitEv''
         ''Failed to attach BPF program to DB::ReadBuffer::next (enter)'',
       Override ''bpf_start_patch'' CLICKHOUSE_SERVER ''_ZN2DB6Server3runEv''
         ''Failed to attach BPF program to DB::ReadBuffer::next (enter)'',
       Override ''bpf_start_patch'' CLICKHOUSE_SERVER ''_ZN2DB24MergeTreeSelectProcessor4readEv''
         ''Failed to attach BPF program to DB::ReadBuffer::next (enter)'',
       Override ''bpf_start_patch'' CLICKHOUSE_SERVER ''_ZN2DB28CompressedReadBufferFromFile20setReadUntilPositionEm''
         ''Failed to attach BPF program to DB::ReadBuffer::next (enter)'',
       Override ''bpf_write_patch'' LIBC ''write''
         ''Failed to attach BPF program to write'',
       Override ''bpf_start_patch'' CLICKHOUSE ''_ZN2DB10ReadBuffer10readStrictEPcm''
         ''Failed to attach BPF program to DB::ReadBuffer::readStrict (enter)'']\<rparr>"

definition batch_loader :: loader where
  "batch_loader = \<lparr>ld_name = ''batch'', ld_open_msg = ''Failed to open BPF object'',
     ld_load_msg = ''Failed to load BPF object: %d'', ld_signal_msg = ''Can't set signal handler: %s'',
     ld_plan = [Usdt ''readCount'' CLICKHOUSE_SERVER ''readCount''
         ''Failed to attach USDT probe 'readCount': %d'',
       Usdt ''preadRaw'' CLICKHOUSE ''preadRaw''
         ''Failed to attach USDT probe 'preadRaw': %d (%s)'',
       Usdt ''batchSubmit'' CLICKHOUSE ''batchSubmit''
         ''Failed to attach USDT probe 'batchSubmit': %d'',
       Usdt ''readS'' CLICKHOUSE ''readS''
         ''Failed to attach USDT probe 'batchSubmit': %d'',
       Usdt ''main_entry'' CLICKHOUSE ''batchSubmit''
         ''Failed to attach USDT probe 'batchSubmit': %d'']\<rparr>"

definition user_loader :: loader where
  "user_loader = \<lparr>ld_name = ''user'', ld_open_msg = ''Failed to open BPF object'',
     ld_load_msg = ''Failed to load BPF object: %d'', ld_signal_msg = ''Can't set signal handler: %s'',
     ld_plan = [Usdt ''preadRaw'' CLICKHOUSE ''preadRaw''
         ''Failed to attach USDT probe 'preadRaw': %d (%s)'',
       Usdt ''batchSubmit'' CLICKHOUSE ''batchSubmit''
         ''Failed to attach USDT probe 'batchSubmit': %d'',
       Usdt ''readS'' CLICKHOUSE ''readS''
         ''Failed to attach USDT probe 'readS': %d'']\<rparr>"

definition tp_loader :: loader where
  "tp_loader = \<lparr>ld_name = ''tp'', ld_open_msg = ''Failed to open BPF object'',
     ld_load_msg = ''Failed to load BPF object: %d'', ld_signal_msg = ''Can't set signal handler: %s'',
     ld_plan = [UsdtKeep ''read_from_task'' CLICKHOUSE ''preadRaw''
         ''Failed to attach USDT probe 'before_read_from_task':% d'',
       Usdt ''read_from_task'' CLICKHOUSE ''batchSubmit''
         ''Failed to attach USDT probe 'preadRaw':% d'',
       Say ''fork tracepoint attached'']\<rparr>"

definition uprobe_loader :: loader where
  "uprobe_loader = \<lparr>ld_name = ''uprobe'', ld_open_msg = ''Failed to open BPF object'',
     ld_load_msg = ''Failed to load BPF object: %d'', ld_signal_msg = ''Can't set signal handler: %s'',
     ld_plan = [UprobeKeep ''overrideTrace'' CLICKHOUSE 0xc76fd80
         ''Failed to attach BPF program to DB::ReadBuffer::overrideTrace (enter)'']\<rparr>"

definition writeback_loader :: loader where
  "writeback_loader = \<lparr>ld_name = ''rocksdb'', ld_open_msg = ''failed to open BPF object'',
     ld_load_msg = ''failed to load BPF object: %d'', ld_signal_msg = ''can't set signal handler: %s'',
     ld_plan = [Skeleton ''rocksdb'' ''failed to attach BPF programs'']\<rparr>"

definition latency_loader :: loader where
  "latency_loader = \<lparr>ld_name = ''rocksdb'', ld_open_msg = ''failed to open BPF object'',
     ld_load_msg = ''failed to load BPF object: %d'', ld_signal_msg = ''can't set signal handler: %s'',
     ld_plan = [Preset ''avg_latency.latency_to_write'' 0,
       Preset ''avg_latency.latency_to_fsync_exit'' 0,
       Skeleton ''rocksdb'' ''failed to attach BPF programs'']\<rparr>"

definition ci_loader :: loader where
  "ci_loader = \<lparr>ld_name = ''rocksdb'', ld_open_msg = ''failed to open BPF object'',
     ld_load_msg = ''failed to load BPF object: %d'', ld_signal_msg = ''can't set signal handler: %s'',
     ld_plan = [Override ''start'' ''/root/zys/bpftime-evaluation/redis-bpf/fsync_write'' ''start''
         ''Failed to attach BPF program start'',
       Override ''fsync'' LIBC ''fsync''
         ''Failed to attach BPF program fsync'',
       Override ''write'' LIBC ''write''
         ''Failed to attach BPF program write'']\<rparr>"

definition hp_loader :: loader where
  "hp_loader = \<lparr>ld_name = ''rocksdb'', ld_open_msg = ''failed to open BPF object'',
     ld_load_msg = ''failed to load BPF object: %d'', ld_signal_msg = ''can't set signal handler: %s'',
     ld_plan = [Override ''start'' ''/mnt/fast25/clickhouse-uring/iouring_hotpatch/read'' ''start''
         ''Failed to attach BPF program start'',
       Override ''fsync'' LIBC ''fsync''
         ''Failed to attach BPF program fsync'',
       Override ''write'' LIBC ''write''
         ''Failed to attach BPF program write'',
       Override ''read'' LIBC ''read''
         ''Failed to attach BPF program read'',
       Override ''send'' LIBC ''send''
         ''Failed to attach BPF program send'',
       Override ''recv'' LIBC ''recv''
         ''Failed to attach BPF program recv'']\<rparr>"

definition tb_loader :: loader where
  "tb_loader = \<lparr>ld_name = ''test'', ld_open_msg = ''failed to open BPF object'',
     ld_load_msg = ''failed to load BPF object: %d'', ld_signal_msg = ''can't set signal handler: %s'',
     ld_plan = [Override ''start'' ''/mnt/fast25/clickhouse-uring/iouring_hotpatch/read'' ''start''
         ''Failed to attach BPF program start'',
       Override ''pread'' LIBC ''pread''
         ''Failed to attach BPF program read'']\<rparr>"

definition so_loader :: loader where
  "so_loader = \<lparr>ld_name = ''rocksdb'', ld_open_msg = ''failed to open BPF object'',
     ld_load_msg = ''failed to load BPF object: %d'', ld_signal_msg = ''can't set signal handler: %s'',
     ld_plan = [Override ''_enter_wait_for_queue'' ''/root/zys/bpftime-evaluation/AisLSM/build/librocksdb.so.7''
         ''_ZN7rocksdb6Urings14wait_for_queueEPNS_11uring_queueE''
         ''Failed to attach BPF program'']\<rparr>"

section \<open>The mains\<close>

definition batch_main :: "sys_env \<Rightarrow> nat \<Rightarrow> (int \<times> sys) option" where
  "batch_main env n = run_loader bpf_prog_attach_uprobe_with_override batch_loader env
     (plain_cleanup ''batch'' env) (sleep_tail ''batch'' env n) fresh"

definition uprobe_main :: "sys_env \<Rightarrow> nat \<Rightarrow> (int \<times> sys) option" where
  "uprobe_main env n = run_loader bpf_prog_attach_uprobe_with_override uprobe_loader env
     (plain_cleanup ''uprobe'' env) (sleep_tail ''uprobe'' env n) fresh"

definition writeback_main :: "sys_env \<Rightarrow> nat \<Rightarrow> (int \<times> sys) option" where
  "writeback_main env n = run_loader bpf_prog_attach_uprobe_with_override writeback_loader env
     (plain_cleanup ''rocksdb'' env) (spin_tail ''rocksdb'' env n) fresh"

definition ci_main :: "sys_env \<Rightarrow> nat \<Rightarrow> (int \<times> sys) option" where
  "ci_main env n = run_loader ci_attach_with_override ci_loader env
     (plain_cleanup ''rocksdb'' env) (spin_tail ''rocksdb'' env n) fresh"

definition hp_main :: "sys_env \<Rightarrow> nat \<Rightarrow> (int \<times> sys) option" where
  "hp_main env n = run_loader hp_attach_with_override hp_loader env
     (plain_cleanup ''rocksdb'' env) (spin_tail ''rocksdb'' env n) fresh"

definition tb_main :: "sys_env \<Rightarrow> nat \<Rightarrow> (int \<times> sys) option" where
  "tb_main env n = run_loader hp_attach_with_override tb_loader env
     (plain_cleanup ''test'' env) (spin_tail ''test'' env n) fresh"

definition so_main :: "sys_env \<Rightarrow> nat \<Rightarrow> (int \<times> sys) option" where
  "so_main env n = run_loader so_attach_with_override so_loader env
     (plain_cleanup ''rocksdb'' env) (spin_tail ''rocksdb'' env n) fresh"

text \<open>\<open>fsync-latency-bpf/rocksdb.c\<close> prints the averages before it cleans up.\<close>

definition latency_tail :: "sys_env \<Rightarrow> 'a finish" where
  "latency_tail env err s =
     (let (a, s) = call env (Lb (GetBss ''avg_latency.latency_to_write'')) s;
          s = do_call env (Px (PrintInt ''avg latency_to_write: %lld'' (rv a))) s;
          (a, s) = call env (Lb (GetBss ''avg_latency.latency_to_fsync_exit'')) s;
          s = do_call env (Px (PrintInt ''avg latency_to_fsync_exit: %lld'' (rv a))) s
      in plain_cleanup ''rocksdb'' env err s)"

definition latency_main :: "sys_env \<Rightarrow> nat \<Rightarrow> (int \<times> sys) option" where
  "latency_main env n = run_loader bpf_prog_attach_uprobe_with_override latency_loader env
     (plain_cleanup ''rocksdb'' env) (latency_tail env) fresh"

text \<open>\<open>clickhouse-uring.c\<close> seeds the counter map with 79 and prints the counter every second.\<close>

definition show_op_count :: "sys_env \<Rightarrow> int \<Rightarrow> 'a sys_scheme \<Rightarrow> 'a sys_scheme" where
  "show_op_count env map_fd s =
     (let (a, s) = call env (Lb (MapLookup map_fd 0)) s in
      if c_int (rv a) = 0 then do_call env (Px (PrintInt ''op_count: %u'' (aux a))) s
      else do_call env (Px (PrintErr ''ERROR: Reading op_count map failed'')) s)"

definition clickhouse_tail :: "sys_env \<Rightarrow> nat \<Rightarrow> 'a finish" where
  "clickhouse_tail env n err s =
     (let (a, s) = call env (Lb (MapFd ''op_count'')) s; map_fd = c_int (rv a) in
      if map_fd < 0 then Some (1, do_call env (Px (PrintErr ''Failed to find BPF map'')) s)
      else
        let s = do_call env (Px (Print ''Map found'')) s;
            (a, s) = call env (Lb (MapUpdate map_fd 0 79)) s in
        if c_int (rv a) \<noteq> 0
        then Some (1, do_call env (Px (PrintErr ''ERROR: Updating op_count map failed'')) s)
        else plain_cleanup ''clickhouse_uring'' env err
               (((\<lambda>s. do_call env (Px (Sleep 1)) (show_op_count env map_fd s)) ^^ n) s))"

definition clickhouse_main :: "sys_env \<Rightarrow> nat \<Rightarrow> (int \<times> sys) option" where
  "clickhouse_main env n = run_loader bpf_prog_attach_uprobe_with_override clickhouse_uring_loader env
     (plain_cleanup ''clickhouse_uring'' env) (clickhouse_tail env n) fresh"

section \<open>The ring-buffer consumers\<close>

text \<open>The records a poll delivers are in its answer; each is handed to the callback.\<close>

fun chunks :: "nat \<Rightarrow> 'a list \<Rightarrow> 'a list list" where
  "chunks n [] = []"
| "chunks n (x # xs) =
     (if n = 0 then [] else take n (x # xs) # chunks n (drop (n - 1) xs))"

definition fork_text :: "u32 \<times> u32 \<times> string \<Rightarrow> string" where
  "fork_text e = (case e of (pid, ppid, comm) \<Rightarrow>
     ''Forked process: PID '' @ dec_of_nat (unat pid) @ '', PPID '' @ dec_of_nat (unat ppid)
       @ '', Comm '' @ comm)"

definition tp_deliver :: "sys_env \<Rightarrow> u8 list \<Rightarrow> 'a sys_scheme \<Rightarrow> 'a sys_scheme" where
  "tp_deliver env d s = do_call env (Px (Print (fork_text (handle_event d)))) s"

fun tp_loop :: "sys_env \<Rightarrow> int \<Rightarrow> nat \<Rightarrow> int \<Rightarrow> 'a sys_scheme \<Rightarrow> int \<times> 'a sys_scheme" where
  "tp_loop env map_fd 0 err s = (err, s)"
| "tp_loop env map_fd (Suc n) err s =
     (let s = do_call env (Px (Sleep 1)) s;
          s = show_op_count env map_fd s;
          (a, s) = call env (Lb (RbPoll ''ringbuf'' 100)) s;
          s = fold (tp_deliver env) (chunks 24 (dat a)) s;
          err = c_int (rv a) in
      if err < 0 then (err, do_call env (Px (PrintErr ''Error polling ring buffer: %d'')) s)
      else tp_loop env map_fd n err s)"

text \<open>\<open>goto cleanup\<close> before \<open>rb\<close> is initialised frees an indeterminate pointer.\<close>

definition freed_garbage :: "'a finish" where
  "freed_garbage err s = None"

definition tp_cleanup :: "sys_env \<Rightarrow> 'a finish" where
  "tp_cleanup env err s =
     (let s = do_call env (Lb (RbFree ''ringbuf'')) s
      in Some (exit_code err, do_call env (Lb (SkelDestroy ''tp'')) s))"

definition tp_tail :: "sys_env \<Rightarrow> nat \<Rightarrow> 'a finish" where
  "tp_tail env n err s =
     (let (a, s) = call env (Lb (MapFd ''op_count'')) s; map_fd = c_int (rv a) in
      if map_fd < 0 then Some (1, do_call env (Px (PrintErr ''Failed to find BPF map'')) s)
      else
        let s = do_call env (Px (Print ''Map found'')) s;
            (a, s) = call env (Lb (RbNew ''ringbuf'')) s in
        if rv a = 0 then tp_cleanup env 1 (do_call env (Px (PrintErr ''Failed to create ring buffer'')) s)
        else
          let s = do_call env (Px (Print ''Ring buffer created'')) s;
              (err, s) = tp_loop env map_fd n err s
          in tp_cleanup env err s)"

definition tp_main :: "sys_env \<Rightarrow> nat \<Rightarrow> (int \<times> sys) option" where
  "tp_main env n = run_loader bpf_prog_attach_uprobe_with_override tp_loader env
     freed_garbage (tp_tail env n) fresh"

section \<open>user.c\<close>

fun user_loop :: "sys_env \<Rightarrow> nat \<Rightarrow> int \<Rightarrow> daemon \<Rightarrow> int \<times> daemon" where
  "user_loop env 0 err s = (err, s)"
| "user_loop env (Suc n) err s =
     (let (a, s) = call env (Lb (RbPoll ''pread_prepare_ringbuf'' (- 1))) s;
          s = fold (daemon_step env) (map DPrepare (chunks 56 (dat a))) s;
          err = c_int (rv a) in
      if err < 0
      then (err, do_call env (Px (PrintErr ''Error polling the pread_prepare ring buffer: %d'')) s)
      else
        let (a, s) = call env (Lb (RbPoll ''pread_submit_batch_ringbuf'' (- 1))) s;
            s = fold (daemon_step env) (map DSubmit (chunks 4 (dat a))) s;
            err = c_int (rv a) in
        if err < 0
        then (err, do_call env (Px (PrintErr ''Error polling the pread_submit ring buffer: %d'')) s)
        else user_loop env n err s)"

definition user_cleanup :: "sys_env \<Rightarrow> int \<Rightarrow> daemon \<Rightarrow> (int \<times> daemon) option" where
  "user_cleanup env err s =
     (let s = do_call env (Lb (RbFree ''pread_prepare_ringbuf'')) s;
          s = do_call env (Lb (RbFree ''pread_submit_batch_ringbuf'')) s;
          s = do_call env (Lb (SkelDestroy ''user'')) s
      in Some (exit_code err, do_call env (Ur QueueExit) s))"

definition user_tail :: "sys_env \<Rightarrow> nat \<Rightarrow> int \<Rightarrow> daemon \<Rightarrow> (int \<times> daemon) option" where
  "user_tail env n err s =
     (let (a, s) = call env (Lb (RbNew ''pread_prepare_ringbuf'')) s in
      if rv a = 0
      then user_cleanup env (- 1) (do_call env
             (Px (PrintErr ''Failed to create ring buffer for pread_prepare_ringbuf'')) s)
      else
        let (a, s) = call env (Lb (RbNew ''pread_submit_batch_ringbuf'')) s in
        if rv a = 0
        then user_cleanup env (- 1) (do_call env
               (Px (PrintErr ''Failed to create ring buffer for pread_submit_batch_ringbuf'')) s)
        else
          let (a, s) = call env (Ur (QueueInit 1024)) s in
          if c_int (rv a) \<noteq> 0
          then Some (1, do_call env (Px (PrintErr ''Unable to setup io_uring: %s'')) s)
          else let (err, s) = user_loop env n err s in user_cleanup env err s)"

definition user_main :: "sys_env \<Rightarrow> nat \<Rightarrow> (int \<times> daemon) option" where
  "user_main env n = run_loader bpf_prog_attach_uprobe_with_override user_loader env
     freed_garbage (user_tail env n) daemon_start"

section \<open>Attaching: success and failure\<close>

text \<open>The steps whose failure changes \<open>err\<close>, when the library sets \<open>errno\<close>.\<close>

definition sets_err :: "attach_step \<Rightarrow> bool" where
  "sets_err p = (case p of UsdtKeep _ _ _ _ \<Rightarrow> False | UprobeKeep _ _ _ _ \<Rightarrow> False | _ \<Rightarrow> True)"

text \<open>libbpf sets \<open>errno\<close> when it returns a NULL link.\<close>

definition errno_law :: "sys_env \<Rightarrow> bool" where
  "errno_law env \<longleftrightarrow> (\<forall>h p q path v n. rv (env h (Lb (AttachUsdt p q path v n))) = 0
      \<longrightarrow> errno (env h (Lb (AttachUsdt p q path v n))) \<noteq> 0)"

lemma do_step_fail:
  assumes "errno_law env" and "sets_err p" and "do_step att env p err s = (False, err', s')"
  shows "err' \<noteq> 0"
  using assms
  by (cases p) (auto simp: errno_law_def sets_err_def call_pair Let_def split: prod.splits if_splits)

lemma do_step_ok: "do_step att env p 0 s = (True, err', s') \<Longrightarrow> err' = 0"
  by (cases p) (auto simp: call_pair Let_def split: prod.splits if_splits)

text \<open>A program of the plan is attached according to a history.\<close>

definition attached :: "history \<Rightarrow> attach_step \<Rightarrow> bool" where
  "attached h p = (case p of
     Override g path f m \<Rightarrow> \<exists>fd a. (Lb (ProgAttach g fd), a) \<in> set h \<and> 0 \<le> c_int (rv a)
   | Usdt g path n m \<Rightarrow> \<exists>a. (Lb (AttachUsdt g (- 1) path ''clickhouse'' n), a) \<in> set h \<and> rv a \<noteq> 0
   | UsdtKeep g path n m \<Rightarrow> \<exists>a. (Lb (AttachUsdt g (- 1) path ''clickhouse'' n), a) \<in> set h \<and> rv a \<noteq> 0
   | UprobeKeep g path addr m \<Rightarrow> \<exists>a. (Lb (AttachUprobe g False (- 1) path addr), a) \<in> set h \<and> rv a \<noteq> 0
   | Skeleton nm m \<Rightarrow> \<exists>a. (Lb (SkelAttach nm), a) \<in> set h \<and> c_int (rv a) = 0
   | _ \<Rightarrow> True)"

text \<open>What the loaders rely on of an attach function: it only adds calls, and 0 means attached.\<close>

locale attacher =
  fixes att :: "sys_env \<Rightarrow> string \<Rightarrow> string \<Rightarrow> string \<Rightarrow> 'a sys_scheme \<Rightarrow> int \<times> 'a sys_scheme"
  assumes att_extends: "prefix (hist s) (hist (snd (att env p path f s)))"
    and att_attaches: "fst (att env p path f s) = 0 \<Longrightarrow>
        attached (hist (snd (att env p path f s))) (Override p path f m)"

lemma attached_mono: "attached h p \<Longrightarrow> set h \<subseteq> set h' \<Longrightarrow> attached h' p"
  unfolding attached_def by (auto split: attach_step.splits; blast)

lemma attach_with_override_extends:
  "prefix (hist s) (hist (snd (bpf_prog_attach_with_override m env p path f ty s)))"
  by (simp add: bpf_prog_attach_with_override_def perf_event_open_with_override_def call_pair Let_def
      split: prod.split)

lemma attach_with_override_attaches:
  "fst (bpf_prog_attach_with_override m env p path f ty s) = 0 \<Longrightarrow>
     attached (hist (snd (bpf_prog_attach_with_override m env p path f ty s))) (Override p path f m')"
  by (auto simp: bpf_prog_attach_with_override_def call_pair Let_def attached_def not_less
      split: prod.splits if_splits)

interpretation io_att: attacher bpf_prog_attach_uprobe_with_override
  by unfold_locales (simp_all add: bpf_prog_attach_uprobe_with_override_def
      attach_with_override_extends attach_with_override_attaches)

interpretation ci_att: attacher ci_attach_with_override
  by unfold_locales (simp_all add: ci_attach_with_override_def
      attach_with_override_extends attach_with_override_attaches)

interpretation hp_att: attacher hp_attach_with_override
  by unfold_locales (simp_all add: hp_attach_with_override_def
      attach_with_override_extends attach_with_override_attaches)

interpretation so_att: attacher so_attach_with_override
  by unfold_locales (simp_all add: so_attach_with_override_def
      attach_with_override_extends attach_with_override_attaches)

context attacher begin

lemma step_extends: "prefix (hist s) (hist (snd (snd (do_step att env p err s))))"
proof (cases p)
  case (Override g path f m)
  then show ?thesis
    using att_extends [of s env g path f] by (auto simp: Let_def split: prod.split)
qed (auto simp: call_pair Let_def)

lemma step_attaches:
  assumes "do_step att env p err s = (True, err', s')" shows "attached (hist s') p"
proof (cases p)
  case (Override g path f m)
  then show ?thesis
    using assms att_attaches [of env g path f s m] by (auto simp: Let_def split: prod.splits if_splits)
qed (use assms in \<open>auto simp: call_pair Let_def attached_def split: if_splits\<close>)

lemma all_extends: "prefix (hist s) (hist (snd (snd (attach_all att env ps err s))))"
proof (induction ps arbitrary: err s)
  case (Cons p ps)
  obtain b e1 s1 where d: "do_step att env p err s = (b, e1, s1)" by (cases "do_step att env p err s") auto
  then have "prefix (hist s) (hist s1)" using step_extends [of s env p err] by simp
  then show ?case using Cons.IH [of s1 e1] d by (cases b) (auto intro: prefix_order.trans)
qed simp

text \<open>Attaching all programs, when every step reports its failure.\<close>

lemma all_attached:
  assumes "errno_law env" and "list_all sets_err ps" and "attach_all att env ps 0 s = (ok, err', s')"
  shows "(err' = 0 \<longleftrightarrow> ok) \<and> (ok \<longrightarrow> list_all (attached (hist s')) ps)"
  using assms(2,3)
proof (induction ps arbitrary: s)
  case (Cons p ps)
  obtain b e1 s1 where d: "do_step att env p 0 s = (b, e1, s1)" by (cases "do_step att env p 0 s") auto
  show ?case
  proof (cases b)
    case True
    then have e: "e1 = 0" and rest: "attach_all att env ps 0 s1 = (ok, err', s')"
      using do_step_ok [of att env p s e1 s1] d Cons.prems by auto
    have "attached (hist s1) p" using step_attaches d True by simp
    moreover have "set (hist s1) \<subseteq> set (hist s')"
      using all_extends [of s1 env ps 0] rest by (simp add: set_mono_prefix)
    ultimately show ?thesis
      using Cons.IH [OF _ rest] Cons.prems(1) attached_mono by auto
  next
    case False
    then show ?thesis using do_step_fail [OF assms(1), of p att 0 s e1 s1] d Cons.prems by auto
  qed
qed auto

text \<open>A run that exits with 0 attached everything and came to the tail with \<open>err\<close> 0.\<close>

lemma exit_zero_run:
  fixes fin :: "'a finish"
  assumes "errno_law env" and "list_all sets_err (ld_plan ld)"
    and run: "run_loader att ld env (plain_cleanup nm env) fin s = Some (0, s')"
    and tail: "\<And>err t. fin err t = Some (0, s') \<Longrightarrow> err = 0"
  shows "\<exists>t s1. t = do_call env (Lb (SkelLoad (ld_name ld))) (do_call env (Lb (SkelOpen (ld_name ld))) (do_call env (Lb SetPrint) s))
    \<and> attach_all att env (ld_plan ld) 0 t = (True, 0, s1) \<and> fin 0 (do_call env (Px SignalInt) s1) = Some (0, s')
    \<and> list_all (attached (hist s1)) (ld_plan ld)"
proof -
  let ?t = "do_call env (Lb (SkelLoad (ld_name ld))) (do_call env (Lb (SkelOpen (ld_name ld))) (do_call env (Lb SetPrint) s))"
  obtain ok e1 s1 where a: "attach_all att env (ld_plan ld) 0 ?t = (ok, e1, s1)"
    and r: "(if ok then (let (a, s) = call env (Px SignalInt) s1 in
               if rv a = SIG_ERR then plain_cleanup nm env 1 (do_call env (Px (PrintErr (ld_signal_msg ld))) s)
               else fin e1 s) else plain_cleanup nm env e1 s1) = Some (0, s')"
    using run
    by (auto simp: run_loader_def call_pair Let_def plain_cleanup_def exit_code_def
        split: if_splits prod.splits bool.splits)
  have ok: "(e1 = 0 \<longleftrightarrow> ok) \<and> (ok \<longrightarrow> list_all (attached (hist s1)) (ld_plan ld))"
    by (rule all_attached [OF assms(1,2) a])
  with r have "ok" by (auto simp: plain_cleanup_def exit_code_def split: if_splits)
  with a r ok show ?thesis
    by (auto simp: call_pair plain_cleanup_def exit_code_def simp del: hist_do_call split: if_splits)
qed

text \<open>
  A loader whose clean-up and tail turn \<open>err\<close> into the exit status exits with 0 only when
  everything is attached.
\<close>

lemma exit_zero_attached:
  fixes fin :: "'a finish"
  assumes "errno_law env" and "list_all sets_err (ld_plan ld)"
    and "run_loader att ld env (plain_cleanup nm env) fin s = Some (0, s')"
    and tail: "\<And>err t. fin err t = Some (0, s') \<Longrightarrow> err = 0 \<and> prefix (hist t) (hist s')"
  shows "list_all (attached (hist s')) (ld_plan ld)"
proof -
  obtain s1 where s1: "fin 0 (do_call env (Px SignalInt) s1) = Some (0, s')" "list_all (attached (hist s1)) (ld_plan ld)"
    using exit_zero_run [OF assms(1-3)] tail by blast
  then have "set (hist s1) \<subseteq> set (hist s')" using tail [OF s1(1)] set_mono_prefix by fastforce
  with s1(2) attached_mono show ?thesis by (fastforce simp: list_all_iff)
qed

end

section \<open>Tails\<close>

lemma funpow_extends:
  fixes u :: "'a sys_scheme" and f :: "'a sys_scheme \<Rightarrow> 'a sys_scheme"
  assumes "\<And>s :: 'a sys_scheme. prefix (hist s) (hist (f s))" and "prefix h (hist u)"
  shows "prefix h (hist ((f ^^ n) u))"
proof (induction n)
  case (Suc n)
  then show ?case using assms(1) [of "(f ^^ n) u"] by (auto intro: prefix_order.trans)
qed (simp add: assms(2))

lemma ext_do: "prefix h (hist u) \<Longrightarrow> prefix h (hist (do_call env e u))"
  by (simp add: prefix_prefix)

definition good_tail :: "'a finish \<Rightarrow> bool" where
  "good_tail fin \<longleftrightarrow> (\<forall>err t s'. fin err t = Some (0, s') \<longrightarrow> err = 0 \<and> prefix (hist t) (hist s'))"

lemma good_plain: "good_tail (\<lambda>err t. plain_cleanup nm env err (g t))"
  if "\<And>t. prefix (hist t) (hist (g t))"
  using that by (auto simp: good_tail_def plain_cleanup_def exit_code_def split: if_splits)

lemma good_spin: "good_tail (spin_tail nm env n)"
  using good_plain [of "\<lambda>t. t" nm env] by (simp add: spin_tail_def [abs_def])

lemma good_sleep: "good_tail (sleep_tail nm env n)"
  unfolding sleep_tail_def [abs_def] by (rule good_plain) (simp add: funpow_extends)

lemma good_latency: "good_tail (latency_tail env)"
  by (auto simp: good_tail_def latency_tail_def Let_def call_pair plain_cleanup_def exit_code_def
      split: if_splits)

lemma show_extends: "prefix (hist s) (hist (show_op_count env fd s))"
  by (simp add: show_op_count_def call_pair Let_def)

lemma ext_show:
  "prefix h (hist u) \<Longrightarrow>
     prefix h (hist (((\<lambda>s. do_call env (Px (Sleep 1)) (show_op_count env fd s)) ^^ n) u))"
  by (rule funpow_extends) (auto intro: prefix_order.trans [OF show_extends])

lemma good_clickhouse: "good_tail (clickhouse_tail env n)"
  unfolding good_tail_def clickhouse_tail_def Let_def call_pair plain_cleanup_def exit_code_def
  by (auto simp del: hist_do_call One_nat_def split: if_splits intro!: ext_do ext_show)

lemma good_tailD: "good_tail fin \<Longrightarrow> fin err t = Some (0, s') \<Longrightarrow> err = 0 \<and> prefix (hist t) (hist s')"
  by (auto simp: good_tail_def)

text \<open>Each of the eight loaders whose attach steps all report their failure.\<close>

lemma batch_attached:
  "errno_law env \<Longrightarrow> batch_main env n = Some (0, s') \<Longrightarrow> list_all (attached (hist s')) (ld_plan batch_loader)"
  unfolding batch_main_def
  by (erule io_att.exit_zero_attached [rotated 2, OF _ good_tailD [OF good_sleep]])
    (simp_all add: batch_loader_def sets_err_def)

lemma writeback_attached:
  "errno_law env \<Longrightarrow> writeback_main env n = Some (0, s') \<Longrightarrow> list_all (attached (hist s')) (ld_plan writeback_loader)"
  unfolding writeback_main_def
  by (erule io_att.exit_zero_attached [rotated 2, OF _ good_tailD [OF good_spin]])
    (simp_all add: writeback_loader_def sets_err_def)

lemma latency_attached:
  "errno_law env \<Longrightarrow> latency_main env n = Some (0, s') \<Longrightarrow> list_all (attached (hist s')) (ld_plan latency_loader)"
  unfolding latency_main_def
  by (erule io_att.exit_zero_attached [rotated 2, OF _ good_tailD [OF good_latency]])
    (simp_all add: latency_loader_def sets_err_def)

lemma ci_attached:
  "errno_law env \<Longrightarrow> ci_main env n = Some (0, s') \<Longrightarrow> list_all (attached (hist s')) (ld_plan ci_loader)"
  unfolding ci_main_def
  by (erule ci_att.exit_zero_attached [rotated 2, OF _ good_tailD [OF good_spin]])
    (simp_all add: ci_loader_def sets_err_def)

lemma hp_attached:
  "errno_law env \<Longrightarrow> hp_main env n = Some (0, s') \<Longrightarrow> list_all (attached (hist s')) (ld_plan hp_loader)"
  unfolding hp_main_def
  by (erule hp_att.exit_zero_attached [rotated 2, OF _ good_tailD [OF good_spin]])
    (simp_all add: hp_loader_def sets_err_def)

lemma tb_attached:
  "errno_law env \<Longrightarrow> tb_main env n = Some (0, s') \<Longrightarrow> list_all (attached (hist s')) (ld_plan tb_loader)"
  unfolding tb_main_def
  by (erule hp_att.exit_zero_attached [rotated 2, OF _ good_tailD [OF good_spin]])
    (simp_all add: tb_loader_def sets_err_def)

lemma so_attached:
  "errno_law env \<Longrightarrow> so_main env n = Some (0, s') \<Longrightarrow> list_all (attached (hist s')) (ld_plan so_loader)"
  unfolding so_main_def
  by (erule so_att.exit_zero_attached [rotated 2, OF _ good_tailD [OF good_spin]])
    (simp_all add: so_loader_def sets_err_def)

lemma clickhouse_attached:
  "errno_law env \<Longrightarrow> clickhouse_main env n = Some (0, s') \<Longrightarrow> list_all (attached (hist s')) (ld_plan clickhouse_uring_loader)"
  unfolding clickhouse_main_def
  by (erule io_att.exit_zero_attached [rotated 2, OF _ good_tailD [OF good_clickhouse]])
    (simp_all add: clickhouse_uring_loader_def sets_err_def)

lemmas loader_attached = batch_attached writeback_attached latency_attached ci_attached hp_attached
  tb_attached so_attached clickhouse_attached

section \<open>Properties\<close>

text \<open>The loaders whose every attach step reports its failure in \<open>err\<close>, with their plans.\<close>

definition careful_mains :: "((sys_env \<Rightarrow> nat \<Rightarrow> (int \<times> sys) option) \<times> attach_step list) list" where
  "careful_mains = [(batch_main, ld_plan batch_loader), (writeback_main, ld_plan writeback_loader),
     (latency_main, ld_plan latency_loader), (ci_main, ld_plan ci_loader), (hp_main, ld_plan hp_loader),
     (tb_main, ld_plan tb_loader), (so_main, ld_plan so_loader),
     (clickhouse_main, ld_plan clickhouse_uring_loader)]"


text \<open>An environment in which everything works.\<close>

definition willing_env :: sys_env where
  "willing_env h e = \<lparr>rv = (case e of Lb (SkelOpen _) \<Rightarrow> 1 | Lb (AttachUsdt _ _ _ _ _) \<Rightarrow> 1
     | Lb (RbNew _) \<Rightarrow> 1 | Lb (RbPoll _ _) \<Rightarrow> 1 | _ \<Rightarrow> 0), errno = 0, aux = 0, dat = []\<rparr>"


text \<open>
  \<open>uprobe.c\<close> does not report a failed attach: when libbpf returns no link, the program prints a
  message, never waits, and exits with status 0.
\<close>

theorem uprobe_hides_failure:
  assumes "\<forall>h nm. rv (env h (Lb (SkelOpen nm))) \<noteq> 0" and "\<forall>h nm. rv (env h (Lb (SkelLoad nm))) = 0"
    and "\<forall>h p r q path addr. rv (env h (Lb (AttachUprobe p r q path addr))) = 0"
  shows "\<exists>s'. uprobe_main env n = Some (0, s') \<and> \<not> list_all (attached (hist s')) (ld_plan uprobe_loader)
    \<and> Px (Sleep 1) \<notin> set (calls (hist s'))"
  using assms
  by (simp add: uprobe_main_def run_loader_def uprobe_loader_def call_pair attached_def fresh_def
      plain_cleanup_def exit_code_def Let_def)

theorem uprobe_hides_failure_witness:
  "\<exists>s'. uprobe_main willing_env 3 = Some (0, s') \<and> Px (Sleep 1) \<notin> set (calls (hist s'))"
  using uprobe_hides_failure [of willing_env 3] by (auto simp: willing_env_def)

lemma no_attach_garbage:
  assumes "\<forall>h nm. rv (env h (Lb (SkelOpen nm))) \<noteq> 0"
    and "(\<forall>h nm. c_int (rv (env h (Lb (SkelLoad nm)))) \<noteq> 0) \<or> (\<forall>err t. fst (attach_all att env (ld_plan ld) err t) = False)"
  shows "run_loader att ld env freed_garbage fin s = None"
proof -
  have f: "attach_all att env (ld_plan ld) e t \<noteq> (True, e', t')"
    if "\<forall>err t. fst (attach_all att env (ld_plan ld) err t) = False" for e t e' t'
    using that by (metis fst_conv)
  show ?thesis
    using assms f
    by (auto simp: run_loader_def call_pair freed_garbage_def Let_def split: prod.split bool.split)
qed

text \<open>
  \<open>tp.c\<close> and \<open>user.c\<close> have no defined clean-up before their ring buffers exist: when loading
  fails, or the kernel refuses the USDT probes, \<open>goto cleanup\<close> frees uninitialised pointers.
\<close>

theorem early_failure_is_undefined:
  assumes "\<forall>h nm. rv (env h (Lb (SkelOpen nm))) \<noteq> 0"
    and "(\<forall>h nm. c_int (rv (env h (Lb (SkelLoad nm)))) \<noteq> 0)
       \<or> (\<forall>h p q path v m. rv (env h (Lb (AttachUsdt p q path v m))) = 0)"
  shows "tp_main env n = None \<and> user_main env n = None"
proof -
  have "\<forall>err t. fst (attach_all att env (ld_plan tp_loader) err t) = False"
      "\<forall>err t. fst (attach_all att env (ld_plan user_loader) err t) = False"
    if "\<forall>h p q path v m. rv (env h (Lb (AttachUsdt p q path v m))) = 0" for att :: "'a attach_fn"
    using that by (simp_all add: tp_loader_def user_loader_def call_pair)
  with assms(2) show ?thesis
    unfolding tp_main_def user_main_def by (blast intro: no_attach_garbage [OF assms(1)])
qed

theorem early_failure_is_undefined_witness:
  "user_main (\<lambda>h e. \<lparr>rv = 1, errno = 0, aux = 0, dat = []\<rparr>) 3 = None"
  by (rule early_failure_is_undefined [THEN conjunct2]) simp_all

lemma tp_loop_status:
  assumes "\<forall>h. rv (env h (Lb (RbPoll ''ringbuf'' 100))) = k" and "0 \<le> k" and "k < 2 ^ 31"
  shows "fst (tp_loop env fd (Suc n) err s) = k"
  using assms
  by (induction n arbitrary: err s)
    (simp_all add: call_pair Let_def del: tp_loop.simps(2) add: tp_loop.simps(2) [of _ _ 0]
      tp_loop.simps(2) [of _ _ "Suc _"])

lemma user_loop_status:
  assumes "\<forall>h. rv (env h (Lb (RbPoll ''pread_prepare_ringbuf'' (- 1)))) = k"
    and "\<forall>h. rv (env h (Lb (RbPoll ''pread_submit_batch_ringbuf'' (- 1)))) = k" and "0 \<le> k" and "k < 2 ^ 31"
  shows "fst (user_loop env (Suc n) err s) = k"
  using assms
  by (induction n arbitrary: err s)
    (simp_all add: call_pair Let_def del: user_loop.simps(2) add: user_loop.simps(2) [of _ 0]
      user_loop.simps(2) [of _ "Suc _"])

text \<open>
  \<open>tp.c\<close> and \<open>user.c\<close> exit with the status of their last poll: when everything works and the
  polls deliver records, a run ended by SIGINT after at least one round exits with status 1, as
  after an error.
\<close>

theorem delivered_records_exit_one:
  assumes "\<forall>h nm. rv (env h (Lb (SkelOpen nm))) \<noteq> 0" and "\<forall>h nm. rv (env h (Lb (SkelLoad nm))) = 0"
    and "\<forall>h p q path v m. rv (env h (Lb (AttachUsdt p q path v m))) \<noteq> 0"
    and "\<forall>h. rv (env h (Px SignalInt)) = 0" and "\<forall>h m. rv (env h (Lb (MapFd m))) = 5"
    and "\<forall>h r. rv (env h (Lb (RbNew r))) \<noteq> 0" and "\<forall>h m. rv (env h (Ur (QueueInit m))) = 0"
    and k: "\<forall>h r t. rv (env h (Lb (RbPoll r t))) = k" and "0 < k" and "k < 2 ^ 31"
  shows "(\<exists>s'. tp_main env (Suc n) = Some (1, s')) \<and> (\<exists>s'. user_main env (Suc n) = Some (1, s'))"
proof
  have tp: "fst (tp_loop env fd (Suc n) err s) = k" for fd err and s :: sys
    using tp_loop_status [of env k] k assms(9,10) by simp
  show "\<exists>s'. tp_main env (Suc n) = Some (1, s')"
    using assms tp [THEN subst, of "\<lambda>k. k \<noteq> 0"]
    by (simp add: tp_main_def run_loader_def tp_loader_def call_pair SIG_ERR_def tp_tail_def tp_cleanup_def
        exit_code_def Let_def tp split: prod.split del: tp_loop.simps)
      (metis fst_conv tp not_less_iff_gr_or_eq)
next
  have us: "fst (user_loop env (Suc n) err s) = k" for err s
    using user_loop_status [of env k] k assms(9,10) by simp
  show "\<exists>s'. user_main env (Suc n) = Some (1, s')"
    using assms
    by (simp add: user_main_def run_loader_def user_loader_def call_pair SIG_ERR_def user_tail_def
        user_cleanup_def exit_code_def Let_def split: prod.split del: user_loop.simps)
      (metis fst_conv us not_less_iff_gr_or_eq)
qed

theorem delivered_records_exit_one_witness:
  "\<exists>s'. tp_main (\<lambda>h e. \<lparr>rv = (case e of Lb (MapFd _) \<Rightarrow> 5 | Lb (SkelOpen _) \<Rightarrow> 1
      | Lb (AttachUsdt _ _ _ _ _) \<Rightarrow> 1 | Lb (RbNew _) \<Rightarrow> 1 | Lb (RbPoll _ _) \<Rightarrow> 2 | _ \<Rightarrow> 0),
      errno = 0, aux = 0, dat = []\<rparr>) 1 = Some (1, s')"
  using delivered_records_exit_one [where n = 0 and k = 2, of "\<lambda>h e. \<lparr>rv = (case e of Lb (MapFd _) \<Rightarrow> 5
      | Lb (SkelOpen _) \<Rightarrow> 1 | Lb (AttachUsdt _ _ _ _ _) \<Rightarrow> 1 | Lb (RbNew _) \<Rightarrow> 1 | Lb (RbPoll _ _) \<Rightarrow> 2
      | _ \<Rightarrow> 0), errno = 0, aux = 0, dat = []\<rparr>"] by simp

end
