(* ===== verification/Uring_Readers.thy ===== *)
theory Uring_Readers
  imports Sys_Runtime
begin

text \<open>
  The two programs of \<open>iouring_hotpatch\<close> that read a file through liburing:
  \<open>vanilla_uring_read.c\<close> and \<open>read_uring.c\<close>. The contents of their buffers never matter; \<open>buf\<close>
  is the buffer's address.
\<close>

section \<open>vanilla_uring_read.c\<close>

definition VR_BUFFER_SIZE :: int where
  "VR_BUFFER_SIZE = 4096"

definition VR_QUEUE_DEPTH :: nat where
  "VR_QUEUE_DEPTH = 512"

definition VR_BATCH_SIZE :: nat where
  "VR_BATCH_SIZE = 256"

definition EXIT_FAILURE :: int where
  "EXIT_FAILURE = 1"

text \<open>\<open>handle_error\<close> prints and exits: the result is \<open>None\<close>, the exit status \<open>EXIT_FAILURE\<close>.\<close>

definition handle_error :: "sys_env \<Rightarrow> string \<Rightarrow> sys \<Rightarrow> 'r option \<times> sys" where
  "handle_error env msg s = (None, do_call env (Px (Perror msg)) s)"

text \<open>The loop that collects \<open>n\<close> completions.\<close>

fun vr_collect :: "sys_env \<Rightarrow> nat \<Rightarrow> sys \<Rightarrow> unit option \<times> sys" where
  "vr_collect env 0 s = (Some (), s)"
| "vr_collect env (Suc n) s =
     (let (a, s) = call env (Ur WaitCqe) s in
      if rv a < 0 then handle_error env ''Error waiting for completion'' s
      else if aux a < 0 then handle_error env ''Read failed'' s
      else vr_collect env n (do_call env (Ur CqeSeen) s))"

definition vr_flush :: "sys_env \<Rightarrow> nat \<Rightarrow> sys \<Rightarrow> unit option \<times> sys" where
  "vr_flush env n s = vr_collect env n (do_call env (Ur (SubmitAndWait n)) s)"

definition vr_prep :: "sys_env \<Rightarrow> u64 \<Rightarrow> int \<Rightarrow> int \<Rightarrow> int \<Rightarrow> sys \<Rightarrow> sys" where
  "vr_prep env buf fd len off s =
     do_call env (Ur (SetUserData 1))
       (do_call env (Ur (PrepRead fd buf (word_of_int len) (word_of_int off))) s)"

text \<open>The flush that a full batch triggers at the top of the loop, and the size of a read.\<close>

definition vr_make_room :: "sys_env \<Rightarrow> nat \<Rightarrow> sys \<Rightarrow> unit option \<times> nat \<times> sys" where
  "vr_make_room env batch s =
     (if VR_BATCH_SIZE \<le> batch then (case vr_flush env batch s of (r, s) \<Rightarrow> (r, 0, s))
      else (Some (), batch, s))"

definition vr_bytes :: "int \<Rightarrow> int \<Rightarrow> int" where
  "vr_bytes st_size off = (if st_size < off + VR_BUFFER_SIZE then st_size - off else VR_BUFFER_SIZE)"

text \<open>The main loop; it returns \<open>batch_count\<close> and \<open>total_reads\<close>.\<close>

function vr_loop :: "sys_env \<Rightarrow> u64 \<Rightarrow> int \<Rightarrow> int \<Rightarrow> int \<Rightarrow> nat \<Rightarrow> nat \<Rightarrow> sys \<Rightarrow> (nat \<times> nat) option \<times> sys" where
  "vr_loop env buf fd st_size off batch tot s =
     (if off < st_size then
        (case vr_make_room env batch s of
           (None, batch, s) \<Rightarrow> (None, s)
         | (Some _, batch, s) \<Rightarrow>
             let (a, s) = call env (Ur GetSqe) s in
             if rv a = 0 then handle_error env ''Failed to get submission queue entry'' s
             else
               let bytes = vr_bytes st_size off
               in vr_loop env buf fd st_size (off + bytes) (batch + 1) (tot + 1)
                    (vr_prep env buf fd bytes off s))
      else (Some (batch, tot), s))"
  by pat_completeness auto
termination
  by (relation "measure (\<lambda>(env, buf, fd, n, off, b, t, s). nat (n - off))")
    (auto simp: vr_bytes_def VR_BUFFER_SIZE_def)

declare vr_loop.simps [simp del]

text \<open>The last batch, the report and the clean-up.\<close>

definition vr_finish :: "sys_env \<Rightarrow> int \<Rightarrow> nat \<Rightarrow> nat \<Rightarrow> sys \<Rightarrow> unit option \<times> sys" where
  "vr_finish env fd batch tot s =
     (case (if 0 < batch then vr_flush env batch s else (Some (), s)) of
        (None, s) \<Rightarrow> (None, s)
      | (Some _, s) \<Rightarrow>
          let s = do_call env (Px Time) s;
              s = do_call env (Px (PrintInt ''Total read calls: %d in %ld seconds'' (int tot))) s;
              s = do_call env (Px (Close fd)) s
          in (Some (), do_call env (Ur QueueExit) s))"

definition benchmark_io_uring :: "sys_env \<Rightarrow> u64 \<Rightarrow> sys \<Rightarrow> unit option \<times> sys" where
  "benchmark_io_uring env buf s =
     (let (a, s) = call env (Px (Open ''1gb.txt'' 0 0)) s; fd = c_int (rv a) in
      if fd < 0 then handle_error env ''Failed to open file'' s
      else
        let (a, s) = call env (Px (Fstat fd)) s in
        if rv a < 0 then handle_error env ''Failed to get file stats'' s
        else
          let st_size = aux a; (a, s) = call env (Ur (QueueInit VR_QUEUE_DEPTH)) s in
          if rv a < 0 then handle_error env ''io_uring initialization failed'' s
          else
            let s = do_call env (Px Time) s in
            (case vr_loop env buf fd st_size 0 0 0 s of
               (None, s) \<Rightarrow> (None, s)
             | (Some (batch, tot), s) \<Rightarrow> vr_finish env fd batch tot s))"

definition vr_main :: "sys_env \<Rightarrow> u64 \<Rightarrow> int \<times> sys" where
  "vr_main env buf =
     (case benchmark_io_uring env buf fresh of (None, s) \<Rightarrow> (EXIT_FAILURE, s) | (Some _, s) \<Rightarrow> (0, s))"

section \<open>read_uring.c\<close>

definition RU_BATCH_SIZE :: nat where
  "RU_BATCH_SIZE = 256"

text \<open>
  \<open>Undefined\<close> is undefined behaviour: the batch branch passes the address of the parameter
  \<open>ring\<close> where the ring is expected. \<open>More\<close> means that the loop has not ended within the fuel.
\<close>

datatype 'a ru_result = Done 'a | Undefined | More

fun ru_loop :: "sys_env \<Rightarrow> u64 \<Rightarrow> int \<Rightarrow> int \<Rightarrow> nat \<Rightarrow> nat \<Rightarrow> sys \<Rightarrow> sys ru_result" where
  "ru_loop env buf fd start 0 batch s = More"
| "ru_loop env buf fd start (Suc fuel) batch s =
     (let (a, s) = call env (Px Time) s in
      if rv a - start < 1 then
        let (a, s) = call env (Ur GetSqe) s in
        if rv a = 0 then Done (do_call env (Px (PrintErr ''Could not get submission queue entry'')) s)
        else
          let s = do_call env (Ur (PrepRead fd buf 4 0)) s; batch = batch + 1 in
          if RU_BATCH_SIZE \<le> batch then Undefined
          else ru_loop env buf fd start fuel batch s
      else Done s)"

definition test_io_uring :: "sys_env \<Rightarrow> u64 \<Rightarrow> nat \<Rightarrow> sys \<Rightarrow> (int \<times> sys) ru_result" where
  "test_io_uring env buf fuel s =
     (let s = do_call env (Px (Print ''Test for io_uring read'')) s;
          (a, s) = call env (Px (Open ''temp.txt'' 0 0)) s; fd = c_int (rv a) in
      if fd < 0 then Done (1, do_call env (Px (Perror ''Failed to open file'')) s)
      else
        let s = do_call env (Px (PrintInt ''fd: %d'' fd)) s;
            (start, s) = call env (Px Time) s in
        (case ru_loop env buf fd (rv start) fuel 0 s of
           Done s \<Rightarrow>
             let s = do_call env (Px (Close fd)) s
             in Done (0, do_call env (Px (PrintInt ''Number of read calls in 0.4 seconds: %d'' 0)) s)
         | Undefined \<Rightarrow> Undefined | More \<Rightarrow> More))"

text \<open>\<open>while (1)\<close>: the state after \<open>k\<close> rounds.\<close>

fun ru_rounds :: "sys_env \<Rightarrow> u64 \<Rightarrow> nat \<Rightarrow> nat \<Rightarrow> sys \<Rightarrow> sys ru_result" where
  "ru_rounds env buf fuel 0 s = Done s"
| "ru_rounds env buf fuel (Suc k) s =
     (case test_io_uring env buf fuel s of
        Done (r, s) \<Rightarrow> ru_rounds env buf fuel k (do_call env (Px (Sleep 1)) s)
      | Undefined \<Rightarrow> Undefined | More \<Rightarrow> More)"

definition ru_main :: "sys_env \<Rightarrow> u64 \<Rightarrow> nat \<Rightarrow> nat \<Rightarrow> (int option \<times> sys) ru_result" where
  "ru_main env buf fuel k =
     (let (a, s) = call env (Ur (QueueInit 32)) fresh in
      if c_int (rv a) < 0
      then Done (Some 1, do_call env (Px (PrintErr ''Unable to setup io_uring: %s'')) s)
      else
        (case ru_rounds env buf fuel k (do_call env (Px (Print ''Start'')) s) of
           Done s \<Rightarrow> Done (None, s) | Undefined \<Rightarrow> Undefined | More \<Rightarrow> More))"

section \<open>What is prepared and collected\<close>

fun prepared :: "sys_call list \<Rightarrow> (int \<times> u32 \<times> u64) list" where
  "prepared [] = []"
| "prepared (e # es) = (case e of Ur (PrepRead fd b len off) \<Rightarrow> (fd, len, off) # prepared es | _ \<Rightarrow> prepared es)"

lemma prepared_append [simp]: "prepared (xs @ ys) = prepared xs @ prepared ys"
  by (induction xs) (auto split: sys_call.split uring_call.split)

definition block_reads :: "int \<Rightarrow> (int \<times> int) list \<Rightarrow> (int \<times> u32 \<times> u64) list" where
  "block_reads fd bs = map (\<lambda>(off, len). (fd, word_of_int len, word_of_int off)) bs"

definition waited :: "sys_call list \<Rightarrow> nat" where
  "waited es = cnt (\<lambda>e. e = Ur WaitCqe) es"

lemma waited_simps [simp]:
  "waited [] = 0" "waited (e # es) = (if e = Ur WaitCqe then 1 else 0) + waited es"
  "waited (xs @ ys) = waited xs + waited ys"
  by (simp_all add: waited_def)

lemma vr_collect_calls:
  "prepared (calls (hist (snd (vr_collect env n s)))) = prepared (calls (hist s))
   \<and> unsubmitted (hist (snd (vr_collect env n s))) = unsubmitted (hist s)
   \<and> (fst (vr_collect env n s) \<noteq> None \<longrightarrow> waited (calls (hist (snd (vr_collect env n s)))) = waited (calls (hist s)) + n)"
  by (induction n arbitrary: s)
    (auto simp: call_pair handle_error_def Let_def)

text \<open>Reads whose completions succeed.\<close>

definition reads_succeed :: "sys_env \<Rightarrow> bool" where
  "reads_succeed env \<longleftrightarrow> (\<forall>h. 0 \<le> rv (env h (Ur WaitCqe)) \<and> 0 \<le> aux (env h (Ur WaitCqe)))"

lemma reads_succeedD:
  "reads_succeed env \<Longrightarrow> (rv (env h (Ur WaitCqe)) < 0) = False"
  "reads_succeed env \<Longrightarrow> (aux (env h (Ur WaitCqe)) < 0) = False"
  by (auto simp: reads_succeed_def not_less)

lemma vr_collect_ok: "reads_succeed env \<Longrightarrow> fst (vr_collect env n s) = Some ()"
  by (induction n arbitrary: s) (simp_all add: call_pair reads_succeedD Let_def)


lemma vr_flush_calls:
  "prepared (calls (hist (snd (vr_flush env n s)))) = prepared (calls (hist s))
   \<and> (fst (vr_flush env n s) \<noteq> None \<longrightarrow> waited (calls (hist (snd (vr_flush env n s)))) = waited (calls (hist s)) + n)
   \<and> (submit_law env \<longrightarrow> unsubmitted (hist (snd (vr_flush env n s))) = 0)"
  using vr_collect_calls [of env n "do_call env (Ur (SubmitAndWait n)) s"]
  by (auto simp: vr_flush_def submit_law_def not_le [symmetric])

lemma vr_prep_hist [simp]:
  "prepared (calls (hist (vr_prep env buf fd len off s)))
     = prepared (calls (hist s)) @ [(fd, word_of_int len, word_of_int off)]"
  "waited (calls (hist (vr_prep env buf fd len off s))) = waited (calls (hist s))"
  "unsubmitted (hist (vr_prep env buf fd len off s)) = unsubmitted (hist s)"
  by (simp_all add: vr_prep_def)

lemma vr_make_room_calls:
  assumes "vr_make_room env batch s = (Some (), b, s')"
  shows "prepared (calls (hist s')) = prepared (calls (hist s))
    \<and> waited (calls (hist s')) + b = waited (calls (hist s)) + batch
    \<and> b < VR_BATCH_SIZE \<and> (submit_law env \<and> unsubmitted (hist s) = batch \<longrightarrow> unsubmitted (hist s') = b)"
  using assms vr_flush_calls [of env batch s]
  by (auto simp: vr_make_room_def VR_BATCH_SIZE_def split: if_splits prod.splits)

lemma vr_bytes_min: "vr_bytes n off = min VR_BUFFER_SIZE (n - off)"
  by (simp add: vr_bytes_def)

lemma vr_loop_step:
  assumes "off < st_size" and "vr_make_room env batch s = (Some (), bt, s1)"
    and "rv (env (hist s1) (Ur GetSqe)) \<noteq> 0"
  shows "vr_loop env buf fd st_size off batch tot s = vr_loop env buf fd st_size
    (off + vr_bytes st_size off) (bt + 1) (tot + 1)
    (vr_prep env buf fd (vr_bytes st_size off) off (do_call env (Ur GetSqe) s1))"
  using assms by (subst vr_loop.simps) (simp add: call_pair Let_def)

lemma vr_loop_someD:
  assumes "vr_loop env buf fd st_size off batch tot s = (Some p, s')" and "off < st_size"
  shows "\<exists>bt s1. vr_make_room env batch s = (Some (), bt, s1) \<and> rv (env (hist s1) (Ur GetSqe)) \<noteq> 0"
  using assms by (subst (asm) vr_loop.simps)
    (auto simp: call_pair handle_error_def split: option.splits prod.splits if_splits)

text \<open>
  The loop prepares one read per block; what it counts as prepared, uncollected reads is exact.
\<close>

lemma vr_loop_calls:
  assumes "vr_loop env buf fd st_size off batch tot s = (Some (b, t), s')"
  shows "prepared (calls (hist s')) = prepared (calls (hist s)) @ block_reads fd (blocks VR_BUFFER_SIZE off st_size)
    \<and> t = tot + length (blocks VR_BUFFER_SIZE off st_size)
    \<and> waited (calls (hist s')) + b + tot = waited (calls (hist s)) + batch + t"
  using assms
proof (induction "nat (st_size - off)" arbitrary: off batch tot s rule: less_induct)
  case less
  have pos: "0 < VR_BUFFER_SIZE" by (simp add: VR_BUFFER_SIZE_def)
  show ?case
  proof (cases "off < st_size")
    case False
    then show ?thesis using less.prems pos
      by (subst (asm) vr_loop.simps) (auto simp: blocks_done block_reads_def)
  next
    case True
    let ?len = "vr_bytes st_size off"
    obtain bt s1 where m: "vr_make_room env batch s = (Some (), bt, s1)"
      and sq: "rv (env (hist s1) (Ur GetSqe)) \<noteq> 0"
      using vr_loop_someD [OF less.prems True] by blast
    have rest: "vr_loop env buf fd st_size (off + ?len) (bt + 1) (tot + 1)
        (vr_prep env buf fd ?len off (do_call env (Ur GetSqe) s1)) = (Some (b, t), s')"
      using less.prems vr_loop_step [OF True m sq] by simp
    have "nat (st_size - (off + ?len)) < nat (st_size - off)"
      using True pos by (simp add: vr_bytes_min)
    from less.hyps [OF this rest] vr_make_room_calls [OF m] blocks_step [OF pos True] show ?thesis
      by (simp add: block_reads_def vr_bytes_min)
  qed
qed

lemma vr_flush_ok: "reads_succeed env \<Longrightarrow> \<exists>s'. vr_flush env n s = (Some (), s')"
  by (intro exI [of _ "snd (vr_flush env n s)"] prod_eqI) (simp_all add: vr_flush_def vr_collect_ok)

lemma vr_make_room_ok: "reads_succeed env \<Longrightarrow> \<exists>b s'. vr_make_room env batch s = (Some (), b, s')"
  using vr_flush_ok [of env batch s] by (auto simp: vr_make_room_def)

text \<open>The queue is never full when the loop asks for an entry.\<close>

lemma vr_loop_succeeds:
  assumes "sq_law VR_QUEUE_DEPTH env" "submit_law env" "reads_succeed env"
    and "unsubmitted (hist s) = batch" and "batch \<le> VR_BATCH_SIZE"
  shows "\<exists>b t s'. vr_loop env buf fd st_size off batch tot s = (Some (b, t), s')
    \<and> unsubmitted (hist s') = b \<and> b \<le> VR_BATCH_SIZE"
  using assms(4,5)
proof (induction "nat (st_size - off)" arbitrary: off batch tot s rule: less_induct)
  case less
  show ?case
  proof (cases "off < st_size")
    case False
    then show ?thesis using less.prems by (subst vr_loop.simps) simp
  next
    case True
    obtain bt s1 where m: "vr_make_room env batch s = (Some (), bt, s1)"
      using vr_make_room_ok [OF assms(3)] by blast
    then have bt: "bt < VR_BATCH_SIZE" "unsubmitted (hist s1) = bt"
      using vr_make_room_calls [OF m] less.prems assms(2) by auto
    then have sq: "rv (env (hist s1) (Ur GetSqe)) \<noteq> 0"
      using assms(1) by (simp add: sq_law_def VR_BATCH_SIZE_def VR_QUEUE_DEPTH_def)
    let ?s2 = "vr_prep env buf fd (vr_bytes st_size off) off (do_call env (Ur GetSqe) s1)"
    have "nat (st_size - (off + vr_bytes st_size off)) < nat (st_size - off)"
      using True by (simp add: vr_bytes_min VR_BUFFER_SIZE_def)
    moreover have "unsubmitted (hist ?s2) = bt + 1" using sq bt by simp
    ultimately show ?thesis
      using less.hyps [of "off + vr_bytes st_size off" ?s2 "bt + 1" "tot + 1"] bt
        vr_loop_step [OF True m sq] by simp
  qed
qed

section \<open>Properties\<close>

text \<open>The answers the program's success depends on, besides the ring.\<close>

definition file_opens :: "sys_env \<Rightarrow> int \<Rightarrow> int \<Rightarrow> bool" where
  "file_opens env fd n \<longleftrightarrow> 0 \<le> fd \<and> fd < 2 ^ 31 \<and> (\<forall>h. rv (env h (Px (Open ''1gb.txt'' 0 0))) = fd
     \<and> rv (env h (Px (Fstat fd))) = 0 \<and> aux (env h (Px (Fstat fd))) = n
     \<and> rv (env h (Ur (QueueInit VR_QUEUE_DEPTH))) = 0)"

lemma file_opensD:
  assumes "file_opens env fd n"
  shows "rv (env h (Px (Open ''1gb.txt'' 0 0))) = fd" "c_int fd = fd" "\<not> fd < 0"
    "rv (env h (Px (Fstat fd))) = 0" "aux (env h (Px (Fstat fd))) = n"
    "rv (env h (Ur (QueueInit VR_QUEUE_DEPTH))) = 0"
  using assms by (simp_all add: file_opens_def)

definition vr_opened :: "sys_env \<Rightarrow> int \<Rightarrow> sys \<Rightarrow> sys" where
  "vr_opened env fd s = do_call env (Px Time) (do_call env (Ur (QueueInit VR_QUEUE_DEPTH))
    (do_call env (Px (Fstat fd)) (do_call env (Px (Open ''1gb.txt'' 0 0)) s)))"

lemma benchmark_runs:
  assumes "file_opens env fd n"
  shows "benchmark_io_uring env buf s = (case vr_loop env buf fd n 0 0 0 (vr_opened env fd s) of
       (None, s) \<Rightarrow> (None, s) | (Some (batch, tot), s) \<Rightarrow> vr_finish env fd batch tot s)"
  using file_opensD [OF assms]
  by (simp add: benchmark_io_uring_def call_pair Let_def vr_opened_def cong: option.case_cong)

lemma vr_finish_calls:
  assumes "vr_finish env fd b t s = (Some (), s')"
  shows "prepared (calls (hist s')) = prepared (calls (hist s))
    \<and> waited (calls (hist s')) = waited (calls (hist s)) + b"
  using assms vr_flush_calls [of env b s]
  by (auto simp: vr_finish_def Let_def split: if_splits option.splits prod.splits)

lemma benchmark_calls:
  assumes "file_opens env fd n" and "benchmark_io_uring env buf s = (Some (), s')"
  shows "prepared (calls (hist s')) = prepared (calls (hist s)) @ block_reads fd (blocks 4096 0 n)
    \<and> waited (calls (hist s')) = waited (calls (hist s)) + length (blocks 4096 0 n)"
proof -
  obtain b t s1 where l: "vr_loop env buf fd n 0 0 0 (vr_opened env fd s) = (Some (b, t), s1)"
    and fl: "vr_finish env fd b t s1 = (Some (), s')"
    using assms(2) unfolding benchmark_runs [OF assms(1)] by (auto split: option.splits prod.splits)
  from vr_loop_calls [OF l] vr_finish_calls [OF fl] show ?thesis
    by (simp add: vr_opened_def VR_BUFFER_SIZE_def)
qed

text \<open>
  C32: whenever \<open>vanilla_uring_read\<close> finishes, it has read the whole file exactly once: the prepared
  reads are the consecutive 4096-byte blocks of the file, the last one cut to the rest, and as
  many completions have been collected as reads were prepared.
\<close>

theorem vanilla_reads_file_once:
  assumes "file_opens env fd n" and "fst (vr_main env buf) = 0"
  shows "prepared (calls (hist (snd (vr_main env buf)))) = block_reads fd (blocks 4096 0 n)
    \<and> waited (calls (hist (snd (vr_main env buf)))) = length (blocks 4096 0 n)"
proof -
  obtain s' where "benchmark_io_uring env buf fresh = (Some (), s')"
    using assms(2) by (auto simp: vr_main_def EXIT_FAILURE_def split: option.splits prod.splits)
  with benchmark_calls [OF assms(1) this] show ?thesis by (simp add: vr_main_def fresh_def)
qed

text \<open>
  C33: a submission queue of 512 entries suffices: when the file opens and no submit, wait or read
  fails, \<open>vanilla_uring_read\<close> never finds the queue full and exits with status 0, whatever the
  size of the file.
\<close>

theorem vanilla_succeeds:
  assumes "file_opens env fd n" and "sq_law 512 env" and "submit_law env" and "reads_succeed env"
  shows "fst (vr_main env buf) = 0"
proof -
  have "sq_law VR_QUEUE_DEPTH env" using assms(2) by (simp add: VR_QUEUE_DEPTH_def)
  moreover have "unsubmitted (hist (vr_opened env fd fresh)) = 0"
    by (simp add: vr_opened_def fresh_def unsubmitted_def)
  ultimately obtain b t s1 where l: "vr_loop env buf fd n 0 0 0 (vr_opened env fd fresh) = (Some (b, t), s1)"
    using vr_loop_succeeds [of env "vr_opened env fd fresh" 0 buf fd n 0 0] assms(3,4) by auto
  obtain s2 where "vr_flush env b s1 = (Some (), s2)" using vr_flush_ok [OF assms(4)] by blast
  then show ?thesis
    by (simp add: vr_main_def benchmark_runs [OF assms(1)] l vr_finish_def Let_def)
qed

text \<open>A file of \<open>n\<close> bytes on descriptor 3, and a ring that follows the documentation.\<close>

definition file_env :: "int \<Rightarrow> nat \<Rightarrow> sys_env" where
  "file_env n depth h e = \<lparr>rv = (case e of Px (Open _ _ _) \<Rightarrow> 3
      | Ur GetSqe \<Rightarrow> if unsubmitted h < depth then 1 else 0 | _ \<Rightarrow> 0),
     errno = 0, aux = (case e of Px (Fstat _) \<Rightarrow> n | _ \<Rightarrow> 0), dat = []\<rparr>"

lemma file_env_laws:
  "file_opens (file_env n d) 3 n" "sq_law d (file_env n d)" "submit_law (file_env n d)"
  "reads_succeed (file_env n d)"
  by (simp_all add: file_opens_def sq_law_def submit_law_def reads_succeed_def file_env_def)

theorem vanilla_succeeds_witness: "fst (vr_main (file_env 1000000 512) 4096) = 0"
  by (rule vanilla_succeeds [OF file_env_laws])

theorem vanilla_reads_file_once_witness:
  "prepared (calls (hist (snd (vr_main (file_env 5000 512) 65536)))) = [(3, 4096, 0), (3, 904, 4096)]"
proof -
  have "fst (vr_main (file_env 5000 512) 65536) = 0" by (rule vanilla_succeeds [OF file_env_laws])
  moreover have "blocks 4096 0 5000 = [(0, 4096), (4096, 904)]"
    by (simp add: blocks_step blocks_done)
  ultimately show ?thesis
    using vanilla_reads_file_once [OF file_env_laws(1)] by (simp add: block_reads_def)
qed

section \<open>read_uring.c never submits\<close>

definition submits_or_waits :: "sys_call \<Rightarrow> bool" where
  "submits_or_waits e \<longleftrightarrow> e = Ur Submit \<or> (\<exists>n. e = Ur (SubmitAndWait n)) \<or> e = Ur WaitCqe \<or> e = Ur PeekCqe"

text \<open>The ring holds every read that was prepared, at most 32, and nothing was submitted.\<close>

definition stuck :: "sys \<Rightarrow> bool" where
  "stuck s \<longleftrightarrow> length (prepared (calls (hist s))) = unsubmitted (hist s) \<and> unsubmitted (hist s) \<le> 32
     \<and> (\<forall>e \<in> set (calls (hist s)). \<not> submits_or_waits e)"

lemma stuck_do_call:
  assumes "stuck s" and "\<not> submits_or_waits e" and "prepared [e] = []"
    and "unsubmitted (hist s @ [(e, env (hist s) e)]) = unsubmitted (hist s)"
  shows "stuck (do_call env e s)"
  using assms by (auto simp: stuck_def)

lemma stuck_px: "stuck s \<Longrightarrow> stuck (do_call env (Px c) s)"
  by (rule stuck_do_call) (simp_all add: submits_or_waits_def)

lemma ru_loop_stuck:
  assumes "sq_law 32 env"
  shows "stuck s \<Longrightarrow> batch \<le> unsubmitted (hist s) \<Longrightarrow> 32 - unsubmitted (hist s) < fuel \<Longrightarrow>
     \<exists>s'. ru_loop env buf fd start fuel batch s = Done s' \<and> stuck s'"
proof (induction fuel arbitrary: batch s)
  case (Suc fuel)
  let ?s1 = "do_call env (Px Time) s"
  let ?s2 = "do_call env (Ur GetSqe) ?s1"
  let ?s3 = "do_call env (Ur (PrepRead fd buf 4 0)) ?s2"
  have s1: "stuck ?s1" using Suc.prems by (intro stuck_px)
  consider (time) "\<not> rv (env (hist s) (Px Time)) - start < 1"
    | (full) "rv (env (hist s) (Px Time)) - start < 1" "rv (env (hist ?s1) (Ur GetSqe)) = 0"
    | (free) "rv (env (hist s) (Px Time)) - start < 1" "rv (env (hist ?s1) (Ur GetSqe)) \<noteq> 0"
    by blast
  then show ?case
  proof cases
    case time
    then show ?thesis using s1 by (simp add: call_pair)
  next
    case full
    then have "stuck ?s2" using s1 by (auto simp: stuck_def submits_or_waits_def)
    then show ?thesis using full by (simp add: call_pair stuck_px)
  next
    case free
    then have u: "unsubmitted (hist ?s1) < 32" using assms unfolding sq_law_def by blast
    have s3: "stuck ?s3" using s1 free u by (auto simp: stuck_def submits_or_waits_def)
    have "batch + 1 \<le> unsubmitted (hist ?s3)" "32 - unsubmitted (hist ?s3) < fuel"
      using Suc.prems free u by auto
    from Suc.IH [OF s3 this] u Suc.prems(2) free show ?thesis
      by (simp add: call_pair RU_BATCH_SIZE_def)
  qed
qed simp

lemma ru_loop_stuck_33:
  "sq_law 32 env \<Longrightarrow> stuck s \<Longrightarrow> \<exists>s'. ru_loop env buf fd start 33 0 s = Done s' \<and> stuck s'"
  by (rule ru_loop_stuck) simp_all

lemma test_stuck:
  assumes "sq_law 32 env" and "stuck s"
  shows "\<exists>r s'. test_io_uring env buf 33 s = Done (r, s') \<and> stuck s'"
proof -
  let ?s1 = "do_call env (Px (Print ''Test for io_uring read'')) s"
  let ?s2 = "do_call env (Px (Open ''temp.txt'' 0 0)) ?s1"
  let ?fd = "c_int (rv (env (hist ?s1) (Px (Open ''temp.txt'' 0 0))))"
  let ?s3 = "do_call env (Px (PrintInt ''fd: %d'' ?fd)) ?s2"
  let ?s4 = "do_call env (Px Time) ?s3"
  have "stuck ?s4" by (intro stuck_px assms(2))
  from ru_loop_stuck_33 [OF assms(1) this, of buf ?fd "rv (env (hist ?s3) (Px Time))"] obtain s5
    where "ru_loop env buf ?fd (rv (env (hist ?s3) (Px Time))) 33 0 ?s4 = Done s5" "stuck s5" by (elim exE conjE)
  then show ?thesis
    using assms(2) by (auto simp: test_io_uring_def call_pair Let_def simp del: ru_loop.simps
        hist_do_call intro!: stuck_px)
qed

lemma rounds_stuck:
  assumes "sq_law 32 env"
  shows "stuck s \<Longrightarrow> \<exists>s'. ru_rounds env buf 33 k s = Done s' \<and> stuck s'"
proof (induction k arbitrary: s)
  case (Suc k)
  obtain r s1 where "test_io_uring env buf 33 s = Done (r, s1)" "stuck s1"
    using test_stuck [OF assms Suc.prems] by blast
  then show ?case using Suc.IH [OF stuck_px] by simp
qed simp

text \<open>
  C34: \<open>read_uring.c\<close> asks for batches of 256 from a ring of 32: with a ring that follows the
  documentation the test ends each time it finds the queue full, so for any number of rounds at
  most 32 reads are ever prepared and none of them is submitted or waited for. The branch that
  would pass a wrong pointer to liburing is never reached, and 33 iterations per round suffice.
\<close>

theorem read_uring_never_submits:
  assumes "sq_law 32 env" and "0 \<le> rv (env [] (Ur (QueueInit 32)))" and "rv (env [] (Ur (QueueInit 32))) < 2 ^ 31"
  shows "\<exists>s. ru_main env buf 33 k = Done (None, s) \<and> length (prepared (calls (hist s))) \<le> 32
     \<and> (\<forall>e \<in> set (calls (hist s)). \<not> submits_or_waits e)"
proof -
  have "stuck (do_call env (Ur (QueueInit 32)) fresh)"
    by (simp add: stuck_def fresh_def unsubmitted_def submits_or_waits_def)
  from rounds_stuck [OF assms(1) stuck_px [OF this], of buf k] obtain s
    where "ru_rounds env buf 33 k (do_call env (Px (Print ''Start''))
        (do_call env (Ur (QueueInit 32)) fresh)) = Done s" "stuck s" by blast
  then show ?thesis using assms(2,3)
    by (simp add: ru_main_def call_pair fresh_def stuck_def)
qed

theorem read_uring_never_submits_witness:
  "\<exists>s. ru_main (file_env 0 32) 4096 33 5 = Done (None, s) \<and> length (prepared (calls (hist s))) \<le> 32"
  using read_uring_never_submits [OF file_env_laws(2), of 0 4096 5] by (auto simp: file_env_def)

end
