(* ===== verification/Helper_Ids.thy ===== *)
theory Helper_Ids
  imports Prelude
begin

text \<open>
  The numbers under which the BPF programs call the extended helpers of the bpftime runtime: each
  program repeats a table of \<open>EXTENDED_HELPER_IOURING_*\<close> macros and of function pointers cast from
  them. A table lists the helpers a program declares with their numbers.
\<close>

datatype helper =
    INIT | SUBMIT_WRITE | SUBMIT_READ | SUBMIT_SEND | SUBMIT_RECV | SUBMIT_FSYNC | WAIT_AND_SEEN
  | SUBMIT | SUBMIT_AND_WAIT | SUBMIT_PREAD | SET_LINKFLAG | WAIT | SEEN | GET_SQE

text \<open>The helpers in the order of the table of \<open>batch.bpf.c\<close>, the longest.\<close>

fun helper_rank :: "helper \<Rightarrow> nat" where
  "helper_rank INIT = 0" | "helper_rank SUBMIT_WRITE = 1" | "helper_rank SUBMIT_READ = 2"
| "helper_rank SUBMIT_SEND = 3" | "helper_rank SUBMIT_RECV = 4" | "helper_rank SUBMIT_FSYNC = 5"
| "helper_rank WAIT_AND_SEEN = 6" | "helper_rank SUBMIT = 7" | "helper_rank SUBMIT_AND_WAIT = 8"
| "helper_rank SUBMIT_PREAD = 9" | "helper_rank SET_LINKFLAG = 10" | "helper_rank WAIT = 11"
| "helper_rank SEEN = 12" | "helper_rank GET_SQE = 13"

lemma helper_rank_inject: "helper_rank a = helper_rank b \<longleftrightarrow> a = b"
  by (cases a; cases b) simp_all

instantiation helper :: linorder
begin

definition less_eq_helper :: "helper \<Rightarrow> helper \<Rightarrow> bool" where
  "less_eq_helper a b \<longleftrightarrow> helper_rank a \<le> helper_rank b"

definition less_helper :: "helper \<Rightarrow> helper \<Rightarrow> bool" where
  "less_helper a b \<longleftrightarrow> helper_rank a < helper_rank b"

instance
  by standard (auto simp: less_eq_helper_def less_helper_def helper_rank_inject)

end

type_synonym helper_table = "(helper \<times> nat) list"

definition backup_table :: helper_table where
  "backup_table = [(INIT, 1006), (SUBMIT_WRITE, 1007), (SUBMIT_READ, 1008), (SUBMIT_SEND, 1009),
     (SUBMIT_RECV, 1010), (SUBMIT_FSYNC, 1011), (WAIT_AND_SEEN, 1012), (SUBMIT, 1013),
     (SUBMIT_AND_WAIT, 1014), (SUBMIT_PREAD, 1015), (SET_LINKFLAG, 1016), (WAIT, 1017), (SEEN, 1018)]"

definition clickhouse_uring_table :: helper_table where
  "clickhouse_uring_table = [(INIT, 1006), (SUBMIT_WRITE, 1007), (SUBMIT_READ, 1008),
     (SUBMIT_SEND, 1009), (SUBMIT_RECV, 1010), (SUBMIT_FSYNC, 1011), (WAIT_AND_SEEN, 1012),
     (SUBMIT, 1013), (SUBMIT_AND_WAIT, 1014), (SUBMIT_PREAD, 1015), (SET_LINKFLAG, 1016),
     (WAIT, 1017), (SEEN, 1018)]"

definition tp_table :: helper_table where
  "tp_table = [(INIT, 1006), (SUBMIT_WRITE, 1007), (SUBMIT_READ, 1008), (SUBMIT_SEND, 1009),
     (SUBMIT_RECV, 1010), (SUBMIT_FSYNC, 1011), (WAIT_AND_SEEN, 1012), (SUBMIT, 1013),
     (SUBMIT_AND_WAIT, 1014), (SUBMIT_PREAD, 1015), (SET_LINKFLAG, 1016), (WAIT, 1017), (SEEN, 1018)]"

definition batch_table :: helper_table where
  "batch_table = [(INIT, 1006), (SUBMIT_WRITE, 1007), (SUBMIT_READ, 1008), (SUBMIT_SEND, 1009),
     (SUBMIT_RECV, 1010), (SUBMIT_FSYNC, 1011), (WAIT_AND_SEEN, 1012), (SUBMIT, 1013),
     (SUBMIT_AND_WAIT, 1014), (SUBMIT_PREAD, 1015), (SET_LINKFLAG, 1016), (WAIT, 1017),
     (SEEN, 1018), (GET_SQE, 1019)]"

definition hotpatch_table :: helper_table where
  "hotpatch_table = [(INIT, 1006), (SUBMIT_WRITE, 1007), (SUBMIT_READ, 1008), (SUBMIT_SEND, 1009),
     (SUBMIT_RECV, 1010), (SUBMIT_FSYNC, 1011), (WAIT_AND_SEEN, 1012), (SUBMIT, 1013)]"

definition test_table :: helper_table where
  "test_table = [(INIT, 1006), (SUBMIT_WRITE, 1007), (SUBMIT_READ, 1008), (SUBMIT_SEND, 1009),
     (SUBMIT_RECV, 1010), (SUBMIT_FSYNC, 1011), (WAIT_AND_SEEN, 1012), (SUBMIT, 1013)]"

definition clickhouse_iouring_table :: helper_table where
  "clickhouse_iouring_table = [(INIT, 1006), (SUBMIT_WRITE, 1007), (SUBMIT_FSYNC, 1008),
     (WAIT_AND_SEEN, 1009), (SUBMIT, 1010)]"

text \<open>What a runtime that numbers its helpers by one table runs for a call from another.\<close>

definition runs_as :: "helper_table \<Rightarrow> helper_table \<Rightarrow> helper \<Rightarrow> helper option" where
  "runs_as runtime prog h = do {
     n \<leftarrow> map_of prog h;
     map_of (map prod.swap runtime) n }"

text \<open>
  A table in that order with consecutive numbers from 1006 is a prefix of the numbering; the
  ClickHouse one is in order, but leaves helpers out and closes the gaps.
\<close>

definition in_order :: "helper_table \<Rightarrow> bool" where
  "in_order p \<longleftrightarrow> sorted_wrt (<) (map fst p) \<and> map snd p = [1006..<1006 + length p]"

lemma tables_in_order:
  "in_order backup_table" "in_order clickhouse_uring_table" "in_order tp_table" "in_order batch_table"
  "in_order hotpatch_table" "in_order test_table" "in_order clickhouse_iouring_table"
  by (simp_all add: in_order_def less_helper_def upt_rec backup_table_def clickhouse_uring_table_def
      tp_table_def batch_table_def hotpatch_table_def test_table_def clickhouse_iouring_table_def)

text \<open>So a number fixes its place: two tables conflict exactly where their helpers differ in a place.\<close>

lemma in_order_nth: "in_order p \<Longrightarrow> i < length p \<Longrightarrow> snd (p ! i) = 1006 + i"
proof -
  assume p: "in_order p" and i: "i < length p"
  have "snd (p ! i) = map snd p ! i" using i by simp
  also have "\<dots> = 1006 + i" using p i unfolding in_order_def by (metis length_map length_upt nth_upt add_diff_cancel_left' nat_add_left_cancel_less)
  finally show ?thesis .
qed

text \<open>
  Six of the seven tables agree: on a runtime numbered as \<open>batch.bpf.c\<close> expects, each of these
  programs gets the helper it names, for every helper it declares. \<open>clickhouse-iouring\<close> does not:
  there its fsync would be a read, its wait a send, and its submit a receive.
\<close>

theorem helper_numbers:
  "list_all (\<lambda>p. list_all (\<lambda>(h, n). runs_as batch_table p h = Some h) p)
      [backup_table, clickhouse_uring_table, tp_table, batch_table, hotpatch_table, test_table]
   \<and> runs_as batch_table clickhouse_iouring_table SUBMIT_FSYNC = Some SUBMIT_READ
   \<and> runs_as batch_table clickhouse_iouring_table WAIT_AND_SEEN = Some SUBMIT_SEND
   \<and> runs_as batch_table clickhouse_iouring_table SUBMIT = Some SUBMIT_RECV"
  by (simp add: runs_as_def backup_table_def clickhouse_uring_table_def tp_table_def
      batch_table_def hotpatch_table_def test_table_def clickhouse_iouring_table_def)

end
