(* ===== verification/Writeback.thy ===== *)
theory Writeback
  imports Bpf_Runtime
begin

text \<open>
  The RocksDB experiments: \<open>bpf/rocksdb.bpf.c\<close> lets a wait for io_uring return at once when the
  kernel has already written back enough inodes, \<open>simple_override/rocksdb.bpf.c\<close> always does, and
  \<open>fsync-latency-bpf/rocksdb.bpf.c\<close> measures how long an fsync takes. What a probe reads from
  user or kernel memory is an argument.
\<close>

section \<open>bpf/rocksdb.bpf.c\<close>

record inode_data =
  id_pid :: i32
  id_fd :: i32
  id_i_ino :: u32

record wb = bpf +
  wb_inode_map :: "(u32, inode_data) hmap"
  wb_start_map :: "(u64, u64) hmap"
  successful_writeback_count :: u64

definition wb_loaded :: wb where
  "wb_loaded = \<lparr>blog = [], wb_inode_map = hm_empty 10000, wb_start_map = hm_empty 10000,
     successful_writeback_count = 0\<rparr>"

text \<open>\<open>count\<close> is the byte \<open>uptr->sync_count\<close> in the memory of the process.\<close>

definition wait_for_queue :: "u64 \<Rightarrow> u8 \<Rightarrow> wb \<Rightarrow> int \<times> wb" where
  "wait_for_queue uptr count s =
     (if uptr = 0 then (0, emit (Printk ''uptr is null'') s)
      else if successful_writeback_count s \<le> 0 \<or> successful_writeback_count s < ucast count then (0, s)
      else
        let s = s\<lparr>successful_writeback_count := successful_writeback_count s - ucast count\<rparr>
        in (0, emit (OverrideReturn 0) s))"

text \<open>
  What the probe finds behind the descriptor: the result of reading the table of open files, the
  file, its inode (0 for NULL), the inode number and the name.
\<close>

record kernel_file =
  kf_ret :: i32
  kf_file :: u64
  kf_inode :: u64
  kf_i_ino :: u64
  kf_name :: string

definition hook_submit_fd :: "kernel_file \<Rightarrow> bpf_ctx \<Rightarrow> i32 \<Rightarrow> wb \<Rightarrow> int \<times> wb" where
  "hook_submit_fd k c fd s =
     (let s = emit (Printk ''fsync fd: %d'') s in
      if kf_ret k \<noteq> 0 then (0, emit (Printk ''bpf_probe_read failed: %d'') s)
      else if kf_file k = 0 then (0, emit (Printk ''file is null'') s)
      else if kf_inode k = 0 then (0, emit (Printk ''inode is null'') s)
      else
        let i_ino = kf_i_ino k;
            s = emit (Printk ''fsync filename: %s inode: %lu'') s;
            data = \<lparr>id_pid = cur_pid c, id_fd = fd, id_i_ino = ucast i_ino\<rparr>
        in (0, s\<lparr>wb_inode_map := snd (hm_update (wb_inode_map s) (ucast i_ino) data)\<rparr>))"

definition writeback_single_inode :: "u64 \<Rightarrow> u64 \<Rightarrow> wb \<Rightarrow> int \<times> wb" where
  "writeback_single_inode inode i_ino s =
     (if inode = 0 then (0, s)
      else
        (case hm_lookup (wb_inode_map s) (ucast i_ino) of
           None \<Rightarrow> (0, s)
         | Some data \<Rightarrow>
             let s = emit (Printk ''__writeback_single_inode, %lu successful_writeback_count: %llu'') s;
                 s = emit (Printk ''data: %d, %d, %lu'') s
             in (0, s\<lparr>successful_writeback_count := successful_writeback_count s + 1\<rparr>)))"

section \<open>simple_override/rocksdb.bpf.c\<close>

definition so_wait_for_queue :: "u64 \<Rightarrow> bpf \<Rightarrow> int \<times> bpf" where
  "so_wait_for_queue uptr s =
     (if uptr = 0 then (0, emit (Printk ''uptr is null'') s) else (0, emit (OverrideReturn 0) s))"

section \<open>Credits\<close>

text \<open>
  The traces of the program, with the number \<open>w\<close> of credited write-backs and the number \<open>g\<close> of
  operations the skipped waits stood for.
\<close>

inductive wb_trace :: "nat \<Rightarrow> nat \<Rightarrow> wb \<Rightarrow> bool" where
  loaded: "wb_trace 0 0 wb_loaded"
| submit: "wb_trace w g s \<Longrightarrow> wb_trace w g (snd (hook_submit_fd k c fd s))"
| credit: "wb_trace w g s \<Longrightarrow> inode \<noteq> 0 \<Longrightarrow> hm_lookup (wb_inode_map s) (ucast ino) \<noteq> None \<Longrightarrow>
     wb_trace (w + 1) g (snd (writeback_single_inode inode ino s))"
| other: "wb_trace w g s \<Longrightarrow> inode = 0 \<or> hm_lookup (wb_inode_map s) (ucast ino) = None \<Longrightarrow>
     wb_trace w g (snd (writeback_single_inode inode ino s))"
| skip: "wb_trace w g s \<Longrightarrow> wait_for_queue uptr n s = (r, s') \<Longrightarrow>
     blog s' = blog s @ [OverrideReturn 0] \<Longrightarrow> wb_trace w (g + unat n) s'"
| wait: "wb_trace w g s \<Longrightarrow> wait_for_queue uptr n s = (r, s') \<Longrightarrow>
     blog s' \<noteq> blog s @ [OverrideReturn 0] \<Longrightarrow> wb_trace w g s'"

lemma hook_count [simp]:
  "successful_writeback_count (snd (hook_submit_fd k c fd s)) = successful_writeback_count s"
  by (simp add: hook_submit_fd_def Let_def emit_def)

lemma emit_wb [simp]:
  "successful_writeback_count (emit e s) = successful_writeback_count s"
  "wb_inode_map (emit e s) = wb_inode_map s"
  by (simp_all add: emit_def)

lemma wait_cases:
  assumes "wait_for_queue uptr n s = (r, s')"
  shows "(blog s' = blog s @ [OverrideReturn 0]
       \<and> unat (successful_writeback_count s) = unat (successful_writeback_count s') + unat n)
    \<or> (blog s' \<noteq> blog s @ [OverrideReturn 0] \<and> successful_writeback_count s' = successful_writeback_count s)"
proof -
  let ?c = "successful_writeback_count s"
  consider "uptr = 0" | "uptr \<noteq> 0" "?c \<le> 0 \<or> ?c < ucast n" | "uptr \<noteq> 0" "\<not> (?c \<le> 0 \<or> ?c < ucast n)"
    by blast
  then show ?thesis
  proof cases
    case 3
    then have "(ucast n :: u64) \<le> ?c" by (simp add: not_less)
    then have "unat (?c - ucast n) = unat ?c - unat n" "unat n \<le> unat ?c"
      by (simp_all add: unat_sub word_le_nat_alt)
    then show ?thesis using assms 3 by (auto simp: wait_for_queue_def Let_def)
  qed (use assms in \<open>auto simp: wait_for_queue_def\<close>)
qed

text \<open>
  C30: a wait is skipped only against write-backs that happened: along every trace of the program
  (fewer than 2 to the 64 write-backs), the operations the skipped waits stood for and the
  remaining counter add up to the credited write-backs.
\<close>

theorem skipped_waits_are_paid:
  assumes "wb_trace w g s" and "w < 2 ^ 64"
  shows "g + unat (successful_writeback_count s) = w"
  using assms
proof (induction rule: wb_trace.induct)
  case (credit w g s inode ino)
  then have u: "g + unat (successful_writeback_count s) = w" "w + 1 < 2 ^ 64" by simp_all
  then have "unat (successful_writeback_count s + 1) = unat (successful_writeback_count s) + 1"
    by (intro unat_plus_one) simp
  with credit.hyps u show ?case by (auto simp: writeback_single_inode_def Let_def)
next
  case (skip w g s uptr n r s')
  with wait_cases [OF skip.hyps(2)] show ?case by auto
next
  case (wait w g s uptr n r s')
  with wait_cases [OF wait.hyps(2)] show ?case by auto
qed (auto simp: wb_loaded_def writeback_single_inode_def)

theorem skipped_waits_are_paid_witness:
  "\<exists>g. wb_trace 1 g (snd (writeback_single_inode 1 7
     (snd (hook_submit_fd \<lparr>kf_ret = 0, kf_file = 1, kf_inode = 1, kf_i_ino = 7, kf_name = ''a''\<rparr>
       \<lparr>parm1 = 0, parm2 = 0, parm3 = 0, parm4 = 0, parm5 = 0, cur_pid_tgid = 0, ktime_ns = 0\<rparr> 3 wb_loaded))))
   \<and> g = 0"
proof -
  let ?s = "snd (hook_submit_fd \<lparr>kf_ret = 0, kf_file = 1, kf_inode = 1, kf_i_ino = 7, kf_name = ''a''\<rparr>
       \<lparr>parm1 = 0, parm2 = 0, parm3 = 0, parm4 = 0, parm5 = 0, cur_pid_tgid = 0, ktime_ns = 0\<rparr> 3 wb_loaded)"
  have l: "hm_lookup (wb_inode_map ?s) 7 = Some \<lparr>id_pid = 0, id_fd = 3, id_i_ino = 7\<rparr>"
    by (simp add: hook_submit_fd_def wb_loaded_def hm_empty_def hm_update_def hm_room_def hm_keys_def
        hm_lookup_def cur_pid_def)
  then have t: "wb_trace (0 + 1) 0 (snd (writeback_single_inode 1 7 ?s))"
    by (intro wb_trace.credit wb_trace.submit wb_trace.loaded) simp_all
  have "0 + unat (successful_writeback_count (snd (writeback_single_inode 1 7 ?s))) = 0 + 1"
    using skipped_waits_are_paid [OF t] by simp
  with t show ?thesis by auto
qed

text \<open>The state after \<open>m\<close> write-backs of an inode.\<close>

definition written_back :: "u64 \<Rightarrow> u64 \<Rightarrow> nat \<Rightarrow> wb \<Rightarrow> wb" where
  "written_back inode ino m s = ((\<lambda>s. snd (writeback_single_inode inode ino s)) ^^ m) s"

lemma credits_add_up:
  assumes "inode \<noteq> 0" and "hm_lookup (wb_inode_map s) (ucast ino) \<noteq> None"
  shows "successful_writeback_count (written_back inode ino m s) = successful_writeback_count s + of_nat m
    \<and> wb_inode_map (written_back inode ino m s) = wb_inode_map s"
proof (induction m)
  case (Suc m)
  then show ?case using assms by (auto simp: written_back_def writeback_single_inode_def Let_def)
qed (simp add: written_back_def)

text \<open>
  C31: an entry of the inode map is never taken out, so one submitted operation is credited with every later
  write-back of its inode: after a single submit and \<open>m\<close> write-backs of that inode, a wait for any number of
  operations up to \<open>m\<close> is skipped, although all of them but one were never written back.
\<close>

theorem one_submit_pays_many:
  assumes found: "kf_ret k = 0" "kf_file k \<noteq> 0" "kf_inode k \<noteq> 0" "hm_room (ucast (kf_i_ino k)) (wb_inode_map s)"
    and none: "successful_writeback_count s = 0" and ptrs: "inode \<noteq> 0" "uptr \<noteq> 0"
    and n: "0 < n" "unat n \<le> m" and m: "m < 2 ^ 64"
    and s': "s' = written_back inode (kf_i_ino k) m (snd (hook_submit_fd k c fd s))"
  shows "wait_for_queue uptr n s' = (0, emit (OverrideReturn 0) (s'\<lparr>successful_writeback_count := of_nat (m - unat n)\<rparr>))"
proof -
  let ?d = "\<lparr>id_pid = cur_pid c, id_fd = fd, id_i_ino = ucast (kf_i_ino k)\<rparr>"
  have "hm_lookup (wb_inode_map (snd (hook_submit_fd k c fd s))) (ucast (kf_i_ino k)) = Some ?d"
    using found hash_map.update_same [OF found(4), of ?d] by (simp add: hook_submit_fd_def Let_def)
  then have count: "successful_writeback_count s' = of_nat m"
    using credits_add_up [OF ptrs(1)] none by (simp add: s' hook_count)
  have "0 < unat n" using n(1) by (simp add: unat_gt_0)
  then have "unat (of_nat m :: u64) = m" "0 < m" using m n(2) by (simp_all add: unat_of_nat)
  then have "\<not> (of_nat m :: u64) \<le> 0" "\<not> (of_nat m :: u64) < ucast n"
    using n(2) by (auto simp: word_le_nat_alt word_less_nat_alt)
  moreover have "(of_nat m :: u64) - ucast n = of_nat (m - unat n)"
    using n(2) by (simp add: of_nat_diff unsigned_of_nat [symmetric] del: unsigned_of_nat)
  ultimately show ?thesis using ptrs(2) by (simp add: wait_for_queue_def count Let_def)
qed

definition sample_file :: kernel_file where
  "sample_file = \<lparr>kf_ret = 0, kf_file = 1, kf_inode = 1, kf_i_ino = 7, kf_name = ''a''\<rparr>"

theorem one_submit_pays_many_witness:
  "\<exists>s. blog (snd (wait_for_queue 1 200 s)) = blog s @ [OverrideReturn 0] \<and> wb_inode_map s =
     snd (hm_update (hm_empty 10000) 7 \<lparr>id_pid = 42, id_fd = 3, id_i_ino = 7\<rparr>)"
proof -
  let ?c = "\<lparr>parm1 = 0, parm2 = 0, parm3 = 0, parm4 = 0, parm5 = 0, cur_pid_tgid = push_bit 32 42, ktime_ns = 0\<rparr>"
  let ?s = "written_back 1 (kf_i_ino sample_file) 200 (snd (hook_submit_fd sample_file ?c 3 wb_loaded))"
  have "wait_for_queue 1 200 ?s = (0, emit (OverrideReturn 0) (?s\<lparr>successful_writeback_count := of_nat (200 - unat (200 :: u8))\<rparr>))"
    by (rule one_submit_pays_many [where k = sample_file and s = wb_loaded]) (simp_all add: sample_file_def wb_loaded_def hm_room_def hm_empty_def)
  moreover have "wb_inode_map ?s = snd (hm_update (hm_empty 10000) 7 \<lparr>id_pid = 42, id_fd = 3, id_i_ino = 7\<rparr>)"
  proof -
    have e: "wb_inode_map (snd (hook_submit_fd sample_file ?c 3 wb_loaded)) = snd (hm_update (hm_empty 10000) 7 \<lparr>id_pid = 42, id_fd = 3, id_i_ino = 7\<rparr>)"
      by (simp add: hook_submit_fd_def sample_file_def wb_loaded_def cur_pid_def)
    then have "hm_lookup (wb_inode_map (snd (hook_submit_fd sample_file ?c 3 wb_loaded))) (ucast (kf_i_ino sample_file)) \<noteq> None"
      by (simp add: sample_file_def hm_empty_def hm_update_def hm_room_def hm_keys_def hm_lookup_def)
    from credits_add_up [OF _ this, of 1 200] e show ?thesis by simp
  qed
  ultimately show ?thesis by (intro exI [of _ ?s]) simp
qed

section \<open>fsync-latency-bpf/rocksdb.bpf.c\<close>

text \<open>The latencies are signed 64-bit words.\<close>

record avg_latency_t =
  al_count :: u64
  latency_to_write :: u64
  latency_to_fsync_exit :: u64

record lat = bpf +
  avg_latency :: avg_latency_t
  lat_start_map :: "(u64, u64) hmap"

definition lat_loaded :: lat where
  "lat_loaded = \<lparr>blog = [], avg_latency = \<lparr>al_count = 0, latency_to_write = 0, latency_to_fsync_exit = 0\<rparr>,
     lat_start_map = hm_empty 1000\<rparr>"

text \<open>The division is unsigned: \<open>count\<close> is a \<open>u64\<close>, so the signed difference is converted.\<close>

definition lat_writeback :: "bpf_ctx \<Rightarrow> lat \<Rightarrow> int \<times> lat" where
  "lat_writeback c s =
     (case hm_lookup (lat_start_map s) (cur_pid_tgid c) of
        None \<Rightarrow> (0, s)
      | Some start_ns \<Rightarrow>
          let latency = ktime_ns c - start_ns; a = avg_latency s; count = al_count a;
              a = a\<lparr>latency_to_write :=
                    latency_to_write a + (latency - latency_to_write a) div (count + 1)\<rparr>;
              a = a\<lparr>al_count := al_count a + 1\<rparr>;
              s = s\<lparr>avg_latency := a\<rparr>
          in (0, emit (Printk ''__writeback_single_inode latency: %lls'') s))"

definition lat_enter_fsync :: "bpf_ctx \<Rightarrow> lat \<Rightarrow> int \<times> lat" where
  "lat_enter_fsync c s =
     (0, s\<lparr>lat_start_map := snd (hm_update (lat_start_map s) (cur_pid_tgid c) (ktime_ns c))\<rparr>)"

definition lat_exit_fsync :: "bpf_ctx \<Rightarrow> lat \<Rightarrow> int \<times> lat" where
  "lat_exit_fsync c s =
     (case hm_lookup (lat_start_map s) (cur_pid_tgid c) of
        None \<Rightarrow> (0, s)
      | Some start_ns \<Rightarrow>
          let latency = ktime_ns c - start_ns; a = avg_latency s; count = al_count a;
              a = a\<lparr>latency_to_fsync_exit := (latency - latency_to_fsync_exit a) div (count + 1)\<rparr>;
              a = a\<lparr>al_count := al_count a + 1\<rparr>;
              s = s\<lparr>avg_latency := a\<rparr>;
              s = emit (Printk ''fsync latency: %lls, count %llu'') s;
              s = emit (Printk ''avg fsync latency: %lls'') s
          in (0, s\<lparr>lat_start_map := hm_delete (lat_start_map s) (cur_pid_tgid c)\<rparr>))"

lemma lat_emit [simp]:
  "avg_latency (emit e s) = avg_latency s" "lat_start_map (emit e s) = lat_start_map s"
  by (simp_all add: emit_def)

lemma lookup_delete: "hm_lookup (hm_delete m k) j = (if j = k then None else hm_lookup m j)"
  by (simp add: hm_lookup_def hm_delete_def delete_conv')

lemma udiv_int: "unat ((x :: u64) div y) = unat x div unat y"
  by (rule unat_div_distrib)

text \<open>
  The running average of the write-back latency is an incremental mean only while latencies do
  not fall: with \<open>n\<close> samples so far, a latency at least the average moves the average up by the
  \<open>n + 1\<close>st part of the difference, rounded down; a smaller one is divided as an unsigned number,
  and with at least one earlier sample the new value is above both.
\<close>

theorem writeback_average:
  assumes "hm_lookup (lat_start_map s) (cur_pid_tgid c) = Some t"
    and "a = latency_to_write (avg_latency s)" and "l = ktime_ns c - t"
    and "n = unat (al_count (avg_latency s))" and "n + 1 < 2 ^ 64"
    and "unat a < 2 ^ 62" and "unat l < 2 ^ 62"
    and "a' = latency_to_write (avg_latency (snd (lat_writeback c s)))"
  shows "(a \<le> l \<longrightarrow> unat a' = unat a + (unat l - unat a) div (n + 1))
    \<and> (l < a \<and> n = 1 \<longrightarrow> unat a' = unat a + (2 ^ 64 + unat l - unat a) div 2 \<and> a < a')"
proof -
  let ?n1 = "al_count (avg_latency s) + 1"
  have n1: "unat ?n1 = n + 1"
    using assms(4,5) by (simp add: unat_plus_one)
  have a': "a' = a + (l - a) div ?n1"
    using assms(1,2,3,8) by (simp add: lat_writeback_def Let_def)
  have up: "unat a' = unat a + (unat l - unat a) div (n + 1)" if "a \<le> l"
  proof -
    have d: "unat ((l - a) div ?n1) = (unat l - unat a) div (n + 1)"
      using that by (simp add: udiv_int n1 unat_sub)
    have "(unat l - unat a) div (n + 1) \<le> unat l - unat a" by (rule div_le_dividend)
    moreover have "unat a < 4611686018427387904" "unat l < 4611686018427387904"
      using assms(6,7) by simp_all
    ultimately have "unat a + (unat l - unat a) div (n + 1) < 18446744073709551616" by linarith
    then show ?thesis unfolding a' by (simp only: unat_word_ariths(1) d) simp
  qed
  have down: "unat a' = unat a + (2 ^ 64 + unat l - unat a) div 2 \<and> a < a'" if "l < a" "n = 1"
  proof -
    have lt: "unat l < unat a" using that by (simp add: word_less_nat_alt)
    then have "unat (l - a) = 2 ^ 64 + unat l - unat a"
      using that by (simp add: unat_sub_if' not_le)
    then have d: "unat ((l - a) div ?n1) = (2 ^ 64 + unat l - unat a) div 2"
      using that by (simp add: udiv_int n1 numeral_2_eq_2)
    have "(2 ^ 64 + unat l - unat a) div 2 \<le> 2 ^ 63" using lt by simp
    then have "unat a + (2 ^ 64 + unat l - unat a) div 2 < 2 ^ 64" using assms(6) by simp
    then have "unat a' = unat a + (2 ^ 64 + unat l - unat a) div 2"
      unfolding a' by (simp only: unat_word_ariths(1) d) simp
    moreover have "0 < (2 ^ 64 + unat l - unat a) div 2" using assms(6) by simp
    ultimately show ?thesis by (simp add: word_less_nat_alt)
  qed
  show ?thesis using up down by simp
qed

text \<open>
  An fsync that enters and exits is measured once: with room in the map its latency is the
  time between the two probes, the sample count grows by one, and no start time of the thread is
  left behind; an exit without a recorded entry changes nothing.
\<close>

theorem fsync_is_measured_once:
  assumes "hm_room (cur_pid_tgid c1) (lat_start_map s)" and "cur_pid_tgid c2 = cur_pid_tgid c1"
    and "s' = snd (lat_exit_fsync c2 (snd (lat_enter_fsync c1 s)))"
  shows "avg_latency s' = (avg_latency s)\<lparr>al_count := al_count (avg_latency s) + 1,
        latency_to_fsync_exit := (ktime_ns c2 - ktime_ns c1 - latency_to_fsync_exit (avg_latency s))
          div (al_count (avg_latency s) + 1)\<rparr>
    \<and> hm_lookup (lat_start_map s') (cur_pid_tgid c1) = None
    \<and> lat_exit_fsync c2 s' = (0, s')"
proof -
  have l: "hm_lookup (snd (hm_update (lat_start_map s) (cur_pid_tgid c1) (ktime_ns c1))) (cur_pid_tgid c1)
      = Some (ktime_ns c1)"
    by (rule hash_map.update_same [OF assms(1)])
  have "avg_latency s' = (avg_latency s)\<lparr>al_count := al_count (avg_latency s) + 1,
        latency_to_fsync_exit := (ktime_ns c2 - ktime_ns c1 - latency_to_fsync_exit (avg_latency s))
          div (al_count (avg_latency s) + 1)\<rparr>"
      and n: "hm_lookup (lat_start_map s') (cur_pid_tgid c1) = None"
    using assms(2,3) l by (simp_all add: lat_exit_fsync_def lat_enter_fsync_def Let_def lookup_delete)
  moreover have "lat_exit_fsync c2 s' = (0, s')" using n assms(2) by (simp add: lat_exit_fsync_def)
  ultimately show ?thesis by simp
qed

definition at_time :: "u64 \<Rightarrow> bpf_ctx" where
  "at_time t = \<lparr>parm1 = 0, parm2 = 0, parm3 = 0, parm4 = 0, parm5 = 0, cur_pid_tgid = 9, ktime_ns = t\<rparr>"

definition sample_lat :: lat where
  "sample_lat = lat_loaded\<lparr>avg_latency := \<lparr>al_count = 1, latency_to_write = 100, latency_to_fsync_exit = 0\<rparr>,
     lat_start_map := \<lparr>hm_entries = [(9, 1000)], hm_max = 1000\<rparr>\<rparr>"

theorem writeback_average_witness:
  "unat (latency_to_write (avg_latency (snd (lat_writeback (at_time 1050) sample_lat))))
     = 100 + (2 ^ 64 + 50 - 100) div 2"
proof -
  have "hm_lookup (lat_start_map sample_lat) (cur_pid_tgid (at_time 1050)) = Some 1000"
      "100 = latency_to_write (avg_latency sample_lat)" "50 = ktime_ns (at_time 1050) - 1000"
      "1 = unat (al_count (avg_latency sample_lat))" "1 + 1 < (2 :: nat) ^ 64"
      "unat (100 :: u64) < 2 ^ 62" "unat (50 :: u64) < 2 ^ 62"
    by (simp_all add: sample_lat_def at_time_def hm_lookup_def)
  from writeback_average [OF this refl] show ?thesis by (simp add: word_less_nat_alt)
qed

theorem fsync_is_measured_once_witness:
  "al_count (avg_latency (snd (lat_exit_fsync (at_time 30) (snd (lat_enter_fsync (at_time 10) lat_loaded))))) = 1"
  using fsync_is_measured_once [of "at_time 10" lat_loaded "at_time 30", OF _ _ refl]
  by (simp add: at_time_def lat_loaded_def hm_room_def hm_empty_def)

end
