(* ===== verification/Fsync_Poc.thy ===== *)
theory Fsync_Poc
  imports Loaders
begin

text \<open>
  \<open>iouring_fsync_poc\<close>: \<open>iouring_fsync.c\<close> issues write and fsync pairs through io_uring in batches
  of growing size; \<open>iouring_fsync.bpf.c\<close> counts the write-backs of the process in the kernel. The
  counter lives in the skeleton's bss, shared with the kernel side, so reading it is a call.
\<close>

section \<open>iouring_fsync.bpf.c\<close>

record poc = bpf +
  poc_writeback_count :: i32
  poc_current_pid :: i32

definition file_write_and_wait_range :: "bpf_ctx \<Rightarrow> poc \<Rightarrow> int \<times> poc" where
  "file_write_and_wait_range c s =
     (if cur_pid c \<noteq> poc_current_pid s then (0, s)
      else (0, s\<lparr>poc_writeback_count := poc_writeback_count s + 1\<rparr>))"

section \<open>iouring_fsync.c\<close>

definition runtime_ms :: int where
  "runtime_ms = 3000"

definition wait_kernel :: bool where
  "wait_kernel = False"

text \<open>The clock answers in microseconds.\<close>

definition gettimeofday_ms :: "sys_env \<Rightarrow> sys \<Rightarrow> int \<times> sys" where
  "gettimeofday_ms env s = (let (a, s) = call env (Px GetTimeOfDay) s in (aux a div 1000, s))"

definition submit_io_uring_write :: "sys_env \<Rightarrow> int \<Rightarrow> u64 \<Rightarrow> u32 \<Rightarrow> sys \<Rightarrow> int \<times> sys" where
  "submit_io_uring_write env fd buf n s =
     (let (a, s) = call env (Ur GetSqe) s in
      if rv a = 0 then (1, do_call env (Px (PrintErr ''get sqe failed'')) s)
      else (0, do_call env (Ur (SetUserData 1)) (do_call env (Ur (PrepWrite fd buf n 0)) s)))"

definition submit_io_uring_fsync :: "sys_env \<Rightarrow> int \<Rightarrow> sys \<Rightarrow> int \<times> sys" where
  "submit_io_uring_fsync env fd s =
     (let (a, s) = call env (Ur GetSqe) s in
      if rv a = 0 then (1, do_call env (Px (PrintErr ''get sqe failed'')) s)
      else (0, do_call env (Ur (SetUserData 2)) (do_call env (Ur (PrepFsync fd)) s)))"

text \<open>The loop that prepares the pairs; the result is \<open>sync_count\<close>.\<close>

fun fp_fill :: "sys_env \<Rightarrow> int \<Rightarrow> u64 \<Rightarrow> nat \<Rightarrow> nat \<Rightarrow> sys \<Rightarrow> nat \<times> sys" where
  "fp_fill env fd buf 0 sync_count s = (sync_count, s)"
| "fp_fill env fd buf (Suc k) sync_count s =
     (let (ret, s) = submit_io_uring_write env fd buf 256 s in
      if ret \<noteq> 0 then (sync_count, do_call env (Px (PrintErr ''submit_io_uring_write failed'')) s)
      else
        let (ret, s) = submit_io_uring_fsync env fd s in
        if ret \<noteq> 0 then (sync_count, do_call env (Px (PrintErr ''submit_io_uring_fsync failed'')) s)
        else fp_fill env fd buf k (sync_count + 1) s)"

fun fp_wait :: "sys_env \<Rightarrow> nat \<Rightarrow> int \<Rightarrow> sys \<Rightarrow> int \<times> sys" where
  "fp_wait env 0 ret s = (ret, s)"
| "fp_wait env (Suc n) ret s =
     (let (a, s) = call env (Ur WaitCqe) s; ret = c_int (rv a) in
      if ret < 0 then (ret, do_call env (Px (PrintErr ''wait completion %d'')) s)
      else fp_wait env n ret (do_call env (Ur CqeSeen) s))"

text \<open>The waiting loop of the \<open>wait_kernel\<close> mode: a write-back seen by the kernel saves two waits.\<close>

fun fp_wait_kernel :: "sys_env \<Rightarrow> nat \<Rightarrow> int \<Rightarrow> sys \<Rightarrow> int \<times> sys" where
  "fp_wait_kernel env 0 ret s = (ret, s)"
| "fp_wait_kernel env (Suc n) ret s =
     (let (c, s) = call env (Lb (GetBss ''successful_writeback_count'')) s in
      if 0 < rv c
      then fp_wait_kernel env n 0 (do_call env (Lb (AddBss ''successful_writeback_count'' (- 1))) s)
      else
        let (a, s) = call env (Ur WaitCqe) s; ret = c_int (rv a) in
        if ret < 0 then (ret, do_call env (Px (PrintErr ''wait completion %d'')) s)
        else
          let s = do_call env (Ur CqeSeen) s; (a, s) = call env (Ur WaitCqe) s; ret = c_int (rv a) in
          if ret < 0 then (ret, do_call env (Px (PrintErr ''wait completion %d'')) s)
          else fp_wait_kernel env n ret (do_call env (Ur CqeSeen) s))"

text \<open>One round of the test; \<open>None\<close> is the early \<open>return 1\<close>.\<close>

definition fp_round :: "sys_env \<Rightarrow> bool \<Rightarrow> nat \<Rightarrow> int \<Rightarrow> u64 \<Rightarrow> sys \<Rightarrow> int option \<times> sys" where
  "fp_round env wk batch fd buf s =
     (let (sync_count, s) = fp_fill env fd buf batch 0 s;
          (a, s) = call env (Ur Submit) s; ret = c_int (rv a) in
      if ret < 0 then (None, do_call env (Px (PrintErr ''sqe submit failed: %d'')) s)
      else
        let (ret, s) = (if wk then fp_wait_kernel env sync_count ret s
                        else fp_wait env (sync_count * 2) ret s)
        in (Some ret, s))"

text \<open>The \<open>do ... while\<close> loop, for at most \<open>fuel\<close> rounds.\<close>

fun fp_loop :: "sys_env \<Rightarrow> bool \<Rightarrow> nat \<Rightarrow> int \<Rightarrow> u64 \<Rightarrow> int \<Rightarrow> nat \<Rightarrow> nat \<Rightarrow> sys \<Rightarrow> (int option \<times> nat \<times> sys) option" where
  "fp_loop env wk batch fd buf tstop nr 0 s = None"
| "fp_loop env wk batch fd buf tstop nr (Suc fuel) s =
     (case fp_round env wk batch fd buf s of
        (None, s) \<Rightarrow> Some (None, nr, s)
      | (Some ret, s) \<Rightarrow>
          let nr = nr + batch; (now, s) = gettimeofday_ms env s in
          if now < tstop \<and> ret = 0 then fp_loop env wk batch fd buf tstop nr fuel s
          else Some (Some ret, nr, s))"

text \<open>The random contents of the buffer at \<open>buf\<close> do not matter and are left out.\<close>

definition fp_test :: "sys_env \<Rightarrow> bool \<Rightarrow> nat \<Rightarrow> u64 \<Rightarrow> nat \<Rightarrow> sys \<Rightarrow> (int \<times> sys) option" where
  "fp_test env wk batch buf fuel s =
     (let (a, s) = call env (Px (Mkstemp ''/tmp/io_uring_test_XXXXXX'')) s; fd = c_int (rv a) in
      if fd < 0 then Some (1, do_call env (Px (Perror ''mkstemp'')) s)
      else
        let (a, s) = call env (Ur (QueueInit 1024)) s; ret = c_int (rv a) in
        if ret \<noteq> 0 then
          (let s = do_call env (Px (PrintErr ''ring setup failed: %d'')) s;
               s = do_call env (Px (Close fd)) s
           in Some (1, do_call env (Px (Unlink ''/tmp/io_uring_test_XXXXXX'')) s))
        else
          let s = do_call env (Lb (SetBss ''successful_writeback_count'' 0)) s;
              (now, s) = gettimeofday_ms env s in
          (case fp_loop env wk batch fd buf (now + runtime_ms) 0 fuel s of
             None \<Rightarrow> None
           | Some (None, nr, s) \<Rightarrow> Some (1, s)
           | Some (Some ret, nr, s) \<Rightarrow>
               let s = do_call env (Px (PrintErr ''Completed operations: %lu'')) s;
                   s = do_call env (Px (Close fd)) s
               in Some (ret, do_call env (Px (Unlink ''/tmp/io_uring_test_XXXXXX'')) s)))"

definition fp_loader :: loader where
  "fp_loader = \<lparr>ld_name = ''iouring_fsync'', ld_open_msg = ''failed to open BPF object'',
     ld_load_msg = ''failed to load BPF object: %d'', ld_signal_msg = ''can't set signal handler: %s'',
     ld_plan = [Skeleton ''iouring_fsync'' ''failed to attach BPF programs'', PresetPid ''current_pid'',
       Preset ''successful_writeback_count'' 0]\<rparr>"

text \<open>The batch sizes \<open>1 << i\<close> of the rounds from \<open>i\<close> on; \<open>n\<close> rounds before SIGINT.\<close>

fun fp_rounds :: "sys_env \<Rightarrow> u64 \<Rightarrow> nat \<Rightarrow> nat \<Rightarrow> nat \<Rightarrow> sys \<Rightarrow> sys option" where
  "fp_rounds env buf fuel i 0 s = Some s"
| "fp_rounds env buf fuel i (Suc n) s =
     (if i < 10 then
        (case fp_test env wait_kernel (2 ^ i) buf fuel s of
           None \<Rightarrow> None
         | Some (r, s) \<Rightarrow>
             fp_rounds env buf fuel (i + 1) n
               (do_call env (Px (PrintInt ''batch_size = %lu completed'' (2 ^ i))) s))
      else Some s)"

definition fp_tail :: "sys_env \<Rightarrow> u64 \<Rightarrow> nat \<Rightarrow> nat \<Rightarrow> int \<Rightarrow> sys \<Rightarrow> (int \<times> sys) option" where
  "fp_tail env buf fuel n err s =
     (case fp_rounds env buf fuel 0 n (do_call env (Px (Print ''Starting test'')) s) of
        None \<Rightarrow> None | Some s \<Rightarrow> plain_cleanup ''iouring_fsync'' env err s)"

definition fp_main :: "sys_env \<Rightarrow> u64 \<Rightarrow> nat \<Rightarrow> nat \<Rightarrow> (int \<times> sys) option" where
  "fp_main env buf fuel n = run_loader bpf_prog_attach_uprobe_with_override fp_loader env
     (plain_cleanup ''iouring_fsync'' env) (fp_tail env buf fuel n) fresh"

section \<open>One round\<close>

definition is_op :: "sys_call \<Rightarrow> bool" where
  "is_op e \<longleftrightarrow> (\<exists>fd b n off. e = Ur (PrepWrite fd b n off)) \<or> (\<exists>fd. e = Ur (PrepFsync fd))"

definition ops :: "history \<Rightarrow> nat" where
  "ops h = cnt is_op (calls h)"

definition waits_of :: "history \<Rightarrow> nat" where
  "waits_of h = cnt is_wait (calls h)"

lemma count_simps [simp]:
  "ops [] = 0" "ops ((e, a) # h) = (if is_op e then 1 else 0) + ops h" "ops (h @ h') = ops h + ops h'"
  "waits_of [] = 0" "waits_of ((e, a) # h) = (if is_wait e then 1 else 0) + waits_of h"
  "waits_of (h @ h') = waits_of h + waits_of h'"
  by (simp_all add: ops_def waits_of_def)

lemma is_op_simps [simp]:
  "is_op (Ur (PrepWrite fd b n off))" "is_op (Ur (PrepFsync fd))" "\<not> is_op (Ur GetSqe)"
  "\<not> is_op (Ur (SetUserData k))" "\<not> is_op (Ur Submit)" "\<not> is_op (Ur WaitCqe)" "\<not> is_op (Ur CqeSeen)"
  "is_wait (Ur WaitCqe)" "\<not> is_wait (Ur GetSqe)" "\<not> is_wait (Ur (SetUserData k))" "\<not> is_wait (Ur Submit)"
  "\<not> is_wait (Ur CqeSeen)" "\<not> is_wait (Ur (PrepWrite fd b n off))" "\<not> is_wait (Ur (PrepFsync fd))"
  by (auto simp: is_op_def is_wait_def)

text \<open>Preparing one entry on a ring with room.\<close>

lemma submit_write_ok:
  assumes "sq_law d env" and "unsubmitted (hist s) < d"
  shows "\<exists>s'. submit_io_uring_write env fd buf n s = (0, s') \<and> ops (hist s') = ops (hist s) + 1
     \<and> waits_of (hist s') = waits_of (hist s) \<and> unsubmitted (hist s') = unsubmitted (hist s) + 1"
  using assms by (simp add: submit_io_uring_write_def call_pair sq_law_def)

lemma submit_fsync_ok:
  assumes "sq_law d env" and "unsubmitted (hist s) < d"
  shows "\<exists>s'. submit_io_uring_fsync env fd s = (0, s') \<and> ops (hist s') = ops (hist s) + 1
     \<and> waits_of (hist s') = waits_of (hist s) \<and> unsubmitted (hist s') = unsubmitted (hist s) + 1"
  using assms by (simp add: submit_io_uring_fsync_def call_pair sq_law_def)

lemma fp_fill_ok:
  assumes "sq_law d env"
  shows "unsubmitted (hist s) + 2 * k \<le> d \<Longrightarrow> \<exists>s'. fp_fill env fd buf k n s = (n + k, s')
     \<and> ops (hist s') = ops (hist s) + 2 * k \<and> waits_of (hist s') = waits_of (hist s)"
proof (induction k arbitrary: n s)
  case (Suc k)
  obtain s1 where s1: "submit_io_uring_write env fd buf 256 s = (0, s1)" "ops (hist s1) = ops (hist s) + 1"
      "waits_of (hist s1) = waits_of (hist s)" "unsubmitted (hist s1) = unsubmitted (hist s) + 1"
    using submit_write_ok [OF assms, of s fd buf 256] Suc.prems by auto
  obtain s2 where s2: "submit_io_uring_fsync env fd s1 = (0, s2)" "ops (hist s2) = ops (hist s1) + 1"
      "waits_of (hist s2) = waits_of (hist s1)" "unsubmitted (hist s2) = unsubmitted (hist s1) + 1"
    using submit_fsync_ok [OF assms, of s1 fd] Suc.prems s1 by auto
  have "unsubmitted (hist s2) + 2 * k \<le> d" using Suc.prems s1 s2 by simp
  from Suc.IH [OF this, of "n + 1"] s1 s2 show ?case by auto
qed simp

text \<open>Waits that succeed.\<close>

definition waits_succeed :: "sys_env \<Rightarrow> bool" where
  "waits_succeed env \<longleftrightarrow> (\<forall>h. rv (env h (Ur WaitCqe)) = 0)"

lemma fp_wait_ok:
  assumes "waits_succeed env"
  shows "\<exists>s'. fp_wait env n ret s = (if n = 0 then ret else 0, s') \<and> ops (hist s') = ops (hist s)
     \<and> waits_of (hist s') = waits_of (hist s) + n \<and> unsubmitted (hist s') = unsubmitted (hist s)"
proof (induction n arbitrary: ret s)
  case (Suc n)
  have w: "rv (env h (Ur WaitCqe)) = 0" for h using assms by (simp add: waits_succeed_def)
  from Suc.IH [of 0 "do_call env (Ur CqeSeen) (do_call env (Ur WaitCqe) s)"] show ?case
    by (auto simp: call_pair w)
qed simp



text \<open>
  The kernel side counts the write-backs of the measured process and of no other, modulo 2 to
  the 32.
\<close>

theorem kernel_counts_own_writebacks:
  "poc_writeback_count (fold (\<lambda>c s. snd (file_write_and_wait_range c s)) cs s)
     = poc_writeback_count s + of_nat (cnt (\<lambda>c. cur_pid c = poc_current_pid s) cs)"
proof (induction cs arbitrary: s)
  case (Cons c cs)
  have "poc_current_pid (snd (file_write_and_wait_range c s)) = poc_current_pid s"
    by (simp add: file_write_and_wait_range_def)
  with Cons [of "snd (file_write_and_wait_range c s)"] show ?case
    by (simp add: file_write_and_wait_range_def)
qed simp

end
