(* ===== verification/Uring_Net.thy ===== *)
theory Uring_Net
  imports Uring_Readers
begin

text \<open>
  The liburing network clients of \<open>iouring_hotpatch\<close>: \<open>uring_client.c\<close>, which sends a file in
  batches of reads and sends and stores the response, and \<open>uring_client copy.c\<close>, the earlier
  version with a four-byte buffer. \<open>buf\<close> is the address of the buffer; \<open>Undefined\<close> is undefined
  behaviour, \<open>More\<close> an exhausted bound on the receive loop.
\<close>

section \<open>What both share\<close>

definition net_cleanup :: "sys_env \<Rightarrow> int \<Rightarrow> int \<Rightarrow> int \<Rightarrow> sys \<Rightarrow> sys" where
  "net_cleanup env sock file_fd recv_fd s =
     (let s = (if 0 < sock then do_call env (Px (Close sock)) s else s);
          s = (if 0 < file_fd then do_call env (Px (Close file_fd)) s else s);
          s = (if 0 < recv_fd then do_call env (Px (Close recv_fd)) s else s)
      in do_call env (Ur QueueExit) s)"

definition log_info :: "sys_env \<Rightarrow> string \<Rightarrow> sys \<Rightarrow> sys" where
  "log_info env m s = do_call env (Px (Print (''[INFO] '' @ m))) s"

definition log_error :: "sys_env \<Rightarrow> string \<Rightarrow> sys \<Rightarrow> sys" where
  "log_error env m s = do_call env (Px (PrintErr (''[ERROR] '' @ m))) s"

definition log_debug :: "sys_env \<Rightarrow> string \<Rightarrow> sys \<Rightarrow> sys" where
  "log_debug env m s = do_call env (Px (Print (''[DEBUG] '' @ m))) s"

text \<open>The error exits: a message, the clean-up, \<open>free\<close>, and -1.\<close>

definition net_fail :: "sys_env \<Rightarrow> int \<Rightarrow> int \<Rightarrow> int \<Rightarrow> string \<Rightarrow> sys \<Rightarrow> sys" where
  "net_fail env sock file_fd recv_fd m s =
     do_call env (Px Free) (net_cleanup env sock file_fd recv_fd (log_error env m s))"

text \<open>The loop that peeks at \<open>n\<close> completions; \<open>False\<close> is a failed peek.\<close>

fun peek_all :: "sys_env \<Rightarrow> string \<Rightarrow> nat \<Rightarrow> sys \<Rightarrow> bool \<times> sys" where
  "peek_all env m 0 s = (True, s)"
| "peek_all env m (Suc n) s =
     (let (a, s) = call env (Ur PeekCqe) s in
      if rv a < 0 then (False, s)
      else
        let s = (if aux a < 0 then log_error env m s else s)
        in peek_all env m n (do_call env (Ur CqeSeen) s))"

text \<open>Submit a batch, wait for it and peek at its completions.\<close>

definition drain :: "sys_env \<Rightarrow> string \<Rightarrow> nat \<Rightarrow> sys \<Rightarrow> bool \<times> sys" where
  "drain env m batch s = peek_all env m batch (do_call env (Ur (SubmitAndWait batch)) s)"

section \<open>uring_client.c\<close>

definition UC_BUF_SIZE :: int where
  "UC_BUF_SIZE = 4096"

definition UC_QUEUE_DEPTH :: nat where
  "UC_QUEUE_DEPTH = 512"

definition UC_BATCH_SIZE :: nat where
  "UC_BATCH_SIZE = 256"

definition uc_bytes :: "int \<Rightarrow> int \<Rightarrow> int" where
  "uc_bytes st_size off = (if st_size < off + UC_BUF_SIZE then st_size - off else UC_BUF_SIZE)"

definition uc_drain :: "sys_env \<Rightarrow> string \<Rightarrow> nat \<Rightarrow> sys \<Rightarrow> bool \<times> nat \<times> sys" where
  "uc_drain env m batch s =
     (if UC_BATCH_SIZE \<le> batch then (case drain env m batch s of (ok, s) \<Rightarrow> (ok, 0, s)) else (True, batch, s))"

text \<open>The first loop; \<open>None\<close> is an error exit, already taken.\<close>

function uc_send :: "sys_env \<Rightarrow> u64 \<Rightarrow> int \<Rightarrow> int \<Rightarrow> int \<Rightarrow> int \<Rightarrow> nat \<Rightarrow> sys \<Rightarrow> nat option \<times> sys" where
  "uc_send env buf sock fd st_size off batch s =
     (if off \<ge> st_size then (Some batch, log_info env ''End of file reached'' s)
      else
        let bytes = uc_bytes st_size off; (a, s) = call env (Ur GetSqe) s in
        if rv a = 0 then (None, net_fail env sock fd (- 1) ''io_uring_get_sqe failed for read operation'' s)
        else
          let s = do_call env (Ur (PrepRead fd buf (word_of_int bytes) (word_of_int off))) s;
              s = do_call env (Ur (SetUserData 1)) s;
              (a, s) = call env (Ur GetSqe) s in
          if rv a = 0 then (None, net_fail env sock fd (- 1) ''io_uring_get_sqe failed for send operation'' s)
          else
            let s = do_call env (Ur (PrepSend sock buf (word_of_int bytes))) s;
                s = do_call env (Ur (SetUserData 2)) s;
                (ok, batch, s) = uc_drain env ''Send error'' (batch + 2) s in
            if \<not> ok then (None, net_fail env sock fd (- 1) ''Error peeking for cqe during send operation'' s)
            else uc_send env buf sock fd st_size (off + bytes) batch s)"
  by pat_completeness auto
termination
  by (relation "measure (\<lambda>(env, buf, sock, fd, n, off, b, s). nat (n - off))")
    (auto simp: uc_bytes_def UC_BUF_SIZE_def)

declare uc_send.simps [simp del]

text \<open>The second loop: receive, then write what came. The inner option is the error exit.\<close>

fun uc_recv :: "sys_env \<Rightarrow> u64 \<Rightarrow> int \<Rightarrow> int \<Rightarrow> int \<Rightarrow> nat \<Rightarrow> int \<Rightarrow> sys \<Rightarrow> (bool \<times> sys) option" where
  "uc_recv env buf sock fd recv_fd 0 off s = None"
| "uc_recv env buf sock fd recv_fd (Suc fuel) off s =
     (let (a, s) = call env (Ur GetSqe) s in
      if rv a = 0 then Some (False, net_fail env sock fd recv_fd ''io_uring_get_sqe failed for recv operation'' s)
      else
        let s = do_call env (Ur (PrepRecv sock buf (word_of_int UC_BUF_SIZE))) s;
            s = do_call env (Ur (SetUserData 3)) s;
            s = do_call env (Ur Submit) s;
            (c, s) = call env (Ur WaitCqe) s in
        if rv c < 0
        then Some (False, net_fail env sock fd recv_fd ''Error waiting for cqe during recv operation'' s)
        else if aux c \<le> 0 then
          (let s = (if aux c < 0 then log_error env ''Receive error'' s else s)
           in Some (True, do_call env (Ur CqeSeen) s))
        else
          let bytes = aux c; s = do_call env (Ur CqeSeen) s; (a, s) = call env (Ur GetSqe) s in
          if rv a = 0
          then Some (False, net_fail env sock fd recv_fd ''io_uring_get_sqe failed for write operation'' s)
          else
            let s = do_call env (Ur (PrepWrite recv_fd buf (word_of_int bytes) (word_of_int off))) s;
                s = do_call env (Ur (SetUserData 4)) s;
                s = do_call env (Ur Submit) s;
                (c, s) = call env (Ur WaitCqe) s in
            if rv c < 0
            then Some (False, net_fail env sock fd recv_fd ''Error waiting for cqe during write operation'' s)
            else
              let s = (if aux c < 0 then log_error env ''Write error'' s else s);
                  s = do_call env (Ur CqeSeen) s
              in uc_recv env buf sock fd recv_fd fuel (off + bytes) s)"

text \<open>From the end of the first loop to the end of the program.\<close>

definition uc_finish :: "sys_env \<Rightarrow> u64 \<Rightarrow> int \<Rightarrow> int \<Rightarrow> nat \<Rightarrow> nat \<Rightarrow> sys \<Rightarrow> (int \<times> sys) ru_result" where
  "uc_finish env buf sock fd fuel batch s =
     (let (ok, s) = (if 0 < batch then drain env ''Write error'' batch s else (True, s)) in
      if \<not> ok
      then Done (- 1, net_fail env sock fd (- 1) ''Error peeking for cqe for remaining write operations'' s)
      else
        let s = log_info env ''File content sent to server'' s;
            s = do_call env (Px (Close fd)) s;
            s = do_call env (Px (Shutdown sock)) s;
            (a, s) = call env (Px (Open ''recv.txt'' 577 420)) s; recv_fd = c_int (rv a) in
        if recv_fd < 0 then Done (- 1, net_fail env sock fd recv_fd ''Failed to open file recv.txt'' s)
        else
          (case uc_recv env buf sock fd recv_fd fuel 0 (log_info env ''Receiving response from server'' s) of
             None \<Rightarrow> More
           | Some (False, s) \<Rightarrow> Done (- 1, s)
           | Some (True, s) \<Rightarrow>
               let s = log_info env ''Response received and written to file'' s;
                   s = do_call env (Px (Close recv_fd)) s;
                   s = do_call env (Ur QueueExit) s;
                   s = do_call env (Px (Close sock)) s;
                   s = do_call env (Px Free) s
               in Done (0, log_info env ''Operation completed successfully'' s)))"

text \<open>
  The start of both programs. Until the ring is initialised, the clean-up would tear down an
  uninitialised one.
\<close>

definition net_connect ::
    "sys_env \<Rightarrow> string \<Rightarrow> nat \<Rightarrow> nat \<Rightarrow> (int \<Rightarrow> int \<Rightarrow> sys \<Rightarrow> (int \<times> sys) ru_result) \<Rightarrow> sys \<Rightarrow> (int \<times> sys) ru_result" where
  "net_connect env file buf_size depth k s =
     (let (a, s) = call env (Px (Memalign 4096 buf_size)) s in
      if rv a \<noteq> 0 then Done (- 1, log_error env ''Failed to allocate aligned buffer'' s)
      else
        let (a, s) = call env (Px (Open file 0 0)) s; fd = c_int (rv a) in
        if fd < 0 then Done (- 1, do_call env (Px Free) (log_error env ''Failed to open file a.txt'' s))
        else
          let (a, s) = call env (Px Socket) s; sock = c_int (rv a) in
          if sock < 0 then Undefined
          else
            let (a, s) = call env (Px (InetPton ''127.0.0.1'')) s in
            if rv a \<le> 0 then Undefined
            else
              let (a, s) = call env (Px (Connect sock)) s in
              if rv a < 0 then Undefined
              else
                let (a, s) = call env (Ur (QueueInit depth)) s in
                if rv a < 0 then Done (- 1, net_fail env sock fd (- 1) ''io_uring initialization failed'' s)
                else k sock fd (log_info env ''Starting to read file and send data to the server'' s))"

definition uc_main :: "sys_env \<Rightarrow> u64 \<Rightarrow> nat \<Rightarrow> (int \<times> sys) ru_result" where
  "uc_main env buf fuel = net_connect env ''1gb.txt'' 4096 UC_QUEUE_DEPTH (\<lambda>sock fd s.
     let (a, s) = call env (Px (Fstat fd)) s in
     (case uc_send env buf sock fd (aux a) 0 0 s of
        (None, s) \<Rightarrow> Done (- 1, s)
      | (Some batch, s) \<Rightarrow> uc_finish env buf sock fd fuel batch s)) fresh"

section \<open>uring_client copy.c\<close>

definition CC_BUF_SIZE :: int where
  "CC_BUF_SIZE = 4"

definition CC_QUEUE_DEPTH :: nat where
  "CC_QUEUE_DEPTH = 4096"

definition CC_BATCH_SIZE :: nat where
  "CC_BATCH_SIZE = 512"

definition cc_bytes :: "int \<Rightarrow> int \<Rightarrow> int" where
  "cc_bytes st_size off = (if st_size < off + CC_BUF_SIZE then st_size - off else CC_BUF_SIZE)"

definition cc_drain :: "sys_env \<Rightarrow> string \<Rightarrow> nat \<Rightarrow> sys \<Rightarrow> bool \<times> nat \<times> sys" where
  "cc_drain env m batch s =
     (if CC_BATCH_SIZE \<le> batch then (case drain env m batch s of (ok, s) \<Rightarrow> (ok, 0, s)) else (True, batch, s))"

text \<open>
  Read one piece and wait for it, queue the send. \<open>buffer[bytes_read] = 0\<close> leaves the buffer when
  the piece fills it.
\<close>

function cc_send :: "sys_env \<Rightarrow> u64 \<Rightarrow> int \<Rightarrow> int \<Rightarrow> int \<Rightarrow> int \<Rightarrow> nat \<Rightarrow> sys \<Rightarrow> (nat option \<times> sys) ru_result" where
  "cc_send env buf sock fd st_size off batch s =
     (if off \<ge> st_size then Done (Some batch, log_info env ''End of file reached'' s)
      else
        let (a, s) = call env (Ur GetSqe) s in
        if rv a = 0
        then Done (None, net_fail env sock fd (- 1) ''io_uring_get_sqe failed for read operation'' s)
        else
          let s = do_call env (Ur (PrepRead fd buf (word_of_int (cc_bytes st_size off)) (word_of_int off))) s;
              s = do_call env (Ur (SetUserData 1)) s;
              (a, s) = call env (Ur Submit) s in
          if rv a < 0
          then Done (None, net_fail env sock fd (- 1) ''io_uring_submit failed for read operation'' s)
          else
            let (c, s) = call env (Ur WaitCqe) s in
            if rv c < 0
            then Done (None, net_fail env sock fd (- 1) ''Error waiting for cqe for read operation'' s)
            else
              let s = do_call env (Px (PrintInt ''cqe->res: %d'' (aux c))) s in
              if aux c \<le> 0 then
                (let s = (if aux c < 0 then log_error env ''Read error'' s else s)
                 in Done (Some batch, do_call env (Ur CqeSeen) s))
              else
                let bytes_read = aux c;
                    s = log_debug env ''Read data from file'' s;
                    s = do_call env (Px (PrintInt ''[DEBUG] Read %d bytes from offset %ld'' bytes_read)) s;
                    s = do_call env (Px (Print ''[DEBUG] Data read: %.*s'')) s;
                    s = do_call env (Ur CqeSeen) s;
                    (a, s) = call env (Ur GetSqe) s in
                if rv a = 0
                then Done (None, net_fail env sock fd (- 1) ''io_uring_get_sqe failed for send operation'' s)
                else
                  let s = do_call env (Ur (PrepSend sock buf (word_of_int bytes_read))) s;
                      s = do_call env (Ur (SetUserData 2)) s;
                      (ok, batch, s) = cc_drain env ''Send error'' (batch + 1) s in
                  if \<not> ok
                  then Done (None, net_fail env sock fd (- 1) ''Error peeking for cqe during send operation'' s)
                  else
                    let s = log_debug env ''Sent data to server'' s;
                        s = do_call env (Px (PrintInt ''[DEBUG] Sent %d bytes to server'' bytes_read)) s;
                        s = do_call env (Px (Print ''[DEBUG] Data sent: %.*s'')) s in
                    if CC_BUF_SIZE \<le> bytes_read then Undefined
                    else cc_send env buf sock fd st_size (off + bytes_read) batch s)"
  by pat_completeness auto
termination
  by (relation "measure (\<lambda>(env, buf, sock, fd, n, off, b, s). nat (n - off))") auto

declare cc_send.simps [simp del]

fun cc_recv :: "sys_env \<Rightarrow> u64 \<Rightarrow> int \<Rightarrow> int \<Rightarrow> int \<Rightarrow> nat \<Rightarrow> int \<Rightarrow> nat \<Rightarrow> sys \<Rightarrow> (nat option \<times> sys) ru_result" where
  "cc_recv env buf sock fd recv_fd 0 off batch s = More"
| "cc_recv env buf sock fd recv_fd (Suc fuel) off batch s =
     (let (a, s) = call env (Ur GetSqe) s in
      if rv a = 0
      then Done (None, net_fail env sock fd recv_fd ''io_uring_get_sqe failed for recv operation'' s)
      else
        let s = do_call env (Ur (PrepRecv sock buf (word_of_int CC_BUF_SIZE))) s;
            s = do_call env (Ur (SetUserData 3)) s;
            (a, s) = call env (Ur Submit) s in
        if rv a < 0
        then Done (None, net_fail env sock fd recv_fd ''io_uring_submit failed for recv operation'' s)
        else
          let (c, s) = call env (Ur WaitCqe) s in
          if rv c < 0
          then Done (None, net_fail env sock fd recv_fd ''Error waiting for cqe for recv operation'' s)
          else if aux c \<le> 0 then
            (let s = (if aux c = 0 then log_info env ''Server closed connection'' s
                      else log_error env ''Receive error'' s)
             in Done (Some batch, do_call env (Ur CqeSeen) s))
          else
            let bytes = aux c;
                s = do_call env (Ur CqeSeen) s;
                s = log_debug env ''Received data from server'' s;
                s = do_call env (Px (PrintInt ''[DEBUG] Received %d bytes from server'' bytes)) s;
                s = do_call env (Px (Print ''[DEBUG] Data received: %.*s'')) s;
                (a, s) = call env (Ur GetSqe) s in
            if rv a = 0
            then Done (None, net_fail env sock fd recv_fd ''io_uring_get_sqe failed for write operation'' s)
            else
              let s = do_call env (Ur (PrepWrite recv_fd buf (word_of_int bytes) (word_of_int off))) s;
                  s = do_call env (Ur (SetUserData 4)) s;
                  (ok, batch, s) = cc_drain env ''Write error'' (batch + 1) s in
              if \<not> ok
              then Done (None, net_fail env sock fd recv_fd ''Error peeking for cqe during write operation'' s)
              else
                let s = log_debug env ''Written data to recv.txt'' s;
                    s = do_call env (Px (PrintInt ''[DEBUG] Written %d bytes to recv.txt'' bytes)) s
                in cc_recv env buf sock fd recv_fd fuel (off + bytes) batch s)"

definition cc_finish :: "sys_env \<Rightarrow> u64 \<Rightarrow> int \<Rightarrow> int \<Rightarrow> nat \<Rightarrow> nat \<Rightarrow> sys \<Rightarrow> (int \<times> sys) ru_result" where
  "cc_finish env buf sock fd fuel batch s =
     (let (ok, s) = (if 0 < batch then drain env ''Send error'' batch s else (True, s)) in
      if \<not> ok
      then Done (- 1, net_fail env sock fd (- 1) ''Error peeking for cqe for remaining send operations'' s)
      else
        let s = log_info env ''File content sent to server'' s;
            s = do_call env (Px (Close fd)) s;
            s = do_call env (Px (Shutdown sock)) s;
            (a, s) = call env (Px (Open ''recv.txt'' 577 420)) s; recv_fd = c_int (rv a) in
        if recv_fd < 0 then Done (- 1, net_fail env sock fd recv_fd ''Failed to open file recv.txt'' s)
        else
          (case cc_recv env buf sock fd recv_fd fuel 0 0 (log_info env ''Receiving response from server'' s) of
             More \<Rightarrow> More
           | Undefined \<Rightarrow> Undefined
           | Done (None, s) \<Rightarrow> Done (- 1, s)
           | Done (Some batch, s) \<Rightarrow>
               let (ok, s) = (if 0 < batch then drain env ''Write error'' batch s else (True, s)) in
               if \<not> ok
               then Done (- 1, net_fail env sock fd recv_fd
                      ''Error peeking for cqe for remaining write operations'' s)
               else
                 let s = do_call env (Px (Close recv_fd)) s;
                     s = do_call env (Ur QueueExit) s;
                     s = do_call env (Px (Close sock)) s;
                     s = do_call env (Px Free) s
                 in Done (0, log_info env ''Operation completed successfully'' s)))"

definition cc_main :: "sys_env \<Rightarrow> u64 \<Rightarrow> nat \<Rightarrow> (int \<times> sys) ru_result" where
  "cc_main env buf fuel = net_connect env ''a.txt'' 4 CC_QUEUE_DEPTH (\<lambda>sock fd s.
     let (a, s) = call env (Px (Fstat fd)) s in
     (case cc_send env buf sock fd (aux a) 0 0 s of
        More \<Rightarrow> More
      | Undefined \<Rightarrow> Undefined
      | Done (None, s) \<Rightarrow> Done (- 1, s)
      | Done (Some batch, s) \<Rightarrow> cc_finish env buf sock fd fuel batch s)) fresh"

section \<open>The data requests of a history\<close>

definition is_data :: "sys_call \<Rightarrow> bool" where
  "is_data e = (case e of Ur (PrepRead _ _ _ _) \<Rightarrow> True | Ur (PrepWrite _ _ _ _) \<Rightarrow> True
     | Ur (PrepSend _ _ _) \<Rightarrow> True | Ur (PrepRecv _ _ _) \<Rightarrow> True | _ \<Rightarrow> False)"

definition data :: "history \<Rightarrow> sys_call list" where
  "data h = filter is_data (calls h)"

lemma data_simps [simp]:
  "data [] = []" "data ((e, a) # h) = (if is_data e then [e] else []) @ data h"
  "data (h @ h') = data h @ data h'"
  by (simp_all add: data_def)

lemma data_do_call: "data (hist (do_call env e s)) = data (hist s) @ (if is_data e then [e] else [])"
  by simp

lemma is_data_simps [simp]:
  "is_data (Ur (PrepRead f b n off))" "is_data (Ur (PrepWrite f b n off))" "is_data (Ur (PrepSend f b n))"
  "is_data (Ur (PrepRecv f b n))" "\<not> is_data (Px c)" "\<not> is_data (Lb l)" "\<not> is_data (Ur GetSqe)"
  "\<not> is_data (Ur (SetUserData k))" "\<not> is_data (Ur Submit)" "\<not> is_data (Ur (SubmitAndWait m))"
  "\<not> is_data (Ur WaitCqe)" "\<not> is_data (Ur PeekCqe)" "\<not> is_data (Ur CqeSeen)" "\<not> is_data (Ur QueueExit)"
  "\<not> is_data (Ur (QueueInit m))"
  by (simp_all add: is_data_def)

lemma data_log [simp]:
  "data (hist (log_info env m s)) = data (hist s)" "data (hist (log_error env m s)) = data (hist s)"
  "data (hist (log_debug env m s)) = data (hist s)"
  by (simp_all add: log_info_def log_error_def log_debug_def)

lemma data_peek: "data (hist (snd (peek_all env m n s))) = data (hist s)"
  by (induction n arbitrary: s) (simp_all add: call_pair Let_def)

lemma data_drain: "data (hist (snd (drain env m n s))) = data (hist s)"
  by (simp add: drain_def data_peek)

lemma data_uc_drain: "uc_drain env m n s = (ok, b, s') \<Longrightarrow> data (hist s') = data (hist s)"
  using data_drain [of env m n s] by (auto simp: uc_drain_def split: prod.splits if_splits)

section \<open>What uring_client.c transfers\<close>

text \<open>One block of the file: a read into the buffer and a send of the same length from it.\<close>

definition block_pair :: "int \<Rightarrow> int \<Rightarrow> u64 \<Rightarrow> int \<times> int \<Rightarrow> sys_call list" where
  "block_pair sock fd buf b = (case b of (off, len) \<Rightarrow>
     [Ur (PrepRead fd buf (word_of_int len) (word_of_int off)), Ur (PrepSend sock buf (word_of_int len))])"

text \<open>One piece of the response: a receive, and a write at the running offset.\<close>

definition response_pair :: "int \<Rightarrow> int \<Rightarrow> u64 \<Rightarrow> int \<times> int \<Rightarrow> sys_call list" where
  "response_pair sock recv_fd buf p = (case p of (off, len) \<Rightarrow>
     [Ur (PrepRecv sock buf 4096), Ur (PrepWrite recv_fd buf (word_of_int len) (word_of_int off))])"

fun running :: "int \<Rightarrow> int list \<Rightarrow> (int \<times> int) list" where
  "running off [] = []"
| "running off (n # ns) = (off, n) # running (off + n) ns"

lemma uc_bytes_min: "uc_bytes n off = min UC_BUF_SIZE (n - off)"
  by (simp add: uc_bytes_def)

lemma uc_send_step:
  assumes "uc_send env buf sock fd st_size off batch s = (Some b, s')" and "off < st_size"
  shows "\<exists>bt s2. uc_send env buf sock fd st_size (off + uc_bytes st_size off) bt s2 = (Some b, s')
     \<and> data (hist s2) = data (hist s) @ block_pair sock fd buf (off, uc_bytes st_size off)"
  using assms
  by (subst (asm) uc_send.simps)
    (auto simp: call_pair Let_def block_pair_def data_do_call simp del: hist_do_call
      dest!: data_uc_drain split: if_splits prod.splits, blast)

lemma uc_send_data:
  assumes "uc_send env buf sock fd st_size off batch s = (Some b, s')"
  shows "data (hist s') = data (hist s) @ concat (map (block_pair sock fd buf) (blocks 4096 off st_size))"
  using assms
proof (induction "nat (st_size - off)" arbitrary: off batch s rule: less_induct)
  case less
  have pos: "0 < UC_BUF_SIZE" by (simp add: UC_BUF_SIZE_def)
  show ?case
  proof (cases "off < st_size")
    case False
    then show ?thesis using less.prems by (subst (asm) uc_send.simps) (auto simp: blocks_done)
  next
    case True
    obtain bt s2 where s2: "uc_send env buf sock fd st_size (off + uc_bytes st_size off) bt s2 = (Some b, s')"
        "data (hist s2) = data (hist s) @ block_pair sock fd buf (off, uc_bytes st_size off)"
      using uc_send_step [OF less.prems True] by blast
    have "nat (st_size - (off + uc_bytes st_size off)) < nat (st_size - off)"
      using True pos by (simp add: uc_bytes_min)
    from less.hyps [OF this s2(1)] s2(2) blocks_step [of 4096 off st_size] True show ?thesis
      by (simp add: uc_bytes_min UC_BUF_SIZE_def)
  qed
qed

lemma uc_recv_step:
  assumes "uc_recv env buf sock fd recv_fd (Suc fuel) off s = Some (True, s')"
  shows "data (hist s') = data (hist s) @ [Ur (PrepRecv sock buf 4096)]
    \<or> (\<exists>n s2. uc_recv env buf sock fd recv_fd fuel (off + n) s2 = Some (True, s') \<and> 0 < n
         \<and> data (hist s2) = data (hist s) @ response_pair sock recv_fd buf (off, n))"
proof -
  have w: "(word_of_int UC_BUF_SIZE :: u32) = 4096" by (simp add: UC_BUF_SIZE_def)
  define s1 where "s1 = do_call env (Ur Submit) (do_call env (Ur (SetUserData 3))
      (do_call env (Ur (PrepRecv sock buf 4096)) (do_call env (Ur GetSqe) s)))"
  define n where "n = aux (env (hist s1) (Ur WaitCqe))"
  define s2 where "s2 = do_call env (Ur Submit) (do_call env (Ur (SetUserData 4))
      (do_call env (Ur (PrepWrite recv_fd buf (word_of_int n) (word_of_int off)))
        (do_call env (Ur GetSqe) (do_call env (Ur CqeSeen) (do_call env (Ur WaitCqe) s1)))))"
  define s3 where "s3 = do_call env (Ur CqeSeen) (if aux (env (hist s2) (Ur WaitCqe)) < 0
      then log_error env ''Write error'' (do_call env (Ur WaitCqe) s2) else do_call env (Ur WaitCqe) s2)"
  have d1: "data (hist s1) = data (hist s) @ [Ur (PrepRecv sock buf 4096)]"
    by (simp add: s1_def data_do_call del: hist_do_call)
  have d3: "data (hist s3) = data (hist s) @ response_pair sock recv_fd buf (off, n)"
    by (simp add: s3_def s2_def d1 data_do_call response_pair_def del: hist_do_call)
  show ?thesis
  proof (cases "n \<le> 0")
    case True
    then have "data (hist s') = data (hist s1)"
      using assms by (auto simp: call_pair Let_def w n_def s1_def data_do_call simp del: hist_do_call split: if_splits)
    then show ?thesis using d1 by simp
  next
    case False
    then have "uc_recv env buf sock fd recv_fd fuel (off + n) s3 = Some (True, s')"
      using assms unfolding s3_def s2_def n_def s1_def
      by (simp add: call_pair Let_def w del: hist_do_call split: if_splits)
    then show ?thesis using d3 False by (intro disjI2 exI conjI) auto
  qed
qed

lemma uc_recv_data:
  "uc_recv env buf sock fd recv_fd fuel off s = Some (True, s') \<Longrightarrow>
     \<exists>lens. data (hist s') = data (hist s) @ concat (map (response_pair sock recv_fd buf) (running off lens))
         @ [Ur (PrepRecv sock buf 4096)] \<and> (\<forall>n \<in> set lens. 0 < n)"
proof (induction fuel arbitrary: off s)
  case (Suc fuel)
  from uc_recv_step [OF Suc.prems] show ?case
  proof (elim disjE exE conjE)
    assume "data (hist s') = data (hist s) @ [Ur (PrepRecv sock buf 4096)]"
    then show ?thesis by (intro exI [of _ "[]"]) simp
  next
    fix n s2
    assume go: "uc_recv env buf sock fd recv_fd fuel (off + n) s2 = Some (True, s')" "0 < n"
      "data (hist s2) = data (hist s) @ response_pair sock recv_fd buf (off, n)"
    from Suc.IH [OF go(1)] obtain lens where
      "data (hist s') = data (hist s2) @ concat (map (response_pair sock recv_fd buf) (running (off + n) lens))
         @ [Ur (PrepRecv sock buf 4096)]" "\<forall>n \<in> set lens. 0 < n" by blast
    with go show ?thesis by (intro exI [of _ "n # lens"]) simp
  qed
qed simp

lemma net_connect_data:
  assumes "net_connect env file bs d k s = Done (0, s')"
  shows "\<exists>sock fd s1. k sock fd s1 = Done (0, s') \<and> data (hist s1) = data (hist s)"
  using assms
  by (auto simp: net_connect_def call_pair Let_def data_do_call simp del: hist_do_call split: if_splits)
    (intro exI conjI, assumption, simp add: data_do_call del: hist_do_call)

lemma uc_finish_data:
  assumes "uc_finish env buf sock fd fuel batch s = Done (0, s')"
  shows "\<exists>recv_fd lens. data (hist s') = data (hist s)
     @ concat (map (response_pair sock recv_fd buf) (running 0 lens)) @ [Ur (PrepRecv sock buf 4096)]
     \<and> (\<forall>n \<in> set lens. 0 < n)"
proof -
  define s1 where "s1 = snd (if 0 < batch then drain env ''Write error'' batch s else (True, s))"
  have d1: "data (hist s1) = data (hist s)" by (simp add: s1_def data_drain)
  define s2 where "s2 = do_call env (Px (Shutdown sock)) (do_call env (Px (Close fd))
      (log_info env ''File content sent to server'' s1))"
  define recv_fd where "recv_fd = c_int (rv (env (hist s2) (Px (Open ''recv.txt'' 577 420))))"
  define s3 where "s3 = log_info env ''Receiving response from server''
      (do_call env (Px (Open ''recv.txt'' 577 420)) s2)"
  have d3: "data (hist s3) = data (hist s)" by (simp add: s3_def s2_def d1 data_do_call del: hist_do_call)
  have "\<exists>s4. uc_recv env buf sock fd recv_fd fuel 0 s3 = Some (True, s4) \<and> data (hist s') = data (hist s4)"
    using assms unfolding uc_finish_def
    by (cases "if 0 < batch then drain env ''Write error'' batch s else (True, s)")
      (auto simp: call_pair Let_def data_do_call s3_def s2_def s1_def recv_fd_def simp del: hist_do_call
        split: if_splits option.splits prod.splits bool.splits)
  then obtain s4 where s4: "uc_recv env buf sock fd recv_fd fuel 0 s3 = Some (True, s4)"
      "data (hist s') = data (hist s4)" by blast
  from uc_recv_data [OF s4(1)] s4(2) d3 show ?thesis by auto
qed


text \<open>
  The four-byte buffer of \<open>uring_client copy\<close> overflows: once the connection stands, the first
  full read of four bytes ends in undefined behaviour, since the program then stores a NUL at index
  four.
\<close>

theorem copy_overflows_buffer:
  assumes "off < n" and "\<forall>h. rv (env h (Ur GetSqe)) \<noteq> 0" and "\<forall>h. 0 \<le> rv (env h (Ur Submit))"
    and "\<forall>h. rv (env h (Ur WaitCqe)) = 0" and "\<forall>h. aux (env h (Ur WaitCqe)) = 4" and "batch + 1 < 512"
  shows "cc_send env buf sock fd n off batch s = Undefined"
  using assms
  by (subst cc_send.simps)
    (simp add: call_pair Let_def cc_drain_def CC_BATCH_SIZE_def CC_BUF_SIZE_def not_less [symmetric]
      del: hist_do_call)

section \<open>Witnesses\<close>

definition net_env :: "int \<Rightarrow> int \<Rightarrow> sys_env" where
  "net_env n res h e = \<lparr>rv = (case e of Px (Open _ _ _) \<Rightarrow> 3 | Px Socket \<Rightarrow> 4 | Px (InetPton _) \<Rightarrow> 1
      | Ur GetSqe \<Rightarrow> 1 | _ \<Rightarrow> 0), errno = 0,
     aux = (case e of Px (Fstat _) \<Rightarrow> n | Ur WaitCqe \<Rightarrow> res | _ \<Rightarrow> 0), dat = []\<rparr>"

lemma net_env_simps:
  "rv (net_env n res h (Px (Open f g m))) = 3" "rv (net_env n res h (Px Socket)) = 4"
  "rv (net_env n res h (Px (InetPton ip))) = 1" "rv (net_env n res h (Px (Connect k))) = 0"
  "rv (net_env n res h (Px (Memalign a b))) = 0" "rv (net_env n res h (Ur (QueueInit q))) = 0"
  "rv (net_env n res h (Ur GetSqe)) = 1" "rv (net_env n res h (Ur Submit)) = 0"
  "rv (net_env n res h (Ur WaitCqe)) = 0" "rv (net_env n res h (Ur PeekCqe)) = 0"
  "aux (net_env n res h (Ur PeekCqe)) = 0" "aux (net_env n res h (Ur WaitCqe)) = res"
  "aux (net_env n res h (Px (Fstat fd))) = n"
  by (simp_all add: net_env_def)

lemma net_run: "\<exists>s. uc_main (net_env 100 0) 4096 1 = Done (0, s)"
  by (simp add: uc_main_def net_connect_def call_pair net_env_simps Let_def uc_send.simps uc_finish_def
      uc_bytes_def UC_BUF_SIZE_def UC_BATCH_SIZE_def uc_drain_def drain_def numeral_2_eq_2
      del: hist_do_call)


theorem copy_overflows_buffer_witness:
  "cc_send (net_env 10 4) 4096 4 3 10 0 0 fresh = Undefined"
  by (rule copy_overflows_buffer) (simp_all add: net_env_def)

end
