(* ===== verification/Posix_Programs.thy ===== *)
theory Posix_Programs
  imports Uring_Readers
begin

text \<open>
  The programs the hot patches are tried on: the file copies \<open>test_speed.c\<close> and \<open>victim.c\<close>, the
  socket programs \<open>client.c\<close> and \<open>server.c\<close>, the timed loops \<open>read.c\<close>, \<open>fsync_write.c\<close>, \<open>fsync.c\<close> and \<open>read_file.c\<close>. A local buffer is a byte
  list. \<open>Undefined\<close> is undefined behaviour, \<open>More\<close> an exhausted bound on a loop.
\<close>

section \<open>Reading into a buffer\<close>

text \<open>What a read, with its answer, leaves in the buffer.\<close>

definition got :: "answer \<Rightarrow> u8 list" where
  "got a = take (nat (rv a)) (dat a)"

definition read_into :: "answer \<Rightarrow> u8 list \<Rightarrow> u8 list" where
  "read_into a buf = got a @ drop (length (got a)) buf"

section \<open>test_speed.c and victim.c\<close>

definition COPY_BUFFER_SIZE :: int where
  "COPY_BUFFER_SIZE = 1024"

definition ts_wrapper :: "int \<Rightarrow> nat \<Rightarrow> nat \<Rightarrow> sys_call" where
  "ts_wrapper fd count n = Px (Read fd n)"

definition end_mark :: int where
  "end_mark = 0"

definition victim_read :: "int \<Rightarrow> nat \<Rightarrow> nat \<Rightarrow> sys_call" where
  "victim_read fd count n = Px (Pread fd n (c_int (int count * COPY_BUFFER_SIZE)))"

text \<open>
  The copy loop of both: \<open>rd count n\<close> is the call that reads a block, \<open>after\<close> what follows it (the
  probe of \<open>victim.c\<close>). A failed read makes \<open>write\<close> read beyond the buffer. The result is the exit
  status of an error, or \<open>None\<close> when the loop ends.
\<close>

fun copy_loop :: "sys_env \<Rightarrow> (nat \<Rightarrow> nat \<Rightarrow> sys_call) \<Rightarrow> (int \<Rightarrow> sys_call list) \<Rightarrow> int \<Rightarrow> nat \<Rightarrow> int \<Rightarrow> u8 list \<Rightarrow> nat
    \<Rightarrow> sys \<Rightarrow> (int option \<times> sys) ru_result" where
  "copy_loop env rd after dst 0 remaining buf count s =
     (if 0 < remaining then More else Done (None, s))"
| "copy_loop env rd after dst (Suc fuel) remaining buf count s =
     (if \<not> 0 < remaining then Done (None, s)
      else
        let want = (if remaining < COPY_BUFFER_SIZE then remaining else COPY_BUFFER_SIZE);
            (a, s) = call env (rd count (nat want)) s; bytes_read = c_int (rv a);
            buf = read_into a buf;
            s = fold (do_call env) (after bytes_read) s;
            remaining = remaining - bytes_read in
        if bytes_read < 0 \<or> COPY_BUFFER_SIZE < bytes_read then Undefined
        else
          let (w, s) = call env (Px (Write dst (take (nat bytes_read) buf))) s in
          if c_int (rv w) = - 1
          then Done (Some EXIT_FAILURE, do_call env (Px (Perror ''Error writing to destination file'')) s)
          else copy_loop env rd after dst fuel remaining buf (count + 1) s)"

text \<open>The rest of the two programs; they differ in the source file and how they read it.\<close>

definition copy_main :: "string \<Rightarrow> (int \<Rightarrow> nat \<Rightarrow> nat \<Rightarrow> sys_call) \<Rightarrow> (int \<Rightarrow> sys_call list) \<Rightarrow>
    sys_env \<Rightarrow> nat \<Rightarrow> u8 list \<Rightarrow> (int \<times> sys) ru_result" where
  "copy_main file rd after env fuel buf =
     (let (a, s) = call env (Px (Open file 0 0)) fresh; src = c_int (rv a) in
      if src = - 1 then Done (EXIT_FAILURE, do_call env (Px (Perror ''Error opening source file'')) s)
      else
        let (a, s) = call env (Px (Open ''./temp.txt'' 577 384)) s; dst = c_int (rv a) in
        if dst = - 1 then Done (EXIT_FAILURE, do_call env (Px (Perror ''Error opening destination file'')) s)
        else
          let s = do_call env (Px Clock) s; (a, s) = call env (Px (Fstat src)) s in
          if rv a = - 1 then Done (- 1, do_call env (Px (Perror ''Error getting file stats'')) s)
          else
            let remaining = c_int (aux a); s = do_call env (Px (PrintInt ''File size: %d'' remaining)) s in
            (case copy_loop env (rd src) after dst fuel remaining buf 0 s of
               More \<Rightarrow> More
             | Undefined \<Rightarrow> Undefined
             | Done (Some st, s) \<Rightarrow> Done (st, s)
             | Done (None, s) \<Rightarrow>
                 let s = do_call env (Px Clock) s;
                     s = do_call env (Px (Close dst)) s;
                     s = do_call env (Px (Close src)) s
                 in Done (0, do_call env (Px (Print ''File copied successfully in %f seconds'')) s)))"

definition test_speed_main :: "sys_env \<Rightarrow> nat \<Rightarrow> u8 list \<Rightarrow> (int \<times> sys) ru_result" where
  "test_speed_main = copy_main ''./1mb.txt'' ts_wrapper (\<lambda>n. [])"

definition victim_main :: "sys_env \<Rightarrow> nat \<Rightarrow> u8 list \<Rightarrow> (int \<times> sys) ru_result" where
  "victim_main = copy_main ''./1gb.txt'' victim_read (\<lambda>n. [Px (Probe ''read'' n)])"

section \<open>read_file.c\<close>

text \<open>The loop returns the last result of \<open>read\<close>.\<close>

fun rf_loop :: "sys_env \<Rightarrow> int \<Rightarrow> nat \<Rightarrow> sys \<Rightarrow> (int \<times> sys) ru_result" where
  "rf_loop env fd 0 s = More"
| "rf_loop env fd (Suc fuel) s =
     (let (a, s) = call env (Px (Read fd 4096)) s in
      if 0 < rv a then rf_loop env fd fuel s else Done (rv a, s))"

definition rf_main :: "sys_env \<Rightarrow> nat \<Rightarrow> (int \<times> sys) ru_result" where
  "rf_main env fuel =
     (let (a, s) = call env (Px (Open ''1gb.txt'' 0 0)) fresh; fd = c_int (rv a) in
      if fd < 0 then Done (EXIT_FAILURE, snd (handle_error env ''Failed to open file'' s))
      else
        (case rf_loop env fd fuel s of
           Done (n, s) \<Rightarrow>
             if n < 0 then Done (EXIT_FAILURE, snd (handle_error env ''Failed to read file'' s))
             else Done (0, do_call env (Px (Close fd)) s)
         | Undefined \<Rightarrow> Undefined | More \<Rightarrow> More))"

section \<open>read.c and fsync_write.c\<close>

text \<open>Loops bounded by the clock: \<open>time(NULL) - start < 0.4\<close> means the same second.\<close>

fun rd_loop :: "sys_env \<Rightarrow> int \<Rightarrow> int \<Rightarrow> nat \<Rightarrow> nat \<Rightarrow> sys \<Rightarrow> (nat \<times> sys) ru_result" where
  "rd_loop env fd start 0 count s = More"
| "rd_loop env fd start (Suc fuel) count s =
     (let (t, s) = call env (Px Time) s in
      if rv t - start < 1 then
        let (a, s) = call env (Px (Pread fd 4 (4 * int count))) s in
        if rv a \<le> 0 then Done (count, do_call env (Px (Perror ''Failed to read'')) s)
        else rd_loop env fd start fuel (count + 1) s
      else Done (count, s))"

definition rd_test :: "sys_env \<Rightarrow> nat \<Rightarrow> sys \<Rightarrow> (int \<times> sys) ru_result" where
  "rd_test env fuel s =
     (let s = do_call env (Px (Print ''test for read'')) s;
          (a, s) = call env (Px (Open ''temp.txt'' 0 0)) s; fd = c_int (rv a) in
      if fd < 0 then Done (1, do_call env (Px (Perror ''Failed to open file'')) s)
      else
        let s = do_call env (Px (PrintInt ''fd: %d'' fd)) s; (t, s) = call env (Px Time) s in
        (case rd_loop env fd (rv t) fuel 0 s of
           Done (count, s) \<Rightarrow>
             let s = do_call env (Px (Close fd)) s
             in Done (0, do_call env (Px (PrintInt ''Number of read calls in 0.4 seconds: %d'' (int count))) s)
         | Undefined \<Rightarrow> Undefined | More \<Rightarrow> More))"

definition hello :: "u8 list" where
  "hello = [0x48, 0x65, 0x6c, 0x6c, 0x6f]"

fun fw_loop :: "sys_env \<Rightarrow> int \<Rightarrow> int \<Rightarrow> nat \<Rightarrow> nat \<Rightarrow> sys \<Rightarrow> (nat \<times> sys) ru_result" where
  "fw_loop env fd start 0 count s = More"
| "fw_loop env fd start (Suc fuel) count s =
     (let (t, s) = call env (Px Time) s in
      if rv t - start < 3 then
        let (w, s) = call env (Px (Write fd hello)) s in
        if rv w \<noteq> 5 then Done (count, do_call env (Px (Perror ''Failed to write'')) s)
        else
          let (a, s) = call env (Px (Fsync fd)) s in
          if rv a < 0 then Done (count, do_call env (Px (Perror ''Failed to fsync'')) s)
          else fw_loop env fd start fuel (count + 1) s
      else Done (count, s))"

definition fw_test :: "sys_env \<Rightarrow> nat \<Rightarrow> sys \<Rightarrow> (int \<times> sys) ru_result" where
  "fw_test env fuel s =
     (let s = do_call env (Px (Print ''test for fsync'')) s;
          (a, s) = call env (Px (Open ''temp.txt'' 1089 420)) s; fd = c_int (rv a) in
      if fd < 0 then Done (1, do_call env (Px (Perror ''Failed to open file'')) s)
      else
        let s = do_call env (Px (PrintInt ''fd: %d'' fd)) s; (t, s) = call env (Px Time) s in
        (case fw_loop env fd (rv t) fuel 0 s of
           Done (count, s) \<Rightarrow>
             let s = do_call env (Px (Close fd)) s
             in Done (0, do_call env (Px (PrintInt
                  ''Number of write and fsync calls in 3 seconds: %d'' (int count))) s)
         | Undefined \<Rightarrow> Undefined | More \<Rightarrow> More))"

text \<open>\<open>while (1)\<close>: the state after \<open>k\<close> rounds of a test.\<close>

fun test_rounds :: "(sys_env \<Rightarrow> nat \<Rightarrow> sys \<Rightarrow> (int \<times> sys) ru_result) \<Rightarrow> sys_env \<Rightarrow> nat \<Rightarrow> nat \<Rightarrow> sys \<Rightarrow> sys ru_result" where
  "test_rounds test env fuel 0 s = Done s"
| "test_rounds test env fuel (Suc k) s =
     (case test env fuel s of
        Done (r, s) \<Rightarrow> test_rounds test env fuel k (do_call env (Px (Sleep 1)) s)
      | Undefined \<Rightarrow> Undefined | More \<Rightarrow> More)"

definition rd_main :: "sys_env \<Rightarrow> nat \<Rightarrow> nat \<Rightarrow> sys ru_result" where
  "rd_main env fuel k = test_rounds rd_test env fuel k (do_call env (Px (Print ''start'')) fresh)"

definition fw_main :: "sys_env \<Rightarrow> nat \<Rightarrow> nat \<Rightarrow> sys ru_result" where
  "fw_main env fuel k = test_rounds fw_test env fuel k (do_call env (Px (Print ''start'')) fresh)"

section \<open>fsync/fsync.c\<close>

text \<open>An endless loop that only an error leaves; \<open>data\<close> is the text it writes.\<close>

fun fs_loop :: "sys_env \<Rightarrow> u8 list \<Rightarrow> int \<Rightarrow> nat \<Rightarrow> sys \<Rightarrow> (int \<times> sys) ru_result" where
  "fs_loop env data fd 0 s = More"
| "fs_loop env data fd (Suc fuel) s =
     (let (w, s) = call env (Px (Write fd data)) s in
      if rv w \<noteq> int (length data)
      then Done (1, do_call env (Px (Close fd)) (do_call env (Px (Perror ''write'')) s))
      else
        let (a, s) = call env (Px (Fsync fd)) s in
        if rv a < 0 then Done (1, do_call env (Px (Close fd)) (do_call env (Px (Perror ''fsync'')) s))
        else fs_loop env data fd fuel s)"

definition fs_main :: "sys_env \<Rightarrow> u8 list \<Rightarrow> nat \<Rightarrow> (int \<times> sys) ru_result" where
  "fs_main env data fuel =
     (let (a, s) = call env (Px (Open ''example.txt'' 65 420)) fresh; fd = c_int (rv a) in
      if fd < 0 then Done (1, do_call env (Px (Perror ''open'')) s)
      else fs_loop env data fd fuel s)"

section \<open>client.c and server.c\<close>

definition SOCK_BUF_SIZE :: int where
  "SOCK_BUF_SIZE = 1024"

text \<open>
  The loop of both: read into the buffer and hand what was read to \<open>wr\<close>, whose result the code
  ignores, until a read returns nothing or fails.
\<close>

fun pump :: "sys_env \<Rightarrow> sys_call \<Rightarrow> (u8 list \<Rightarrow> sys_call) \<Rightarrow> nat \<Rightarrow> u8 list \<Rightarrow> sys \<Rightarrow> (u8 list \<times> sys) ru_result" where
  "pump env rd wr 0 buf s = More"
| "pump env rd wr (Suc fuel) buf s =
     (let (a, s) = call env rd s; n = c_int (rv a); buf = read_into a buf in
      if n \<le> 0 then Done (buf, s)
      else if SOCK_BUF_SIZE < n then Undefined
      else pump env rd wr fuel buf (do_call env (wr (take (nat n) buf)) s))"

text \<open>The receive loop of the client; the result is that of the last \<open>recv\<close>, or \<open>None\<close> after a
  write that failed.\<close>

fun cl_recv :: "sys_env \<Rightarrow> int \<Rightarrow> int \<Rightarrow> nat \<Rightarrow> u8 list \<Rightarrow> sys \<Rightarrow> (int option \<times> sys) ru_result" where
  "cl_recv env sock recv_fd 0 buf s = More"
| "cl_recv env sock recv_fd (Suc fuel) buf s =
     (let (a, s) = call env (Px (Recv sock (nat SOCK_BUF_SIZE))) s; n = c_int (rv a); buf = read_into a buf in
      if n \<le> 0 then Done (Some n, s)
      else if SOCK_BUF_SIZE < n then Undefined
      else
        let (w, s) = call env (Px (Write recv_fd (take (nat n) buf))) s in
        if rv w \<noteq> n
        then Done (None, do_call env (Px (Close sock)) (do_call env (Px (Close recv_fd))
               (do_call env (Px (Perror ''write'')) s)))
        else cl_recv env sock recv_fd fuel buf s)"

text \<open>A test returns (\<open>Inr\<close>), or leaves the program with an exit status (\<open>Inl\<close>).\<close>

definition exit_failure :: "sys_env \<Rightarrow> string \<Rightarrow> sys \<Rightarrow> ((int + int) \<times> sys) ru_result" where
  "exit_failure env m s = Done (Inl EXIT_FAILURE, do_call env (Px (Perror m)) s)"

definition cl_response :: "sys_env \<Rightarrow> int \<Rightarrow> nat \<Rightarrow> u8 list \<Rightarrow> sys \<Rightarrow> ((int + int) \<times> sys) ru_result" where
  "cl_response env sock fuel buf s =
     (let s = do_call env (Px (Shutdown sock)) s;
          s = do_call env (Px (Print ''Data sent'')) s;
          (a, s) = call env (Px (Open ''recv.txt'' 577 420)) s; recv_fd = c_int (rv a) in
      if recv_fd < 0
      then Done (Inr (- 1), do_call env (Px (Close sock)) (do_call env (Px (Perror ''Failed to open file recv.txt'')) s))
      else
        (case cl_recv env sock recv_fd fuel buf (do_call env (Px (SetRecvTimeout sock 5)) s) of
           More \<Rightarrow> More
         | Undefined \<Rightarrow> Undefined
         | Done (None, s) \<Rightarrow> Done (Inr (- 1), s)
         | Done (Some n, s) \<Rightarrow>
             let s = (if n < 0 then do_call env (Px (Perror ''recv'')) s else s);
                 s = do_call env (Px (Close recv_fd)) s;
                 s = do_call env (Px (Close sock)) s
             in Done (Inr 0, do_call env (Px (Print ''Data transfer complete'')) s)))"

definition cl_test :: "sys_env \<Rightarrow> nat \<Rightarrow> u8 list \<Rightarrow> sys \<Rightarrow> ((int + int) \<times> sys) ru_result" where
  "cl_test env fuel buf s =
     (let (a, s) = call env (Px Socket) s; sock = c_int (rv a) in
      if sock < 0 then exit_failure env ''socket'' s
      else
        let (p, s) = call env (Px (InetPton ''127.0.0.1'')) s in
        if rv p \<le> 0 then exit_failure env ''inet_pton'' s
        else
          let (c, s) = call env (Px (Connect sock)) s in
          if rv c < 0 then exit_failure env ''connect'' s
          else
            let s = do_call env (Px (Print ''Connected to server'')) s;
                (f, s) = call env (Px (Open ''temp.txt'' 0 0)) s; file_fd = c_int (rv f) in
            if file_fd < 0
            then Done (Inr (- 1), do_call env (Px (Perror ''Failed to open file temp.txt'')) s)
            else
              (case pump env (Px (Read file_fd (nat SOCK_BUF_SIZE))) (\<lambda>d. Px (Send sock d)) fuel buf s of
                 More \<Rightarrow> More
               | Undefined \<Rightarrow> Undefined
               | Done (buf, s) \<Rightarrow> cl_response env sock fuel buf s))"

text \<open>\<open>main\<close> ignores what the test returns.\<close>

definition sock_main :: "(sys_env \<Rightarrow> nat \<Rightarrow> u8 list \<Rightarrow> sys \<Rightarrow> ((int + int) \<times> sys) ru_result) \<Rightarrow>
    sys_env \<Rightarrow> nat \<Rightarrow> u8 list \<Rightarrow> (int \<times> sys) ru_result" where
  "sock_main test env fuel buf =
     (case test env fuel buf (do_call env (Px (Print ''start'')) fresh) of
        More \<Rightarrow> More
      | Undefined \<Rightarrow> Undefined
      | Done (Inl st, s) \<Rightarrow> Done (st, s)
      | Done (Inr r, s) \<Rightarrow> Done (0, s))"

definition cl_main :: "sys_env \<Rightarrow> nat \<Rightarrow> u8 list \<Rightarrow> (int \<times> sys) ru_result" where
  "cl_main = sock_main cl_test"

text \<open>The server after a client was accepted.\<close>

definition sv_serve :: "sys_env \<Rightarrow> int \<Rightarrow> int \<Rightarrow> nat \<Rightarrow> u8 list \<Rightarrow> sys \<Rightarrow> ((int + int) \<times> sys) ru_result" where
  "sv_serve env listen_fd client_fd fuel buf s =
     (let s = do_call env (Px (Print ''Waiting for response file to be created'')) s;
          (a, s) = call env (Px (Open ''response.txt'' 2 0)) s; recv_fd = c_int (rv a) in
      (case pump env (Px (Read client_fd (nat SOCK_BUF_SIZE))) (\<lambda>d. Px (Write recv_fd d)) fuel buf s of
         More \<Rightarrow> More
       | Undefined \<Rightarrow> Undefined
       | Done (buf, s) \<Rightarrow>
           let s = do_call env (Px (Close recv_fd)) s;
               (r, s) = call env (Px (Open ''response.txt'' 0 0)) s; response_fd = c_int (rv r) in
           if response_fd < 0
           then Done (Inr (- 1), do_call env (Px (Perror ''Fail to open response.txt'')) s)
           else
             (case pump env (Px (Read response_fd (nat SOCK_BUF_SIZE))) (\<lambda>d. Px (Send client_fd d)) fuel buf s of
                More \<Rightarrow> More
              | Undefined \<Rightarrow> Undefined
              | Done (buf, s) \<Rightarrow>
                  let s = do_call env (Px (Print ''Response sent'')) s;
                      s = do_call env (Px (Close client_fd)) s;
                      s = do_call env (Px (Close response_fd)) s
                  in Done (Inr 0, do_call env (Px (Close listen_fd)) s))))"

definition sv_test :: "sys_env \<Rightarrow> nat \<Rightarrow> u8 list \<Rightarrow> sys \<Rightarrow> ((int + int) \<times> sys) ru_result" where
  "sv_test env fuel buf s =
     (let (a, s) = call env (Px Socket) s; listen_fd = c_int (rv a) in
      if listen_fd < 0 then exit_failure env ''socket'' s
      else
        let (b, s) = call env (Px (Bind listen_fd)) s in
        if rv b < 0 then exit_failure env ''bind'' s
        else
          let (l, s) = call env (Px (Listen listen_fd 5)) s in
          if rv l < 0 then exit_failure env ''listen'' s
          else
            let s = do_call env (Px (PrintInt ''Server listening on port %d'' 8080)) s;
                (c, s) = call env (Px (Accept listen_fd)) s; client_fd = c_int (rv c) in
            if client_fd < 0 then exit_failure env ''accept'' s
            else sv_serve env listen_fd client_fd fuel buf (do_call env (Px (Print ''Client connected'')) s))"

definition sv_main :: "sys_env \<Rightarrow> nat \<Rightarrow> u8 list \<Rightarrow> (int \<times> sys) ru_result" where
  "sv_main = sock_main sv_test"

section \<open>Streams\<close>

text \<open>
  What a program took from a descriptor and what it gave to one, read off the history. A stream
  with content \<open>c\<close> answers every read with a prefix of what was not consumed yet, short or not, but
  not empty before the end; a sink takes all that it is given.
\<close>

fun reads_from :: "int \<Rightarrow> sys_call \<Rightarrow> bool" where
  "reads_from fd (Px (Read f n)) \<longleftrightarrow> f = fd"
| "reads_from fd (Px (Recv f n)) \<longleftrightarrow> f = fd"
| "reads_from fd e \<longleftrightarrow> False"

fun output_to :: "int \<Rightarrow> sys_call \<Rightarrow> u8 list" where
  "output_to fd (Px (Write f d)) = (if f = fd then d else [])"
| "output_to fd (Px (Send f d)) = (if f = fd then d else [])"
| "output_to fd e = []"

definition consumed :: "int \<Rightarrow> history \<Rightarrow> u8 list" where
  "consumed fd h = concat (map (\<lambda>(e, a). if reads_from fd e then got a else []) h)"

definition given :: "int \<Rightarrow> history \<Rightarrow> u8 list" where
  "given fd h = concat (map (\<lambda>(e, a). output_to fd e) h)"

lemma consumed_simps [simp]:
  "consumed fd [] = []"
  "consumed fd (h @ h') = consumed fd h @ consumed fd h'"
  "consumed fd ((e, a) # h) = (if reads_from fd e then got a else []) @ consumed fd h"
  by (simp_all add: consumed_def)

lemma given_simps [simp]:
  "given fd [] = []"
  "given fd (h @ h') = given fd h @ given fd h'"
  "given fd ((e, a) # h) = output_to fd e @ given fd h"
  by (simp_all add: given_def)

definition stream :: "sys_env \<Rightarrow> (nat \<Rightarrow> sys_call) \<Rightarrow> int \<Rightarrow> u8 list \<Rightarrow> bool" where
  "stream env rd fd c \<longleftrightarrow>
     (\<forall>h n. let a = env h (rd n); rest = drop (length (consumed fd h)) c in
        0 \<le> rv a \<and> rv a \<le> int n \<and> rv a \<le> int (length rest) \<and> got a = take (nat (rv a)) rest \<and>
        (0 < n \<and> rest \<noteq> [] \<longrightarrow> 0 < rv a))"

definition sink :: "sys_env \<Rightarrow> int \<Rightarrow> bool" where
  "sink env fd \<longleftrightarrow> (\<forall>h d. rv (env h (Px (Write fd d))) = int (length d))"

lemma streamD:
  assumes "stream env rd fd c" and "a = env h (rd n)" and "rest = drop (length (consumed fd h)) c"
  shows "0 \<le> rv a" and "rv a \<le> int n" and "rv a \<le> int (length rest)"
    and "got a = take (nat (rv a)) rest" and "0 < n \<Longrightarrow> rest \<noteq> [] \<Longrightarrow> 0 < rv a"
  using assms unfolding stream_def Let_def by blast+

lemma take_read_into [simp]: "length (got a) = nat n \<Longrightarrow> take (nat n) (read_into a buf) = got a"
  by (simp add: read_into_def)

lemma shrinks: "rest \<noteq> [] \<Longrightarrow> 0 < n \<Longrightarrow> length rest < Suc fuel \<Longrightarrow> length rest - nat n < fuel"
  by (cases rest) auto

text \<open>
  The interface of the pump: reads with \<open>rd\<close> take from \<open>fd\<close> only, \<open>wr\<close> gives its data to \<open>w\<close> and
  takes nothing. The pump then moves the rest of its stream to \<open>w\<close>, and nothing else.
\<close>

locale data_path =
  fixes rd :: "nat \<Rightarrow> sys_call" and wr :: "u8 list \<Rightarrow> sys_call" and fd w :: int
  assumes rd_takes: "reads_from f (rd n) \<longleftrightarrow> f = fd"
    and rd_silent: "output_to g (rd n) = []"
    and wr_takes: "\<not> reads_from f (wr d)"
    and wr_gives: "output_to g (wr d) = (if g = w then d else [])"
begin

lemma pump_moves:
  assumes st: "stream env rd fd c"
  shows "length (drop (length (consumed fd (hist s))) c) < fuel \<Longrightarrow>
    \<exists>buf' s'. pump env (rd (nat SOCK_BUF_SIZE)) wr fuel buf s = Done (buf', s') \<and>
      (\<forall>g. given g (hist s') = given g (hist s) @ (if g = w then drop (length (consumed fd (hist s))) c else [])) \<and>
      (\<forall>f. f \<noteq> fd \<longrightarrow> consumed f (hist s') = consumed f (hist s))"
proof (induction fuel arbitrary: buf s)
  case 0
  then show ?case by simp
next
  case (Suc fuel)
  define rest where "rest = drop (length (consumed fd (hist s))) c"
  define a where "a = env (hist s) (rd (nat SOCK_BUF_SIZE))"
  note law = streamD [OF st a_def rest_def]
  have len: "length (got a) = nat (rv a)" using law(1,3,4) by simp
  have int: "c_int (rv a) = rv a" using law(1,2) by (simp add: SOCK_BUF_SIZE_def)
  have fits: "\<not> SOCK_BUF_SIZE < rv a" using law(2) by (simp add: SOCK_BUF_SIZE_def)
  show ?case
  proof (cases "rest = []")
    case True
    then have "rv a = 0" using law(1,3) by simp
    then show ?thesis using True len int rd_takes rd_silent
      by (simp add: call_pair a_def [symmetric] rest_def [symmetric])
  next
    case False
    then have pos: "0 < rv a" using law(5) by (simp add: SOCK_BUF_SIZE_def)
    define s1 where "s1 = do_call env (wr (got a)) (do_call env (rd (nat SOCK_BUF_SIZE)) s)"
    have t1: "consumed fd (hist s1) = consumed fd (hist s) @ got a"
      using rd_takes wr_takes by (simp add: s1_def a_def)
    have r1: "drop (length (consumed fd (hist s1))) c = drop (nat (rv a)) rest"
      using len by (simp add: t1 rest_def add.commute)
    have g1: "given g (hist s1) = given g (hist s) @ (if g = w then got a else [])" for g
      using rd_silent wr_gives by (simp add: s1_def)
    have o1: "f \<noteq> fd \<Longrightarrow> consumed f (hist s1) = consumed f (hist s)" for f
      using rd_takes wr_takes by (simp add: s1_def)
    have "length (drop (length (consumed fd (hist s1))) c) < fuel"
      using shrinks [OF False pos] Suc.prems by (simp add: r1 rest_def [symmetric])
    from Suc.IH [OF this, of "read_into a buf"] obtain buf' s' where ih:
      "pump env (rd (nat SOCK_BUF_SIZE)) wr fuel (read_into a buf) s1 = Done (buf', s')"
      "\<And>g. given g (hist s') = given g (hist s1) @ (if g = w then drop (nat (rv a)) rest else [])"
      "\<And>f. f \<noteq> fd \<Longrightarrow> consumed f (hist s') = consumed f (hist s1)"
      unfolding r1 by blast
    have step: "pump env (rd (nat SOCK_BUF_SIZE)) wr (Suc fuel) buf s = Done (buf', s')"
      using ih(1) pos len
      by (simp add: call_pair a_def [symmetric] s1_def [symmetric] int fits)
    have "given g (hist s') = given g (hist s) @ (if g = w then rest else [])" for g
      using law(4) by (simp add: ih(2) g1)
    then show ?thesis using step ih(3) o1 by (auto simp: rest_def [symmetric])
  qed
qed

end

text \<open>The paths of the client and the server.\<close>

interpretation to_socket: data_path "\<lambda>n. Px (Read fd n)" "\<lambda>d. Px (Send sock d)" fd sock for fd sock
  by unfold_locales auto

interpretation to_file: data_path "\<lambda>n. Px (Read fd n)" "\<lambda>d. Px (Write dst d)" fd dst for fd dst
  by unfold_locales auto

text \<open>So does the receive loop of the client, which also checks each write.\<close>

lemma cl_recv_moves:
  assumes st: "stream env (\<lambda>n. Px (Recv sock n)) sock c" and wr: "sink env w"
  shows "length (drop (length (consumed sock (hist s))) c) < fuel \<Longrightarrow>
    \<exists>s'. cl_recv env sock w fuel buf s = Done (Some 0, s') \<and>
      (\<forall>g. given g (hist s') = given g (hist s) @ (if g = w then drop (length (consumed sock (hist s))) c else []))"
proof (induction fuel arbitrary: buf s)
  case 0
  then show ?case by simp
next
  case (Suc fuel)
  define rest where "rest = drop (length (consumed sock (hist s))) c"
  define a where "a = env (hist s) (Px (Recv sock (nat SOCK_BUF_SIZE)))"
  note law = streamD [OF st a_def rest_def]
  have len: "length (got a) = nat (rv a)" using law(1,3,4) by simp
  have int: "c_int (rv a) = rv a" using law(1,2) by (simp add: SOCK_BUF_SIZE_def)
  have fits: "\<not> SOCK_BUF_SIZE < rv a" using law(2) by (simp add: SOCK_BUF_SIZE_def)
  show ?case
  proof (cases "rest = []")
    case True
    then have "rv a = 0" using law(1,3) by simp
    then show ?thesis using True len int
      by (simp add: call_pair a_def [symmetric] rest_def [symmetric])
  next
    case False
    then have pos: "0 < rv a" using law(5) by (simp add: SOCK_BUF_SIZE_def)
    define s1 where "s1 = do_call env (Px (Write w (got a))) (do_call env (Px (Recv sock (nat SOCK_BUF_SIZE))) s)"
    have r1: "drop (length (consumed sock (hist s1))) c = drop (nat (rv a)) rest"
      using len by (simp add: s1_def a_def [symmetric] rest_def add.commute)
    have g1: "given g (hist s1) = given g (hist s) @ (if g = w then got a else [])" for g
      by (simp add: s1_def)
    have "length (drop (length (consumed sock (hist s1))) c) < fuel"
      using shrinks [OF False pos] Suc.prems by (simp add: r1 rest_def [symmetric])
    from Suc.IH [OF this, of "read_into a buf"] obtain s' where ih:
      "cl_recv env sock w fuel (read_into a buf) s1 = Done (Some 0, s')"
      "\<And>g. given g (hist s') = given g (hist s1) @ (if g = w then drop (nat (rv a)) rest else [])"
      unfolding r1 by blast
    have "cl_recv env sock w (Suc fuel) buf s = Done (Some 0, s')"
      using ih(1) pos len wr
      by (simp add: call_pair a_def [symmetric] s1_def [symmetric] int fits Let_def sink_def)
    moreover have "given g (hist s') = given g (hist s) @ (if g = w then rest else [])" for g
      using law(4) by (simp add: ih(2) g1)
    ultimately show ?thesis by (auto simp: rest_def [symmetric])
  qed
qed

section \<open>The copies\<close>

lemma given_fold_do_call:
  "(\<And>e. e \<in> set es \<Longrightarrow> output_to g e = []) \<Longrightarrow> given g (hist (fold (do_call env) es s)) = given g (hist s)"
  by (induction es arbitrary: s) simp_all

text \<open>
  The loop copies the rest of the content if every read returns a non-empty part of it at the
  right place; \<open>I count k s\<close> says that after \<open>count\<close> rounds \<open>k\<close> bytes were copied.
\<close>

lemma copy_loop_copies:
  assumes rd: "\<And>count k s n a. I count k s \<Longrightarrow> k < length c \<Longrightarrow> n = nat (min COPY_BUFFER_SIZE (int (length c - k))) \<Longrightarrow>
      a = env (hist s) (rd count n) \<Longrightarrow>
      0 < rv a \<and> rv a \<le> int n \<and> got a = take (nat (rv a)) (drop k c) \<and>
      I (Suc count) (k + nat (rv a)) (do_call env (Px (Write dst (got a)))
        (fold (do_call env) (after (rv a)) (do_call env (rd count n) s)))"
    and out: "\<And>count n. output_to dst (rd count n) = []" "\<And>n e. e \<in> set (after n) \<Longrightarrow> output_to dst e = []"
    and wr: "sink env dst"
  shows "I count k s \<Longrightarrow> k \<le> length c \<Longrightarrow> length c - k \<le> fuel \<Longrightarrow>
    \<exists>s'. copy_loop env rd after dst fuel (int (length c - k)) buf count s = Done (None, s') \<and>
      given dst (hist s') = given dst (hist s) @ drop k c"
proof (induction fuel arbitrary: k count buf s)
  case 0
  then show ?case by simp
next
  case (Suc fuel)
  show ?case
  proof (cases "k < length c")
    case False
    then show ?thesis using Suc.prems by simp
  next
    case True
    define n where "n = nat (min COPY_BUFFER_SIZE (int (length c - k)))"
    define a where "a = env (hist s) (rd count n)"
    define s1 where "s1 = do_call env (Px (Write dst (got a)))
        (fold (do_call env) (after (rv a)) (do_call env (rd count n) s))"
    have law: "0 < rv a" "rv a \<le> int n" "got a = take (nat (rv a)) (drop k c)" "I (Suc count) (k + nat (rv a)) s1"
      using rd [OF Suc.prems(1) True n_def a_def] unfolding s1_def by blast+
    have n: "int n \<le> 1024" "int n \<le> int (length c - k)"
      using True by (simp_all add: n_def COPY_BUFFER_SIZE_def)
    have len: "length (got a) = nat (rv a)" using law(1-3) n by simp
    have int: "c_int (rv a) = rv a" using law(1,2) n by simp
    have g1: "given dst (hist s1) = given dst (hist s) @ got a"
      using out by (simp add: s1_def given_fold_do_call)
    have le: "k + nat (rv a) \<le> length c" "length c - (k + nat (rv a)) \<le> fuel"
      using law(1,2) n Suc.prems(2,3) by linarith+
    obtain s' where ih:
      "copy_loop env rd after dst fuel (int (length c - (k + nat (rv a)))) (read_into a buf) (Suc count) s1 = Done (None, s')"
      "given dst (hist s') = given dst (hist s1) @ drop (k + nat (rv a)) c"
      using Suc.IH [OF law(4) le] by blast
    have left: "int (length c - k) - rv a = int (length c - (k + nat (rv a)))"
      using law(1) le(1) by linarith
    have want: "nat (if int (length c - k) < COPY_BUFFER_SIZE then int (length c - k) else COPY_BUFFER_SIZE) = n"
      by (simp add: n_def)
    have ok: "\<And>h. c_int (rv (env h (Px (Write dst (got a))))) \<noteq> - 1"
      using wr n law(2) by (simp add: sink_def len)
    have "copy_loop env rd after dst (Suc fuel) (int (length c - k)) buf count s = Done (None, s')"
      using ih(1) law(1,2) n True unfolding copy_loop.simps(2) Let_def want
      by (simp add: call_pair a_def [symmetric] int len ok s1_def [symmetric] left diff_diff_eq COPY_BUFFER_SIZE_def)
    moreover have "given dst (hist s') = given dst (hist s) @ drop k c"
      using append_take_drop_id [of "nat (rv a)" "drop k c"] by (simp add: ih(2) g1 law(3) add.commute)
    ultimately show ?thesis by blast
  qed
qed

text \<open>The rest of the program is the same for both copies.\<close>

definition opens_to :: "sys_env \<Rightarrow> string \<Rightarrow> int \<Rightarrow> int \<Rightarrow> int \<Rightarrow> bool" where
  "opens_to env file flags mode fd \<longleftrightarrow> (\<forall>h. c_int (rv (env h (Px (Open file flags mode)))) = fd) \<and> 0 \<le> fd"

definition has_size :: "sys_env \<Rightarrow> int \<Rightarrow> nat \<Rightarrow> bool" where
  "has_size env fd n \<longleftrightarrow> (\<forall>h. rv (env h (Px (Fstat fd))) = 0 \<and> aux (env h (Px (Fstat fd))) = int n) \<and> n < 2 ^ 31"

definition copy_started :: "string \<Rightarrow> sys_env \<Rightarrow> int \<Rightarrow> nat \<Rightarrow> sys" where
  "copy_started file env src n = do_call env (Px (PrintInt ''File size: %d'' (int n))) (do_call env (Px (Fstat src))
    (do_call env (Px Clock) (do_call env (Px (Open ''./temp.txt'' 577 384)) (do_call env (Px (Open file 0 0)) fresh))))"

definition copy_finished :: "sys_env \<Rightarrow> int \<Rightarrow> int \<Rightarrow> sys \<Rightarrow> sys" where
  "copy_finished env src dst s = do_call env (Px (Print ''File copied successfully in %f seconds''))
    (do_call env (Px (Close src)) (do_call env (Px (Close dst)) (do_call env (Px Clock) s)))"

lemma copy_main_eq:
  assumes "opens_to env file 0 0 src" "opens_to env ''./temp.txt'' 577 384 dst" "has_size env src n"
  shows "copy_main file rd after env fuel buf =
    (case copy_loop env (rd src) after dst fuel (int n) buf 0 (copy_started file env src n) of
       More \<Rightarrow> More | Undefined \<Rightarrow> Undefined | Done (Some st, s) \<Rightarrow> Done (st, s)
     | Done (None, s) \<Rightarrow> Done (0, copy_finished env src dst s))"
  using assms unfolding copy_main_def opens_to_def has_size_def
  by (simp add: call_pair copy_started_def [symmetric] del: hist_do_call)
    (simp add: copy_finished_def Let_def del: hist_do_call cong: ru_result.case_cong option.case_cong)

lemma copy_main_copies:
  assumes files: "opens_to env file 0 0 src" "opens_to env ''./temp.txt'' 577 384 dst" "has_size env src (length c)"
    and loop: "\<And>s. consumed src (hist s) = [] \<Longrightarrow> \<exists>s'. copy_loop env (rd src) after dst fuel (int (length c)) buf 0 s = Done (None, s') \<and>
      given dst (hist s') = given dst (hist s) @ c"
  shows "\<exists>s. copy_main file rd after env fuel buf = Done (0, s) \<and> given dst (hist s) = c"
proof -
  let ?s = "copy_started file env src (length c)"
  have init: "consumed src (hist ?s) = []" "given dst (hist ?s) = []"
    by (simp_all add: copy_started_def fresh_def)
  from loop [OF init(1)] obtain s' where
    l: "copy_loop env (rd src) after dst fuel (int (length c)) buf 0 ?s = Done (None, s')" "given dst (hist s') = c"
    using init(2) by auto
  then show ?thesis by (simp add: copy_main_eq [OF files] copy_finished_def)
qed

text \<open>
  C26: \<open>test_speed.c\<close> copies its source file: if the reads of the source deliver its content \<open>c\<close> in
  whatever portions, and writes are complete, then the program ends after at most one round per
  byte with exit status 0, and what it wrote to the destination is exactly \<open>c\<close>.
\<close>

theorem test_speed_copies:
  assumes "opens_to env ''./1mb.txt'' 0 0 src" and "opens_to env ''./temp.txt'' 577 384 dst"
    and "has_size env src (length c)" and "stream env (\<lambda>n. Px (Read src n)) src c" and "sink env dst"
    and "length c \<le> fuel"
  shows "\<exists>s. test_speed_main env fuel buf = Done (0, s) \<and> given dst (hist s) = c"
  unfolding test_speed_main_def
proof (rule copy_main_copies [OF assms(1-3)])
  fix s :: sys assume s: "consumed src (hist s) = []"
  have "\<exists>s'. copy_loop env (ts_wrapper src) (\<lambda>n. []) dst fuel (int (length c - 0)) buf 0 s = Done (None, s') \<and>
      given dst (hist s') = given dst (hist s) @ drop 0 c"
  proof (rule copy_loop_copies [where I = "\<lambda>count k s. length (consumed src (hist s)) = k"])
    fix count k :: nat and s :: sys and n a
    assume k: "length (consumed src (hist s)) = k" "k < length c" "n = nat (min COPY_BUFFER_SIZE (int (length c - k)))"
      "a = env (hist s) (ts_wrapper src count n)"
    have law: "0 < rv a" "rv a \<le> int n" "rv a \<le> int (length (drop k c))" "got a = take (nat (rv a)) (drop k c)"
      using streamD [OF assms(4), of a "hist s" n "drop k c"] k
      by (simp_all add: ts_wrapper_def COPY_BUFFER_SIZE_def)
    then have len: "length (got a) = nat (rv a)" using k(2) by simp
    have a: "env (hist s) (Px (Read src n)) = a" using k(4) by (simp add: ts_wrapper_def)
    show "0 < rv a \<and> rv a \<le> int n \<and> got a = take (nat (rv a)) (drop k c) \<and>
      length (consumed src (hist (do_call env (Px (Write dst (got a)))
        (fold (do_call env) [] (do_call env (ts_wrapper src count n) s))))) = k + nat (rv a)"
      using law k(1) by (simp add: ts_wrapper_def a len)
  qed (use s assms(5,6) in \<open>simp_all add: ts_wrapper_def\<close>)
  then show "\<exists>s'. copy_loop env (ts_wrapper src) (\<lambda>n. []) dst fuel (int (length c)) buf 0 s = Done (None, s') \<and>
      given dst (hist s') = given dst (hist s) @ c" by simp
qed

definition pread_file :: "sys_env \<Rightarrow> int \<Rightarrow> u8 list \<Rightarrow> bool" where
  "pread_file env fd c \<longleftrightarrow> (\<forall>h n off. 0 \<le> off \<longrightarrow>
     rv (env h (Px (Pread fd n off))) = int (min n (length c - nat off)) \<and>
     got (env h (Px (Pread fd n off))) = take n (drop (nat off) c))"

text \<open>
  \<open>victim.c\<close> copies its source file if every \<open>pread\<close> delivers as much as was asked for: the
  offset, 1024 times the number of reads, is then the number of bytes copied so far. It ends with
  exit status 0, having written exactly the content.
\<close>

theorem victim_copies:
  assumes "opens_to env ''./1gb.txt'' 0 0 src" and "opens_to env ''./temp.txt'' 577 384 dst"
    and "has_size env src (length c)" and "pread_file env src c" and "sink env dst"
    and "length c \<le> fuel"
  shows "\<exists>s. victim_main env fuel buf = Done (0, s) \<and> given dst (hist s) = c"
  unfolding victim_main_def
proof (rule copy_main_copies [OF assms(1-3)])
  fix s :: sys
  have "\<exists>s'. copy_loop env (victim_read src) (\<lambda>n. [Px (Probe ''read'' n)]) dst fuel (int (length c - 0)) buf 0 s = Done (None, s') \<and>
      given dst (hist s') = given dst (hist s) @ drop 0 c"
  proof (rule copy_loop_copies [where I = "\<lambda>count k s. k = min (length c) (count * 1024)"])
    fix count k :: nat and s :: sys and n a
    assume k: "k = min (length c) (count * 1024)" "k < length c" "n = nat (min COPY_BUFFER_SIZE (int (length c - k)))"
      "a = env (hist s) (victim_read src count n)"
    have at: "count * 1024 = k" using k(1,2) by simp
    have small: "int k < 2 ^ 31" using k(2) assms(3) by (simp add: has_size_def)
    have "int count * COPY_BUFFER_SIZE = int k" by (simp add: COPY_BUFFER_SIZE_def flip: at)
    then have a: "a = env (hist s) (Px (Pread src n (int k)))" using k(4) small by (simp add: victim_read_def)
    have n: "n = min 1024 (length c - k)" using k(3) by (simp add: COPY_BUFFER_SIZE_def)
    have law: "rv a = int (min n (length c - k))" "got a = take n (drop k c)"
      using assms(4) unfolding pread_file_def a by simp_all
    have "nat (rv a) = n" "0 < n" using law(1) n k(2) by simp_all
    moreover have "k + n = min (length c) (Suc count * 1024)" using n at(1) k(2) by simp
    ultimately show "0 < rv a \<and> rv a \<le> int n \<and> got a = take (nat (rv a)) (drop k c) \<and>
      k + nat (rv a) = min (length c) (Suc count * 1024)"
      using law by simp
  qed (use assms(5,6) in \<open>auto simp: victim_read_def\<close>)
  then show "\<exists>s'. copy_loop env (victim_read src) (\<lambda>n. [Px (Probe ''read'' n)]) dst fuel (int (length c)) buf 0 s = Done (None, s') \<and>
      given dst (hist s') = given dst (hist s) @ c" by simp
qed

section \<open>The client and the server\<close>

text \<open>What the set-up of a connection answers when nothing fails.\<close>

definition connects :: "sys_env \<Rightarrow> int \<Rightarrow> bool" where
  "connects env sock \<longleftrightarrow> 0 \<le> sock \<and> (\<forall>h. c_int (rv (env h (Px Socket))) = sock \<and>
     0 < rv (env h (Px (InetPton ''127.0.0.1''))) \<and> 0 \<le> rv (env h (Px (Connect sock))))"

definition serves :: "sys_env \<Rightarrow> int \<Rightarrow> int \<Rightarrow> bool" where
  "serves env lfd cfd \<longleftrightarrow> 0 \<le> lfd \<and> 0 \<le> cfd \<and> (\<forall>h. c_int (rv (env h (Px Socket))) = lfd \<and>
     0 \<le> rv (env h (Px (Bind lfd))) \<and> 0 \<le> rv (env h (Px (Listen lfd 5))) \<and> c_int (rv (env h (Px (Accept lfd)))) = cfd)"

text \<open>
  \<open>client.c\<close> sends \<open>temp.txt\<close> and stores the answer: if its descriptors deliver the content \<open>c\<close>
  of the file and the response \<open>r\<close>, in whatever portions, the program exits with 0 and has sent
  exactly \<open>c\<close> on the socket and written exactly \<open>r\<close> to \<open>recv.txt\<close>.
\<close>

theorem client_transfers:
  assumes "connects env sock" and "opens_to env ''temp.txt'' 0 0 fd" and "opens_to env ''recv.txt'' 577 420 rfd"
    and "stream env (\<lambda>n. Px (Read fd n)) fd c" and "stream env (\<lambda>n. Px (Recv sock n)) sock r" and "sink env rfd"
    and "fd \<noteq> sock" and "sock \<noteq> rfd" and "length c < fuel" and "length r < fuel"
  shows "\<exists>s. cl_main env fuel buf = Done (0, s) \<and> given sock (hist s) = c \<and> given rfd (hist s) = r"
proof -
  define s where "s = do_call env (Px (Open ''temp.txt'' 0 0)) (do_call env (Px (Print ''Connected to server''))
    (do_call env (Px (Connect sock)) (do_call env (Px (InetPton ''127.0.0.1'')) (do_call env (Px Socket)
    (do_call env (Px (Print ''start'')) fresh)))))"
  have init: "consumed f (hist s) = []" "given f (hist s) = []" for f by (simp_all add: s_def fresh_def)
  have "\<exists>buf' s'. pump env (Px (Read fd (nat SOCK_BUF_SIZE))) (\<lambda>d. Px (Send sock d)) fuel buf s = Done (buf', s') \<and>
      (\<forall>g. given g (hist s') = given g (hist s) @ (if g = sock then drop (length (consumed fd (hist s))) c else [])) \<and>
      (\<forall>f. f \<noteq> fd \<longrightarrow> consumed f (hist s') = consumed f (hist s))"
    by (rule to_socket.pump_moves [OF assms(4)]) (use assms(9) init in simp_all)
  then obtain buf1 s1 where p: "pump env (Px (Read fd (nat SOCK_BUF_SIZE))) (\<lambda>d. Px (Send sock d)) fuel buf s = Done (buf1, s1)"
    "\<And>g. given g (hist s1) = (if g = sock then c else [])" "consumed sock (hist s1) = []"
    using assms(7) by (auto simp: init)
  define s2 where "s2 = do_call env (Px (SetRecvTimeout sock 5)) (do_call env (Px (Open ''recv.txt'' 577 420))
    (do_call env (Px (Print ''Data sent'')) (do_call env (Px (Shutdown sock)) s1)))"
  have mid: "consumed sock (hist s2) = []" "\<And>g. given g (hist s2) = (if g = sock then c else [])"
    using p(2,3) by (simp_all add: s2_def)
  obtain s3 where r: "cl_recv env sock rfd fuel buf1 s2 = Done (Some 0, s3)"
    "\<And>g. given g (hist s3) = (if g = sock then c else []) @ (if g = rfd then r else [])"
    using cl_recv_moves [OF assms(5,6), of s2 fuel buf1] assms(10) by (auto simp: mid)
  have "cl_response env sock fuel buf1 s1 = Done (Inr 0, do_call env (Px (Print ''Data transfer complete''))
      (do_call env (Px (Close sock)) (do_call env (Px (Close rfd)) s3)))"
    using assms(3) r(1) unfolding cl_response_def opens_to_def
    by (simp add: call_pair s2_def [symmetric] del: hist_do_call)
  moreover have up: "(rv (env h (Px (InetPton ''127.0.0.1''))) \<le> 0) = False" "(rv (env h (Px (Connect sock))) < 0) = False"
    "c_int (rv (env h (Px Socket))) = sock" "c_int (rv (env h (Px (Open ''temp.txt'' 0 0)))) = fd" for h
    using assms(1,2) by (simp_all add: connects_def opens_to_def not_le not_less)
  ultimately have "cl_main env fuel buf = Done (0, do_call env (Px (Print ''Data transfer complete''))
      (do_call env (Px (Close sock)) (do_call env (Px (Close rfd)) s3)))"
    using assms(1,2) p(1) unfolding cl_main_def sock_main_def cl_test_def connects_def opens_to_def
    by (simp add: call_pair up s_def [symmetric] del: hist_do_call)
  then show ?thesis using r(2) assms(8) by simp
qed

text \<open>
  \<open>server.c\<close> stores the request and answers with the response file: if the client sends \<open>q\<close>
  and \<open>response.txt\<close>, opened again for reading, holds \<open>r\<close>, the program exits with 0, has written
  exactly \<open>q\<close> to the file and sent exactly \<open>r\<close> to the client.
\<close>

theorem server_answers:
  assumes "serves env lfd cfd" and "opens_to env ''response.txt'' 2 0 wfd" and "opens_to env ''response.txt'' 0 0 fd"
    and "stream env (\<lambda>n. Px (Read cfd n)) cfd q" and "stream env (\<lambda>n. Px (Read fd n)) fd r"
    and "cfd \<noteq> wfd" and "cfd \<noteq> fd" and "length q < fuel" and "length r < fuel"
  shows "\<exists>s. sv_main env fuel buf = Done (0, s) \<and> given wfd (hist s) = q \<and> given cfd (hist s) = r"
proof -
  define s0 where "s0 = do_call env (Px (Print ''Client connected'')) (do_call env (Px (Accept lfd))
    (do_call env (Px (PrintInt ''Server listening on port %d'' 8080)) (do_call env (Px (Listen lfd 5))
    (do_call env (Px (Bind lfd)) (do_call env (Px Socket) (do_call env (Px (Print ''start'')) fresh))))))"
  define s where "s = do_call env (Px (Open ''response.txt'' 2 0))
    (do_call env (Px (Print ''Waiting for response file to be created'')) s0)"
  have init: "consumed f (hist s) = []" "given f (hist s) = []" for f by (simp_all add: s_def s0_def fresh_def)
  have "\<exists>buf' s'. pump env (Px (Read cfd (nat SOCK_BUF_SIZE))) (\<lambda>d. Px (Write wfd d)) fuel buf s = Done (buf', s') \<and>
      (\<forall>g. given g (hist s') = given g (hist s) @ (if g = wfd then drop (length (consumed cfd (hist s))) q else [])) \<and>
      (\<forall>f. f \<noteq> cfd \<longrightarrow> consumed f (hist s') = consumed f (hist s))"
    by (rule to_file.pump_moves [OF assms(4)]) (use assms(8) init in simp_all)
  then obtain buf1 s1 where p: "pump env (Px (Read cfd (nat SOCK_BUF_SIZE))) (\<lambda>d. Px (Write wfd d)) fuel buf s = Done (buf1, s1)"
    "\<And>g. given g (hist s1) = (if g = wfd then q else [])" "consumed fd (hist s1) = []"
    using assms(7) by (auto simp: init)
  define s2 where "s2 = do_call env (Px (Open ''response.txt'' 0 0)) (do_call env (Px (Close wfd)) s1)"
  have mid: "consumed fd (hist s2) = []" "given g (hist s2) = (if g = wfd then q else [])" for g
    using p(2,3) by (simp_all add: s2_def)
  have "\<exists>buf' s'. pump env (Px (Read fd (nat SOCK_BUF_SIZE))) (\<lambda>d. Px (Send cfd d)) fuel buf1 s2 = Done (buf', s') \<and>
      (\<forall>g. given g (hist s') = given g (hist s2) @ (if g = cfd then drop (length (consumed fd (hist s2))) r else [])) \<and>
      (\<forall>f. f \<noteq> fd \<longrightarrow> consumed f (hist s') = consumed f (hist s2))"
    by (rule to_socket.pump_moves [OF assms(5)]) (use assms(9) mid in simp_all)
  then obtain buf2 s3 where r: "pump env (Px (Read fd (nat SOCK_BUF_SIZE))) (\<lambda>d. Px (Send cfd d)) fuel buf1 s2 = Done (buf2, s3)"
    "\<And>g. given g (hist s3) = (if g = wfd then q else []) @ (if g = cfd then r else [])"
    by (auto simp: mid)
  have up: "(rv (env h (Px (Bind lfd))) < 0) = False" "(rv (env h (Px (Listen lfd 5))) < 0) = False"
    "c_int (rv (env h (Px Socket))) = lfd" "c_int (rv (env h (Px (Accept lfd)))) = cfd"
    "c_int (rv (env h (Px (Open ''response.txt'' 2 0)))) = wfd" "c_int (rv (env h (Px (Open ''response.txt'' 0 0)))) = fd" for h
    using assms(1-3) by (simp_all add: serves_def opens_to_def not_le not_less)
  have ge: "0 \<le> lfd" "0 \<le> cfd" "0 \<le> fd" using assms(1-3) by (simp_all add: serves_def opens_to_def)
  have "sv_serve env lfd cfd fuel buf s0 = Done (Inr 0, do_call env (Px (Close lfd)) (do_call env (Px (Close fd))
      (do_call env (Px (Close cfd)) (do_call env (Px (Print ''Response sent'')) s3))))"
    using ge p(1) r(1) unfolding sv_serve_def
    by (simp add: call_pair up s_def [symmetric] s2_def [symmetric] del: hist_do_call)
  then have "sv_main env fuel buf = Done (0, do_call env (Px (Close lfd)) (do_call env (Px (Close fd))
      (do_call env (Px (Close cfd)) (do_call env (Px (Print ''Response sent'')) s3))))"
    using ge unfolding sv_main_def sock_main_def sv_test_def
    by (simp add: call_pair up s0_def [symmetric] del: hist_do_call)
  then show ?thesis using r(2) assms(6) by simp
qed

text \<open>The programs that write and flush never report success: they end with an error or not at all.\<close>

lemma fs_loop_status: "fs_loop env data fd fuel s = Done (st, s') \<Longrightarrow> st = 1"
  by (induction fuel arbitrary: s) (auto simp: call_pair split: if_splits)

text \<open>Each round that \<open>fsync_write.c\<close> counts is a complete write followed by its \<open>fsync\<close>.\<close>

definition flushed :: "int \<Rightarrow> history \<Rightarrow> nat" where
  "flushed fd h = length (filter (\<lambda>(e, a). e = Px (Fsync fd) \<and> 0 \<le> rv a) h)"

lemma flushed_simps [simp]:
  "flushed fd [] = 0"
  "flushed fd (h @ h') = flushed fd h + flushed fd h'"
  "flushed fd ((e, a) # h) = (if e = Px (Fsync fd) \<and> 0 \<le> rv a then 1 else 0) + flushed fd h"
  by (simp_all add: flushed_def)

lemma fw_loop_counts_flushes:
  "fw_loop env fd start fuel count s = Done (count', s') \<Longrightarrow>
    flushed fd (hist s') + count = flushed fd (hist s) + count'"
proof (induction fuel arbitrary: count s)
  case 0
  then show ?case by simp
next
  case (Suc fuel)
  then show ?case
    by (auto simp: call_pair not_less split: if_splits dest!: Suc.IH)
qed

section \<open>Witnesses\<close>

text \<open>An environment that serves files and sockets with the given content, \<open>p\<close> bytes at a time.\<close>

fun serve :: "(int \<Rightarrow> u8 list) \<Rightarrow> (string \<Rightarrow> int \<Rightarrow> int) \<Rightarrow> nat \<Rightarrow> sys_env" where
  "serve content fds p h (Px (Open f fl m)) = \<lparr>rv = fds f fl, errno = 0, aux = 0, dat = []\<rparr>"
| "serve content fds p h (Px (Read fd n)) =
     (let d = take (min p n) (drop (length (consumed fd h)) (content fd)) in \<lparr>rv = int (length d), errno = 0, aux = 0, dat = d\<rparr>)"
| "serve content fds p h (Px (Recv fd n)) =
     (let d = take (min p n) (drop (length (consumed fd h)) (content fd)) in \<lparr>rv = int (length d), errno = 0, aux = 0, dat = d\<rparr>)"
| "serve content fds p h (Px (Pread fd n off)) =
     (let d = take n (drop (nat off) (content fd)) in \<lparr>rv = int (length d), errno = 0, aux = 0, dat = d\<rparr>)"
| "serve content fds p h (Px (Fstat fd)) = \<lparr>rv = 0, errno = 0, aux = int (length (content fd)), dat = []\<rparr>"
| "serve content fds p h (Px (Write fd d)) = \<lparr>rv = int (length d), errno = 0, aux = 0, dat = []\<rparr>"
| "serve content fds p h (Px Socket) = \<lparr>rv = 7, errno = 0, aux = 0, dat = []\<rparr>"
| "serve content fds p h (Px (Accept fd)) = \<lparr>rv = 8, errno = 0, aux = 0, dat = []\<rparr>"
| "serve content fds p h e = \<lparr>rv = 1, errno = 0, aux = 0, dat = []\<rparr>"

lemma serve_stream:
  assumes "0 < p"
  shows "stream (serve content fds p) (\<lambda>n. Px (Read fd n)) fd (content fd)"
    and "stream (serve content fds p) (\<lambda>n. Px (Recv fd n)) fd (content fd)"
  using assms by (auto simp: stream_def got_def Let_def min_def)

lemma serve_sink: "sink (serve content fds p) fd"
  by (simp add: sink_def)

lemma got_whole: "rv a = int (length (dat a)) \<Longrightarrow> got a = dat a"
  by (simp add: got_def)

lemma serve_pread: "pread_file (serve content fds p) fd (content fd)"
  by (simp add: pread_file_def Let_def got_whole min.commute)

definition copy_files :: "string \<Rightarrow> int \<Rightarrow> int" where
  "copy_files f fl = (if fl = 0 then 3 else 4)"

definition contents :: "int \<Rightarrow> u8 list" where
  "contents fd = (if fd = 3 then [1, 2, 3] else [4, 5])"

theorem test_speed_copies_witness:
  "\<exists>s. test_speed_main (serve contents copy_files 2) 3 [] = Done (0, s) \<and> given 4 (hist s) = [1, 2, 3]"
  using test_speed_copies [of "serve contents copy_files 2" 3 4 "[1, 2, 3]" 3 "[]"]
    serve_stream [of 2 contents copy_files 3]
  by (simp add: opens_to_def has_size_def copy_files_def serve_sink contents_def)

theorem victim_copies_witness:
  "\<exists>s. victim_main (serve contents copy_files 2) 3 [] = Done (0, s) \<and> given 4 (hist s) = [1, 2, 3]"
  using victim_copies [of "serve contents copy_files 2" 3 4 "[1, 2, 3]" 3 "[]"]
    serve_pread [of contents copy_files 2 3]
  by (simp add: opens_to_def has_size_def copy_files_def serve_sink contents_def)

theorem client_transfers_witness:
  "\<exists>s. cl_main (serve contents copy_files 2) 4 [] = Done (0, s) \<and> given 7 (hist s) = [1, 2, 3] \<and> given 4 (hist s) = [4, 5]"
  using client_transfers [of "serve contents copy_files 2" 7 3 4 "[1, 2, 3]" "[4, 5]" 4 "[]"]
    serve_stream [of 2 contents copy_files 3] serve_stream [of 2 contents copy_files 7]
  by (simp add: connects_def opens_to_def copy_files_def serve_sink contents_def)

theorem server_answers_witness:
  "\<exists>s. sv_main (serve contents copy_files 2) 4 [] = Done (0, s) \<and> given 4 (hist s) = [4, 5] \<and> given 8 (hist s) = [1, 2, 3]"
  using server_answers [of "serve contents copy_files 2" 7 8 4 3 "[4, 5]" "[1, 2, 3]" 4 "[]"]
    serve_stream [of 2 contents copy_files 3] serve_stream [of 2 contents copy_files 8]
  by (simp add: serves_def opens_to_def copy_files_def contents_def)

end
