(* ===== verification/Spool.thy ===== *)
theory Spool
  imports Uring_Account
begin

text \<open>
  What a batching program promises, as a specification: a spool that holds the requests waiting
  for the next batch and the requests already submitted, both in order. A request that completes a
  batch of \<open>k\<close> submits it. The spool of a log is what the requests and submits in it amount to, so a
  program refines the specification when its log does.
\<close>

section \<open>The specification\<close>

record spool =
  waiting :: "bpf_ev list"
  submitted :: "bpf_ev list"

definition empty_spool :: spool where
  "empty_spool = \<lparr>waiting = [], submitted = []\<rparr>"

datatype spool_op = Offer bpf_ev | Flush | Idle

definition flush :: "spool \<Rightarrow> spool" where
  "flush sp = \<lparr>waiting = [], submitted = submitted sp @ waiting sp\<rparr>"

fun spool_step :: "nat \<Rightarrow> spool_op \<Rightarrow> spool \<Rightarrow> spool" where
  "spool_step k (Offer r) sp =
     (let sp = sp\<lparr>waiting := waiting sp @ [r]\<rparr> in if length (waiting sp) = k then flush sp else sp)"
| "spool_step k Flush sp = flush sp"
| "spool_step k Idle sp = sp"

fun offers :: "spool_op list \<Rightarrow> bpf_ev list" where
  "offers [] = []"
| "offers (Offer r # ops) = r # offers ops"
| "offers (_ # ops) = offers ops"

lemma flush_simps [simp]: "waiting (flush sp) = []" "submitted (flush sp) = submitted sp @ waiting sp"
  by (simp_all add: flush_def)

text \<open>Nothing is lost, duplicated or reordered, and a batch never grows beyond \<open>k\<close>.\<close>

lemma spool_keeps_order:
  "submitted (fold (spool_step k) ops sp) @ waiting (fold (spool_step k) ops sp)
     = submitted sp @ waiting sp @ offers ops"
proof (induction ops arbitrary: sp)
  case (Cons op ops)
  then show ?case by (cases op) (simp_all add: Let_def)
qed simp

lemma spool_bounded:
  "0 < k \<Longrightarrow> length (waiting sp) < k \<Longrightarrow> length (waiting (fold (spool_step k) ops sp)) < k"
proof (induction ops arbitrary: sp)
  case (Cons op ops)
  then have "length (waiting (spool_step k op sp)) < k" by (cases op) (auto simp: Let_def)
  with Cons show ?case by simp
qed simp

text \<open>Without a flush only whole batches are submitted.\<close>

lemma spool_whole_batches:
  "0 < k \<Longrightarrow> length (waiting sp) < k \<Longrightarrow> Flush \<notin> set ops \<Longrightarrow> k dvd length (submitted sp) \<Longrightarrow>
     k dvd length (submitted (fold (spool_step k) ops sp))"
proof (induction ops arbitrary: sp)
  case (Cons op ops)
  have "length (waiting (spool_step k op sp)) < k \<and> k dvd length (submitted (spool_step k op sp))"
    using Cons.prems by (cases op) (auto simp: Let_def)
  with Cons show ?case by simp
qed simp

section \<open>The spool of a log\<close>

definition spool_ev :: "bool \<Rightarrow> bpf_ev \<Rightarrow> spool \<Rightarrow> spool" where
  "spool_ev ok e sp =
     (if is_request e then (if ok then sp\<lparr>waiting := waiting sp @ [e]\<rparr> else sp)
      else if e = USubmit then flush sp else sp)"

fun spool_from :: "bpf_env \<Rightarrow> bpf_ev list \<Rightarrow> bpf_ev list \<Rightarrow> spool \<Rightarrow> spool" where
  "spool_from env h [] sp = sp"
| "spool_from env h (e # es) sp = spool_from env (h @ [e]) es (spool_ev (accepted (env h e)) e sp)"

definition spool_of :: "bpf_env \<Rightarrow> bpf_ev list \<Rightarrow> spool" where
  "spool_of env lg = spool_from env [] lg empty_spool"

lemma spool_from_append:
  "spool_from env h (xs @ ys) sp = spool_from env (h @ xs) ys (spool_from env h xs sp)"
  by (induction xs arbitrary: h sp) simp_all

lemma spool_snoc: "spool_of env (lg @ [e]) = spool_ev (accepted (env lg e)) e (spool_of env lg)"
  by (simp add: spool_of_def spool_from_append)

lemma spool_Nil [simp]: "spool_of env [] = empty_spool"
  by (simp add: spool_of_def)

lemma spool_neutral: "neutral e \<Longrightarrow> spool_of env (lg @ [e]) = spool_of env lg"
  by (simp add: spool_snoc spool_ev_def neutral_def)

lemma spool_refused:
  "is_request e \<Longrightarrow> \<not> accepted (env lg e) \<Longrightarrow> spool_of env (lg @ [e]) = spool_of env lg"
  by (simp add: spool_snoc spool_ev_def)

lemma spool_accepted:
  "is_request e \<Longrightarrow> accepted (env lg e) \<Longrightarrow>
     spool_of env (lg @ [e]) = (spool_of env lg)\<lparr>waiting := waiting (spool_of env lg) @ [e]\<rparr>"
  by (simp add: spool_snoc spool_ev_def)

lemma spool_waits: "spool_of env (lg @ replicate n WaitAndSeen) = spool_of env lg"
proof (induction n)
  case (Suc n)
  have "lg @ replicate (Suc n) WaitAndSeen = (lg @ replicate n WaitAndSeen) @ [WaitAndSeen]"
    by (simp add: replicate_append_same)
  then show ?case using Suc spool_snoc [of env "lg @ replicate n WaitAndSeen" WaitAndSeen]
    by (simp add: spool_ev_def)
qed simp

lemma spool_flushed: "spool_of env (lg @ USubmit # replicate n WaitAndSeen) = flush (spool_of env lg)"
  using spool_waits [of env "lg @ [USubmit]" n] by (simp add: spool_snoc spool_ev_def)

text \<open>The account counts what the spool lists.\<close>

lemma acct_spool_from:
  "acct_from env h es (q, f) = Some (q', f') \<Longrightarrow> length (waiting sp) = q \<Longrightarrow>
     length (waiting (spool_from env h es sp)) = q' \<and>
     length (submitted (spool_from env h es sp)) + f = length (submitted sp) + f' + waits es"
proof (induction es arbitrary: h q f sp)
  case (Cons e es)
  obtain q1 f1 where st: "acct_step (accepted (env h e)) e (q, f) = Some (q1, f1)"
      "acct_from env (h @ [e]) es (q1, f1) = Some (q', f')"
    using Cons.prems(1) by (auto simp: bind_eq_Some_conv)
  have one: "length (waiting (spool_ev (accepted (env h e)) e sp)) = q1"
      "length (submitted (spool_ev (accepted (env h e)) e sp)) + f = length (submitted sp) + f1 + waits [e]"
    using st(1) Cons.prems(2) by (auto simp: waits_def spool_ev_def split: if_splits)
  from Cons.IH [OF st(2) one(1)] one(2) show ?case by (simp add: waits_def)
qed (simp add: waits_def)

lemma acct_spool:
  "acct env lg = Some (q, f) \<Longrightarrow>
     length (waiting (spool_of env lg)) = q \<and> length (submitted (spool_of env lg)) = f + waits lg"
  using acct_spool_from [of env "[]" lg 0 0 q f empty_spool]
  by (simp add: acct_def spool_of_def empty_spool_def)

section \<open>Refinement\<close>

text \<open>
  The contract of a program that refines the spool: each event acts on the spool of its log as the
  operation the specification observes for it.
\<close>

fun observations :: "('e \<Rightarrow> 's \<Rightarrow> 's option) \<Rightarrow> ('e \<Rightarrow> 's \<Rightarrow> spool_op) \<Rightarrow> 'e list \<Rightarrow> 's \<Rightarrow> spool_op list" where
  "observations step obs [] s = []"
| "observations step obs (e # es) s =
     obs e s # (case step e s of None \<Rightarrow> [] | Some s' \<Rightarrow> observations step obs es s')"

locale spooling = batching +
  fixes observe :: "'a \<Rightarrow> 'b \<Rightarrow> spool_op" and batch :: nat
  assumes observed: "wf s \<Longrightarrow> step e s = Some s' \<Longrightarrow>
      spool_of env (lg s') = spool_step batch (observe e s) (spool_of env (lg s))"
begin

lemma run_refines:
  "wf s \<Longrightarrow> \<exists>s'. run_events step es s = Some s' \<and> wf s' \<and>
     spool_of env (lg s') = fold (spool_step batch) (observations step observe es s) (spool_of env (lg s))"
proof (induction es arbitrary: s)
  case (Cons e es)
  from step_wf [OF Cons.prems, of e] obtain s1 where s1: "step e s = Some s1" "wf s1" by blast
  from Cons.IH [OF s1(2)] show ?case using s1(1) observed [OF Cons.prems s1(1)] by auto
qed simp

lemma run_in_order:
  assumes "wf s" and "spool_of env (lg s) = empty_spool"
  shows "\<exists>s'. run_events step es s = Some s' \<and>
     submitted (spool_of env (lg s')) @ waiting (spool_of env (lg s')) = offers (observations step observe es s)"
  using run_refines [OF assms(1), of es] spool_keeps_order [of batch "observations step observe es s" empty_spool] assms(2)
  by (fastforce simp: empty_spool_def)

end

end
