(* ===== verification/Spool_Refinement.thy ===== *)
theory Spool_Refinement
  imports Spool Backup_Bpf Hotpatch_Bpf
begin

text \<open>
  The handlers of \<open>backup.bpf.c\<close> refine a spool of 1024 requests, the ClickHouse probes one of 49:
  what they put on the ring, and when, is what the specification says for the calls they see.
\<close>

section \<open>backup.bpf.c\<close>

text \<open>A call is offered when it is taken over and the runtime accepts its request.\<close>

definition offered :: "bpf_env \<Rightarrow> bpf_ctx \<Rightarrow> bpf_ev \<Rightarrow> pend \<Rightarrow> spool_op" where
  "offered env x e s = (if skip_patch s (fd_of x) \<or> \<not> accepted (env (blog s) e) then Idle else Offer e)"

fun patch_observes :: "bpf_env \<Rightarrow> io_ev \<Rightarrow> pend \<Rightarrow> spool_op" where
  "patch_observes env EvEnd s = Flush"
| "patch_observes env (EvWrite x) s = Idle"
| "patch_observes env (EvRead x) s = Idle"
| "patch_observes env (EvPread x) s =
     offered env x (SubmitPread (fd_of x) (parm2 x) (parm3 x) (parm4 x))
       (emit (Printk ''pread called with fd: %d, content: %s'') s)"
| "patch_observes env (EvSend x) s =
     offered env x (SubmitSend (fd_of x) (parm2 x) (parm3 x) (to_int (parm4 x))) s"
| "patch_observes env (EvRecv x) s =
     offered env x (SubmitRecv (fd_of x) (parm2 x) (parm3 x) (to_int (parm4 x))) s"

lemma spool_emit [simp]: "neutral e \<Longrightarrow> spool_of env (blog (emit e s)) = spool_of env (blog s)"
  by (simp add: spool_neutral)

lemma spool_flushed_words: "spool_of env (lg @ flushed n) = flush (spool_of env lg)"
  unfolding flushed_def by (rule spool_flushed)

lemma skip_emit [simp]: "skip_patch (emit e s) fd = skip_patch s fd"
  by (simp add: skip_patch_def)

lemma pend_wf_waiting:
  "pend_wf env s \<Longrightarrow> length (waiting (spool_of env (blog s))) = count_of s"
  using acct_spool [of env "blog s" "count_of s" 0] by (simp add: pend_wf_def)

lemma queue_call_spool:
  assumes w: "pend_wf env s" and e: "is_request e" and q: "queue_call env e link op r v s = Some (r', s')"
  shows "spool_of env (blog s') =
    spool_step 1024 (if accepted (env (blog s) e) then Offer e else Idle) (spool_of env (blog s))"
proof (cases "accepted (env (blog s) e)")
  case False
  then show ?thesis using q spool_refused [OF e, of env "blog s"]
    by (simp add: queue_call_def hcall_def accepted_def del: blog_emit)
      (metis blog_emit option.inject prod.inject)
next
  case True
  define s1 where "s1 = (if link then emit SetLinkflag (emit e s) else emit e s)"
  define n where "n = op_count s ! 0 + 1"
  have m: "maps_ok s1" "count_of s1 < 1024" "op_count s1 ! 0 + 1 = n" "count_of s < 1024"
    using w by (simp_all add: s1_def n_def pend_wf_def)
  have lg: "blog s' = blog s1 @ (if n < BATCH_SIZE then [] else flushed n) @ [OverrideReturn v]"
    using q True add_pending_op_eq [OF m(1,2), of op] m(3)
    by (auto simp: queue_call_def hcall_def accepted_def s1_def [symmetric])
  have s1: "spool_of env (blog s1) = (spool_of env (blog s))\<lparr>waiting := waiting (spool_of env (blog s)) @ [e]\<rparr>"
    using spool_accepted [of e env "blog s"] e True spool_neutral [of SetLinkflag env "blog s @ [e]"] by (simp add: s1_def)
  have n: "unat n = count_of s + 1" unfolding n_def by (rule count_suc [OF m(4)])
  have full: "n < BATCH_SIZE \<longleftrightarrow> length (waiting (spool_of env (blog s))) + 1 \<noteq> 1024"
    using m(4) n pend_wf_waiting [OF w] by (auto simp: word_less_nat_alt BATCH_SIZE_def)
  have "spool_of env (blog s') = (if n < BATCH_SIZE then spool_of env (blog s1) else flush (spool_of env (blog s1)))"
    using spool_neutral [of "OverrideReturn v" env "blog s1"]
      spool_neutral [of "OverrideReturn v" env "blog s1 @ flushed n"] spool_flushed_words [of env "blog s1" n]
    by (simp add: lg)
  then show ?thesis using True full by (simp add: s1 Let_def)
qed

lemma patch_simulates:
  assumes w: "pend_wf env s" and n: "io_next env e s = Some s'"
  shows "spool_of env (blog s') = spool_step 1024 (patch_observes env e s) (spool_of env (blog s))"
proof -
  have p: "pend_wf env (emit (Printk m) s)" for m using w by (simp add: pend_wf_emit)
  show ?thesis
  proof (cases e)
    case EvEnd
    have "maps_ok (emit (Printk ''unbatched ops submitted'') s)" using w by (simp add: pend_wf_def)
    from handle_unbatched_eq [OF this] EvEnd n
    have "blog s' = (blog s @ [Printk ''unbatched ops submitted'']) @ flushed (op_count s ! 0)"
      by (auto simp: io_next_def bpf_end_patch_def)
    then show ?thesis using EvEnd by (simp only: spool_flushed_words) (simp add: spool_neutral)
  next
    case (EvWrite x)
    then show ?thesis using n by (auto simp: io_next_def bpf_write_patch_def simp del: blog_emit)
  next
    case (EvRead x)
    then show ?thesis using n by (auto simp: io_next_def bpf_read_patch_def simp del: blog_emit)
  next
    case (EvPread x)
    then show ?thesis using n queue_call_spool [OF p, of "SubmitPread (fd_of x) (parm2 x) (parm3 x) (parm4 x)"]
      by (auto simp: io_next_def handlers_queue offered_def spool_neutral split: if_splits)
  next
    case (EvSend x)
    then show ?thesis using n queue_call_spool [OF w, of "SubmitSend (fd_of x) (parm2 x) (parm3 x) (to_int (parm4 x))"]
      by (auto simp: io_next_def handlers_queue offered_def split: if_splits)
  next
    case (EvRecv x)
    then show ?thesis using n queue_call_spool [OF w, of "SubmitRecv (fd_of x) (parm2 x) (parm3 x) (to_int (parm4 x))"]
      by (auto simp: io_next_def handlers_queue offered_def split: if_splits)
  qed
qed

interpretation patch_spool: spooling "io_next env" "pend_wf env" blog count_of 1023 env "patch_observes env" 1024
  for env
  by unfold_locales (rule patch_simulates)

text \<open>
  C6: the patched process is a spool: after the start mark, over every sequence of I/O events and
  every behaviour of the runtime, what waits on the ring and what was submitted is what a spool of
  1024 requests holds after the offered calls and end marks, request by request and in their order;
  the counter is the number of the waiting requests, and every submitted one has been collected.
\<close>

theorem patch_refines_spool:
  "\<exists>s0 s. patch_next env EvStart pend_loaded = Some s0 \<and> run_events (io_next env) es s0 = Some s
     \<and> spool_of env (blog s) =
         fold (spool_step 1024) (observations (io_next env) (patch_observes env) es s0) empty_spool
     \<and> length (waiting (spool_of env (blog s))) = count_of s
     \<and> length (submitted (spool_of env (blog s))) = waits (blog s)"
proof -
  obtain s0 where s0: "patch_next env EvStart pend_loaded = Some s0" "pend_wf env s0"
    using started_wf by blast
  have "spool_of env (blog s0) = empty_spool"
    using s0(1) spool_neutral [of UringInit env "[Printk ''start called and init io_uring'']"]
      spool_neutral [of "Printk ''start called and init io_uring''" env "[]"]
    by (auto simp: bpf_start_patch_def Let_def pend_loaded_def)
  with patch_spool.run_refines [OF s0(2), of es] obtain s where
    s: "run_events (io_next env) es s0 = Some s" "pend_wf env s"
      "spool_of env (blog s) = fold (spool_step 1024) (observations (io_next env) (patch_observes env) es s0) empty_spool"
    by auto
  have "length (submitted (spool_of env (blog s))) = waits (blog s)"
    using acct_spool [of env "blog s" "count_of s" 0] s(2) by (simp add: pend_wf_def)
  with s s0(1) pend_wf_waiting [OF s(2)] show ?thesis by blast
qed

section \<open>clickhouse-iouring\<close>

fun ci_observes :: "ci_ev \<Rightarrow> hot \<Rightarrow> spool_op" where
  "ci_observes (CiWrite fd buf n) s = (if n = 5 then Offer (SubmitWrite fd buf n) else Idle)"
| "ci_observes (CiFsync fd) s = Offer (SubmitFsync fd)"
| "ci_observes CiStart s = Idle"

lemma ci_wf_waiting:
  "ci_wf env s \<Longrightarrow> length (waiting (spool_of env (blog s))) = nat (current_count s)"
  using acct_spool [of env "blog s" "nat (current_count s)" 0] by (simp add: ci_wf_def)

lemma submit_counted_spool:
  assumes w: "ci_wf env s" and e: "is_request e"
  shows "spool_of env (blog (submit_counted e s)) = spool_step 49 (Offer e) (spool_of env (blog s))"
proof -
  have acc: "accepted (env (blog s) e)" using w e by (simp add: ci_wf_def accepts_all_def)
  have full: "current_count s < patch_size s \<longleftrightarrow> length (waiting (spool_of env (blog s))) + 1 \<noteq> 49"
    using w ci_wf_waiting [OF w] by (auto simp: ci_wf_def)
  show ?thesis
    using spool_accepted [of e env "blog s"] e acc full
      spool_flushed [of env "blog s @ [e]" "nat (current_count s + 1)"]
    by (auto simp: submit_counted_eq Let_def)
qed

lemma ci_simulates:
  assumes "ci_wf env s" and "ci_step e s = Some s'"
  shows "spool_of env (blog s') = spool_step 49 (ci_observes e s) (spool_of env (blog s))"
  using assms submit_counted_spool [OF assms(1)]
  by (cases e) (auto simp: ci_write_def ci_fsync_def ci_start_def simp del: blog_emit split: if_splits)

interpretation ci_spool: spooling ci_step "ci_wf env" blog "\<lambda>s. nat (current_count s)" 48 env ci_observes 49
  for env
  by unfold_locales (rule ci_simulates)

lemma ci_observations:
  "observations ci_step ci_observes es s = map (\<lambda>e. ci_observes e ci_loaded) es"
proof (induction es arbitrary: s)
  case (Cons e es)
  then show ?case by (cases e) simp_all
qed simp

text \<open>
  C23: with a runtime that accepts every request, the ClickHouse write and fsync probes are a spool
  of 49 requests: after any sequence of events, five-byte writes and fsyncs have been submitted in
  their order in batches of 49, and the rest, \<open>current_count\<close> of them, waits.
\<close>

theorem clickhouse_refines_spool:
  assumes "accepts_all env"
  shows "\<exists>s. run_events ci_step es ci_loaded = Some s
     \<and> spool_of env (blog s) = fold (spool_step 49) (map (\<lambda>e. ci_observes e ci_loaded) es) empty_spool
     \<and> length (waiting (spool_of env (blog s))) = nat (current_count s)
     \<and> 49 dvd length (submitted (spool_of env (blog s)))"
proof -
  obtain s where s: "run_events ci_step es ci_loaded = Some s" "ci_wf env s"
      "spool_of env (blog s) = fold (spool_step 49) (map (\<lambda>e. ci_observes e ci_loaded) es) empty_spool"
    using ci_spool.run_refines [OF ci_wf_loaded [OF assms], of es]
    by (auto simp: ci_observations ci_loaded_def)
  have "Flush \<notin> set (map (\<lambda>e. ci_observes e ci_loaded) es)"
  proof -
    have "ci_observes e ci_loaded \<noteq> Flush" for e by (cases e) simp_all
    then show ?thesis by (metis imageE set_map)
  qed
  then have "49 dvd length (submitted (spool_of env (blog s)))"
    unfolding s(3) by (intro spool_whole_batches) (simp_all add: empty_spool_def)
  with s ci_wf_waiting [OF s(2)] show ?thesis by blast
qed

theorem clickhouse_refines_spool_witness:
  "\<exists>s. run_events ci_step [CiWrite 3 4096 5, CiWrite 3 4096 6, CiFsync 3] ci_loaded = Some s
     \<and> spool_of (\<lambda>_ _. 0) (blog s) = \<lparr>waiting = [SubmitWrite 3 4096 5, SubmitFsync 3], submitted = []\<rparr>"
  using clickhouse_refines_spool [of "\<lambda>_ _. 0" "[CiWrite 3 4096 5, CiWrite 3 4096 6, CiFsync 3]"]
  by (auto simp: accepts_all_def accepted_def to_int_def empty_spool_def)

end
