(* ===== verification/Probe_Races.thy ===== *)
theory Probe_Races
  imports Backup_Bpf
begin

text \<open>
  The probes run in the threads of the patched process and share their maps, without a lock. Here the
  queueing handlers of \<open>backup.bpf.c\<close> are cut into the accesses they make to shared memory and to the
  ring; a thread runs them one by one, and a schedule says which thread moves next. The accesses
  themselves are atomic and seen in this order by all threads.
\<close>

section \<open>The steps of one thread\<close>

text \<open>
  The places between two accesses: \<open>(*seq)++\<close> and \<open>(*count)++\<close> are a load and a store, each
  \<open>bpf_map_update_elem\<close> is one access, and the loop over the completions tests \<open>*count\<close> each time.
\<close>

datatype pc =
    Ask | Link | ReadSeq | WriteSeq u32 | UpdateSeq | ReadCount | WriteCount u32 | UpdateCount
  | Insert | Check | Submitting | Reap u32 | Find bool | Reset | Answer | Finished

text \<open>What the \<open>pread\<close>, \<open>send\<close> and \<open>recv\<close> handlers differ in, and the places they share.\<close>

record queued_call =
  q_ctx :: bpf_ctx
  q_pre :: "bpf_ev list"
  q_req :: bpf_ev
  q_link :: bool
  q_answer :: u64

fun call_of :: "io_ev \<Rightarrow> queued_call option" where
  "call_of (EvPread x) = Some \<lparr>q_ctx = x, q_pre = [Printk ''pread called with fd: %d, content: %s''],
     q_req = SubmitPread (fd_of x) (parm2 x) (parm3 x) (parm4 x), q_link = True, q_answer = 22\<rparr>"
| "call_of (EvSend x) = Some \<lparr>q_ctx = x, q_pre = [],
     q_req = SubmitSend (fd_of x) (parm2 x) (parm3 x) (to_int (parm4 x)), q_link = True, q_answer = parm3 x\<rparr>"
| "call_of (EvRecv x) = Some \<lparr>q_ctx = x, q_pre = [],
     q_req = SubmitRecv (fd_of x) (parm2 x) (parm3 x) (to_int (parm4 x)), q_link = False, q_answer = parm3 x\<rparr>"
| "call_of _ = None"

text \<open>The accesses of \<open>add_pending_op\<close> and \<open>submit_if_batch_full\<close>.\<close>

fun op_step :: "pc \<times> uring_check_data \<times> pend \<Rightarrow> (pc \<times> uring_check_data \<times> pend) option" where
  "op_step (ReadSeq, op, s) = do {
     seq \<leftarrow> am_lookup (global_seq_num s) 0;
     Some (WriteSeq seq, op\<lparr>cd_seq_num := seq\<rparr>, s) }"
| "op_step (WriteSeq seq, op, s) =
     Some (UpdateSeq, op, s\<lparr>global_seq_num := am_store (global_seq_num s) 0 (seq + 1)\<rparr>)"
| "op_step (UpdateSeq, op, s) = do {
     seq \<leftarrow> am_lookup (global_seq_num s) 0;
     Some (ReadCount, op, s\<lparr>global_seq_num := snd (am_update (global_seq_num s) 0 seq)\<rparr>) }"
| "op_step (ReadCount, op, s) = do {
     count \<leftarrow> am_lookup (op_count s) 0;
     Some (WriteCount count, op, s) }"
| "op_step (WriteCount count, op, s) =
     Some (UpdateCount, op, s\<lparr>op_count := am_store (op_count s) 0 (count + 1)\<rparr>)"
| "op_step (UpdateCount, op, s) = do {
     count \<leftarrow> am_lookup (op_count s) 0;
     Some (Insert, op, s\<lparr>op_count := snd (am_update (op_count s) 0 count)\<rparr>) }"
| "op_step (Insert, op, s) = do {
     count \<leftarrow> am_lookup (op_count s) 0;
     Some (Check, op, s\<lparr>inode_map := snd (hm_update (inode_map s) count op)\<rparr>) }"
| "op_step (Check, op, s) =
     (case am_lookup (op_count s) 0 of
        None \<Rightarrow> Some (Find False, op, s)
      | Some c \<Rightarrow> Some (if c < BATCH_SIZE then Find False else Submitting, op, s))"
| "op_step (Submitting, op, s) = Some (Reap 0, op, emit USubmit s)"
| "op_step (Reap i, op, s) = do {
     c \<leftarrow> am_lookup (op_count s) 0;
     Some (if i < c then (Reap (i + 1), op, emit WaitAndSeen s) else (Find True, op, s)) }"
| "op_step (Find res, op, s) = do {
     count \<leftarrow> am_lookup (op_count s) 0;
     Some (case hm_lookup (inode_map s) count of
             None \<Rightarrow> (Answer, op, emit (Printk ''op_stale is NULL'') s)
           | Some op_stale \<Rightarrow> (if res then Reset else Answer, op, s)) }"
| "op_step (Reset, op, s) =
     Some (Answer, op, s\<lparr>op_count := snd (am_update (op_count s) 0 0)\<rparr>)"
| "op_step (pc, op, s) = Some (pc, op, s)"

fun call_step :: "bpf_env \<Rightarrow> queued_call \<Rightarrow> pc \<times> uring_check_data \<times> pend \<Rightarrow> (pc \<times> uring_check_data \<times> pend) option" where
  "call_step env q (Ask, op, s) =
     (if skip_patch s (fd_of (q_ctx q)) then Some (Finished, op, s)
      else
        let (ret, s) = hcall env (q_req q) (fold emit (q_pre q) s)
        in Some (if to_int ret \<noteq> 0 then Finished else Link, new_op (q_ctx q), s))"
| "call_step env q (Link, op, s) = Some (ReadSeq, op, if q_link q then emit SetLinkflag s else s)"
| "call_step env q (Answer, op, s) = Some (Finished, op, emit (OverrideReturn (q_answer q)) s)"
| "call_step env q (pc, op, s) = op_step (pc, op, s)"

fun call_steps :: "bpf_env \<Rightarrow> queued_call \<Rightarrow> nat \<Rightarrow> pc \<times> uring_check_data \<times> pend \<Rightarrow> (pc \<times> uring_check_data \<times> pend) option" where
  "call_steps env q 0 st = Some st"
| "call_steps env q (Suc n) st = do { st \<leftarrow> call_step env q st; call_steps env q n st }"

lemma call_steps_add:
  "call_steps env q (m + n) st = do { st \<leftarrow> call_steps env q m st; call_steps env q n st }"
proof (induction m arbitrary: st)
  case (Suc m)
  then show ?case by (cases "call_step env q st") simp_all
qed simp

lemma fold_emit: "fold emit es s = s\<lparr>blog := blog s @ es\<rparr>"
  by (induction es arbitrary: s) (simp_all add: emit_def)

text \<open>What a handler has put on the log when its request is linked.\<close>

definition asked :: "queued_call \<Rightarrow> bpf_ev list" where
  "asked q = q_pre q @ q_req q # (if q_link q then [SetLinkflag] else [])"

lemma one_element:
  "am_lookup [v] 0 = Some v" "am_store [v] 0 w = [w]" "snd (am_update [v] 0 w) = [w]"
  by simp_all

section \<open>One thread alone\<close>

lemma call_of_facts:
  assumes "call_of e = Some q"
  shows "is_request (q_req q)" and "list_all neutral (q_pre q)"
    and "\<exists>r. io_step env e s = (if skip_patch s (fd_of (q_ctx q)) then Some (0, s)
      else queue_call env (q_req q) (q_link q) (new_op (q_ctx q)) r (q_answer q) (fold emit (q_pre q) s))"
  using assms by (cases e; auto simp: handlers_queue)+

text \<open>From the answer of the ring to the test of the batch, and from there to the end.\<close>

lemma steps_to_check:
  assumes m: "maps_ok s" and on: "\<not> skip_patch s (fd_of (q_ctx q))"
    and acc: "to_int (env (blog s @ q_pre q) (q_req q)) = 0"
  defines "n \<equiv> op_count s ! 0 + 1" and "op' \<equiv> (new_op (q_ctx q))\<lparr>cd_seq_num := global_seq_num s ! 0\<rparr>"
  shows "call_steps env q 9 (Ask, op, s) = Some (Check, op', s\<lparr>
      global_seq_num := [global_seq_num s ! 0 + 1], op_count := [n],
      inode_map := snd (hm_update (inode_map s) n op'), blog := blog s @ asked q\<rparr>)"
proof -
  obtain c k where "op_count s = [c]" "global_seq_num s = [k]"
    using m by (auto simp: maps_ok_def length_Suc_conv)
  then show ?thesis
    using on acc by (simp add: eval_nat_numeral hcall_def fold_emit emit_def one_element asked_def n_def op'_def
        del: am_lookup_0 am_update_0 am_store_0)
qed

text \<open>The loop over the completions, for any step function that has it and leaves it for \<open>out\<close>.\<close>

lemma reap_iterated:
  assumes iter: "\<And>st. it 0 st = Some st" "\<And>n st. it (Suc n) st = f st \<bind> it n"
    and loop: "\<And>i s :: pend. op_count s = [c] \<Longrightarrow>
      f (Reap i, op, s) = Some (if i < c then (Reap (i + 1), op, emit WaitAndSeen s) else (out, op, s))"
  shows "i \<le> c \<Longrightarrow> op_count s = [c] \<Longrightarrow> it (Suc (unat c - unat i)) (Reap i, op, s)
    = Some (out, op, s\<lparr>blog := blog s @ replicate (unat c - unat i) WaitAndSeen\<rparr>)"
proof (induction "unat c - unat i" arbitrary: i s)
  case 0
  then have "unat i = unat c" by (simp add: word_le_nat_alt)
  then have "i = c" by (rule unsigned_word_eqI)
  then show ?case using 0 by (simp add: iter loop)
next
  case (Suc k)
  then have lt: "i < c" by (simp add: word_less_nat_alt)
  have u: "unat (i + 1) = unat i + 1" by (rule unat_suc_less [OF lt])
  have k: "k = unat c - unat (i + 1)" "i + 1 \<le> c" "unat c - unat i = Suc (unat c - unat (i + 1))"
    using Suc.hyps(2) u lt by (simp_all add: word_le_nat_alt word_less_nat_alt)
  have "it (Suc (unat c - unat (i + 1))) (Reap (i + 1), op, emit WaitAndSeen s)
      = Some (out, op, (emit WaitAndSeen s)\<lparr>blog := blog (emit WaitAndSeen s) @ replicate (unat c - unat (i + 1)) WaitAndSeen\<rparr>)"
    using Suc.hyps(1) [OF k(1,2), of "emit WaitAndSeen s"] Suc.prems(2) by simp
  then show ?case
    unfolding k(3) using iter(2) [of "Suc (unat c - unat (i + 1))" "(Reap i, op, s)"] loop [OF Suc.prems(2), of i] lt
    by (simp add: emit_def)
qed

lemma reap_steps:
  assumes "op_count s = [c]"
  shows "i \<le> c \<Longrightarrow> call_steps env q (Suc (unat c - unat i)) (Reap i, op, s)
    = Some (Find True, op, s\<lparr>blog := blog s @ replicate (unat c - unat i) WaitAndSeen\<rparr>)"
  by (rule reap_iterated [of "call_steps env q" "call_step env q"]) (use assms in \<open>simp_all add: one_element\<close>)

lemma one_entry_step:
  assumes "op_count s = [c]"
  shows "call_step env q (Check, op, s) = Some (if c < BATCH_SIZE then Find False else Submitting, op, s)"
    and "call_step env q (Submitting, op, s) = Some (Reap 0, op, emit USubmit s)"
    and "hm_lookup (inode_map s) c = Some d \<Longrightarrow>
      call_step env q (Find res, op, s) = Some (if res then Reset else Answer, op, s)"
    and "call_step env q (Reset, op, s) = Some (Answer, op, s\<lparr>op_count := [0]\<rparr>)"
  using assms by (simp_all add: one_element)

text \<open>The thread after its request was accepted, against \<open>add_pending_op\<close> in one piece.\<close>

lemma thread_records:
  assumes m: "maps_ok s" and c: "count_of s < 1024" and on: "\<not> skip_patch s (fd_of (q_ctx q))"
    and acc: "to_int (env (blog s @ q_pre q) (q_req q)) = 0"
  defines "s1 \<equiv> s\<lparr>blog := blog s @ asked q\<rparr>"
  shows "\<exists>n op' p s'. call_steps env q n (Ask, op, s) = Some (Finished, op', emit (OverrideReturn (q_answer q)) s')
    \<and> add_pending_op (new_op (q_ctx q)) s1 = Some (p, s')"
proof -
  let ?n = "op_count s ! 0 + 1"
  let ?op = "(new_op (q_ctx q))\<lparr>cd_seq_num := global_seq_num s ! 0\<rparr>"
  let ?s = "s\<lparr>global_seq_num := [global_seq_num s ! 0 + 1], op_count := [?n],
    inode_map := snd (hm_update (inode_map s) ?n ?op), blog := blog s @ asked q\<rparr>"
  let ?a = "emit (OverrideReturn (q_answer q))"
  have start: "call_steps env q 9 (Ask, op, s) = Some (Check, ?op, ?s)"
    using steps_to_check [of s q env op, OF m on acc] by simp
  have look: "hm_lookup (inode_map ?s) ?n = Some ?op"
    using hash_map.update_same [OF maps_ok_room [OF m]] by simp
  have m1: "maps_ok s1" "count_of s1 < 1024" using m c by (simp_all add: s1_def maps_ok_def count_of_def)
  note whole = add_pending_op_eq [OF m1, of "new_op (q_ctx q)"]
  show ?thesis
  proof (cases "?n < BATCH_SIZE")
    case True
    have "call_steps env q 3 (Check, ?op, ?s) = Some (Finished, ?op, ?a ?s)"
      using one_entry_step [of ?s ?n] True look by (simp add: eval_nat_numeral)
    then have "call_steps env q (9 + 3) (Ask, op, s) = Some (Finished, ?op, ?a ?s)"
      unfolding call_steps_add start by simp
    moreover have "add_pending_op (new_op (q_ctx q)) s1 = Some (Some ?op, ?s)"
      using whole True by (simp add: s1_def)
    ultimately show ?thesis by blast
  next
    case False
    let ?t = "?s\<lparr>blog := blog ?s @ flushed ?n\<rparr>"
    have a: "call_steps env q 2 (Check, ?op, ?s) = Some (Reap 0, ?op, emit USubmit ?s)"
      using one_entry_step [of ?s ?n] False by (simp add: eval_nat_numeral)
    have b: "call_steps env q (Suc (unat ?n)) (Reap 0, ?op, emit USubmit ?s) = Some (Find True, ?op, ?t)"
      using reap_steps [of "emit USubmit ?s" ?n 0 env q ?op] by (simp add: emit_def flushed_def)
    have d: "call_steps env q 3 (Find True, ?op, ?t) = Some (Finished, ?op, ?a (?t\<lparr>op_count := [0]\<rparr>))"
      using one_entry_step [of ?t ?n] look by (simp add: eval_nat_numeral)
    have "call_steps env q (9 + (2 + (Suc (unat ?n) + 3))) (Ask, op, s) = Some (Finished, ?op, ?a (?t\<lparr>op_count := [0]\<rparr>))"
      by (simp only: call_steps_add start a b d bind.bind_lunit)
    moreover have "add_pending_op (new_op (q_ctx q)) s1 = Some (Some ?op, ?t\<lparr>op_count := [0]\<rparr>)"
      using whole False by (simp add: s1_def)
    ultimately show ?thesis by blast
  qed
qed

text \<open>
  The handlers cut into their shared accesses are the handlers: from every state with well-formed maps
  and fewer than 1024 counted operations, and for every answer of the runtime, a thread that is not
  interrupted reaches its end, in the state that the handler as one piece computes.
\<close>

lemma uninterrupted_call:
  assumes m: "maps_ok s" and c: "count_of s < 1024" and q: "call_of e = Some q"
  shows "\<exists>n op' r s'. io_step env e s = Some (r, s') \<and> call_steps env q n (Ask, op, s) = Some (Finished, op', s')"
proof -
  let ?s = "fold emit (q_pre q) s"
  obtain r where r: "io_step env e s = (if skip_patch s (fd_of (q_ctx q)) then Some (0, s)
      else queue_call env (q_req q) (q_link q) (new_op (q_ctx q)) r (q_answer q) ?s)"
    using call_of_facts(3) [OF q] by blast
  consider (skip) "skip_patch s (fd_of (q_ctx q))"
    | (refused) "\<not> skip_patch s (fd_of (q_ctx q))" "to_int (env (blog s @ q_pre q) (q_req q)) \<noteq> 0"
    | (queued) "\<not> skip_patch s (fd_of (q_ctx q))" "to_int (env (blog s @ q_pre q) (q_req q)) = 0" by blast
  then show ?thesis
  proof cases
    case skip
    then have "call_steps env q 1 (Ask, op, s) = Some (Finished, op, s)" "io_step env e s = Some (0, s)"
      using r by simp_all
    then show ?thesis by blast
  next
    case refused
    then have "call_steps env q 1 (Ask, op, s) = Some (Finished, new_op (q_ctx q), emit (q_req q) ?s)"
        "io_step env e s = Some (0, emit (q_req q) ?s)"
      using r by (simp_all add: hcall_def fold_emit queue_call_def)
    then show ?thesis by blast
  next
    case queued
    obtain n op' p s' where t: "call_steps env q n (Ask, op, s) = Some (Finished, op', emit (OverrideReturn (q_answer q)) s')"
        "add_pending_op (new_op (q_ctx q)) (s\<lparr>blog := blog s @ asked q\<rparr>) = Some (p, s')"
      using thread_records [where env = env, OF m c queued(1) queued(2), of op] by blast
    then have "io_step env e s = Some (r, emit (OverrideReturn (q_answer q)) s')"
      using r queued by (cases "q_link q") (simp_all add: queue_call_def hcall_def fold_emit emit_def asked_def)
    with t(1) show ?thesis by blast
  qed
qed

section \<open>Several threads\<close>

text \<open>The accesses of the end mark: its announcement, then those of \<open>handle_unbatched_ops\<close>.\<close>

fun end_step :: "pc \<times> uring_check_data \<times> pend \<Rightarrow> (pc \<times> uring_check_data \<times> pend) option" where
  "end_step (Ask, op, s) = Some (Submitting, op, emit (Printk ''unbatched ops submitted'') s)"
| "end_step (Submitting, op, s) = Some (Reap 0, op, emit USubmit s)"
| "end_step (Reap i, op, s) = do {
     c \<leftarrow> am_lookup (op_count s) 0;
     Some (if i < c then (Reap (i + 1), op, emit WaitAndSeen s) else (Reset, op, s)) }"
| "end_step (Reset, op, s) =
     Some (Finished, op, s\<lparr>op_count := snd (am_update (op_count s) 0 0)\<rparr>)"
| "end_step (pc, op, s) = Some (pc, op, s)"

datatype task = Call queued_call | EndMark

fun task_of :: "io_ev \<Rightarrow> task option" where
  "task_of EvEnd = Some EndMark"
| "task_of e = map_option Call (call_of e)"

fun task_step :: "bpf_env \<Rightarrow> task \<Rightarrow> pc \<times> uring_check_data \<times> pend \<Rightarrow> (pc \<times> uring_check_data \<times> pend) option" where
  "task_step env (Call q) st = call_step env q st"
| "task_step env EndMark st = end_step st"

fun task_steps :: "bpf_env \<Rightarrow> task \<Rightarrow> nat \<Rightarrow> pc \<times> uring_check_data \<times> pend \<Rightarrow> (pc \<times> uring_check_data \<times> pend) option" where
  "task_steps env t 0 st = Some st"
| "task_steps env t (Suc n) st = do { st \<leftarrow> task_step env t st; task_steps env t n st }"

lemma task_steps_call: "task_steps env (Call q) n st = call_steps env q n st"
proof (induction n arbitrary: st)
  case (Suc n)
  then show ?case by (cases "call_step env q st") simp_all
qed simp

text \<open>
  The threads in a handler, each with its task, its place in the handler and its local description,
  over one set of maps and one ring. A schedule is the list of the threads that move.
\<close>

type_synonym thread = "task \<times> pc \<times> uring_check_data"

fun sched_step :: "bpf_env \<Rightarrow> nat \<Rightarrow> thread list \<times> pend \<Rightarrow> (thread list \<times> pend) option" where
  "sched_step env i (ts, s) =
     (if i < length ts then
        let (t, pc, op) = ts ! i
        in do { (pc, op, s) \<leftarrow> task_step env t (pc, op, s); Some (ts[i := (t, pc, op)], s) }
      else Some (ts, s))"

fun run_sched :: "bpf_env \<Rightarrow> nat list \<Rightarrow> thread list \<times> pend \<Rightarrow> (thread list \<times> pend) option" where
  "run_sched env [] st = Some st"
| "run_sched env (i # is) st = do { st \<leftarrow> sched_step env i st; run_sched env is st }"

lemma run_sched_append:
  "run_sched env (is @ js) st = do { st \<leftarrow> run_sched env is st; run_sched env js st }"
proof (induction "is" arbitrary: st)
  case (Cons i "is")
  then show ?case by (cases "sched_step env i st") simp_all
qed simp

lemma run_task:
  assumes "task_steps env t n (pc, op, s) = Some (pc', op', s')" and "i < length ts" and "ts ! i = (t, pc, op)"
  shows "run_sched env (replicate n i) (ts, s) = Some (ts[i := (t, pc', op')], s')"
  using assms
proof (induction n arbitrary: ts pc op s)
  case 0
  then show ?case using list_update_id [of ts i] by simp
next
  case (Suc n)
  then obtain pc1 op1 s1 where m: "task_step env t (pc, op, s) = Some (pc1, op1, s1)"
      "task_steps env t n (pc1, op1, s1) = Some (pc', op', s')"
    by (auto split: bind_splits)
  then show ?case using Suc.IH [OF m(2), of "ts[i := (t, pc1, op1)]"] Suc.prems by simp
qed

lemmas run_one = run_task [of _ "Call _", unfolded task_steps_call]

definition cells_ok :: "pend \<Rightarrow> bool" where
  "cells_ok s \<longleftrightarrow> length (op_count s) = 1 \<and> length (global_seq_num s) = 1"

lemma call_step_cells:
  assumes "cells_ok s"
  shows "\<exists>pc' op' s'. call_step env q (pc, op, s) = Some (pc', op', s') \<and> cells_ok s'"
  using assms by (cases pc) (auto simp: cells_ok_def hcall_def fold_emit split: option.splits)

lemma task_step_cells:
  assumes "cells_ok s"
  shows "\<exists>pc' op' s'. task_step env t (pc, op, s) = Some (pc', op', s') \<and> cells_ok s'"
proof (cases t)
  case (Call q)
  then show ?thesis using call_step_cells [OF assms] by simp
next
  case EndMark
  then show ?thesis using assms by (cases pc) (auto simp: cells_ok_def)
qed

text \<open>
  C19: for any number of threads, each anywhere in a \<open>pread\<close>, \<open>send\<close> or \<open>recv\<close> handler or in
  an end mark, and every schedule of their accesses, no access goes through a NULL pointer: the array maps keep their
  element, so every schedule runs to its end.
\<close>

theorem interleaved_calls_never_crash:
  assumes "cells_ok s"
  shows "\<exists>ts' s'. run_sched env is (ts, s) = Some (ts', s') \<and> cells_ok s' \<and> length ts' = length ts"
  using assms
proof (induction "is" arbitrary: ts s)
  case (Cons i "is")
  obtain ts1 s1 where m: "sched_step env i (ts, s) = Some (ts1, s1)" "cells_ok s1" "length ts1 = length ts"
  proof (cases "i < length ts")
    case True
    obtain t pc op where t: "ts ! i = (t, pc, op)" using prod_cases3 by blast
    then show ?thesis using True task_step_cells [OF Cons.prems, of env t pc op] that by auto
  qed (use Cons.prems that in auto)
  then show ?case using Cons.IH [OF m(2), of ts1] by simp
qed simp

text \<open>Calls and states for the examples: \<open>n\<close> sends in the ring.\<close>

definition sample_call_of :: "io_ev \<Rightarrow> queued_call" where
  "sample_call_of e = the (call_of e)"

definition sent_state :: "nat \<Rightarrow> pend" where
  "sent_state n = (sample_state (of_nat n))\<lparr>blog := replicate n (SubmitSend 5 4096 10 0)\<rparr>"

theorem interleaved_calls_never_crash_witness:
  "\<exists>ts s. run_sched (\<lambda>_ _. 0) [1, 0, 1, 1, 0] ([(Call (sample_call_of (EvSend sample_send)), Ask, new_op sample_send),
    (Call (sample_call_of (EvRecv sample_send)), Find True, new_op sample_send)], sample_state 1) = Some (ts, s) \<and> cells_ok s"
proof -
  have "cells_ok (sample_state 1)" by (simp add: cells_ok_def sample_state_def pend_loaded_def)
  from interleaved_calls_never_crash [OF this, of "\<lambda>_ _. 0" "[1, 0, 1, 1, 0]"
    "[(Call (sample_call_of (EvSend sample_send)), Ask, new_op sample_send),
      (Call (sample_call_of (EvRecv sample_send)), Find True, new_op sample_send)]"]
  show ?thesis by blast
qed

lemma acct_replicate:
  "accepts_all env \<Longrightarrow> is_request e \<Longrightarrow> acct env (replicate n e) = Some (n, 0)"
proof (induction n)
  case (Suc n)
  have "replicate (Suc n) e = replicate n e @ [e]" by (simp add: replicate_append_same)
  then show ?case using Suc acct_taken [of env e "replicate n e" n 0] by simp
qed simp

lemma accepts_zero: "accepts_all (\<lambda>_ _. 0)"
  by (simp add: accepts_all_def accepted_def to_int_def)

lemma sent_state_wf: "n < 1024 \<Longrightarrow> pend_wf (\<lambda>_ _. 0) (sent_state n)" "n < 1024 \<Longrightarrow> count_of (sent_state n) = n"
  using acct_replicate [OF accepts_zero, of "SubmitSend 5 4096 10 0" n]
  by (auto simp: sent_state_def pend_wf_def sample_state_def pend_loaded_def maps_ok_def count_of_def hm_wf_def
      hm_empty_def hm_keys_def unat_of_nat)

lemma sent_state_on: "\<not> skip_patch (sent_state n) (fd_of sample_send)"
  by (simp add: sent_state_def sample_state_def sample_send_def skip_patch_def fd_of_def to_int_def word_sless_alt)

section \<open>Two threads\<close>

text \<open>A call the runtime takes over: what the two races need of it.\<close>

definition taken_over :: "bpf_env \<Rightarrow> queued_call \<Rightarrow> pend \<Rightarrow> bool" where
  "taken_over env q s \<longleftrightarrow> accepts_all env \<and> (\<exists>e. call_of e = Some q) \<and> \<not> skip_patch s (fd_of (q_ctx q))"

lemma acct_neutrals: "list_all neutral es \<Longrightarrow> acct env (lg @ es) = acct env lg"
proof (induction es arbitrary: lg)
  case (Cons e es)
  then show ?case using acct_neutral [of e env lg] Cons.IH [of "lg @ [e]"] by simp
qed simp

lemma taken_over_asks:
  assumes "taken_over env q s" and a: "acct env lg = Some (k, f)"
  shows "acct env (lg @ asked q) = Some (k + 1, f)" and "to_int (env (lg @ q_pre q) (q_req q)) = 0"
proof -
  have q: "is_request (q_req q)" "list_all neutral (q_pre q)" and env: "accepts_all env"
    using assms(1) call_of_facts(1,2) by (auto simp: taken_over_def)
  have "acct env ((lg @ q_pre q) @ [q_req q]) = Some (k + 1, f)"
    using acct_taken [OF env q(1)] acct_neutrals [OF q(2), of env lg] a by (simp del: append_assoc)
  then show "acct env (lg @ asked q) = Some (k + 1, f)"
    using acct_neutrals [of "if q_link q then [SetLinkflag] else []" env "(lg @ q_pre q) @ [q_req q]"]
    by (simp add: asked_def)
  show "to_int (env (lg @ q_pre q) (q_req q)) = 0"
    using env q(1) by (simp add: accepts_all_def accepted_def)
qed

lemma taken_over_same: "taken_over env q s \<Longrightarrow> global_on s' = global_on s \<Longrightarrow> taken_over env q s'"
  by (simp add: taken_over_def skip_patch_def)

text \<open>A thread up to the load of the counter, and from its store to the end.\<close>

lemma steps_to_count:
  assumes m: "maps_ok s" and q: "taken_over env q s" and a: "acct env (blog s) = Some (k, f)"
  shows "\<exists>op' s'. call_steps env q 6 (Ask, op, s) = Some (WriteCount (op_count s ! 0), op', s') \<and> maps_ok s'
    \<and> op_count s' = op_count s \<and> global_on s' = global_on s \<and> acct env (blog s') = Some (k + 1, f)"
proof -
  obtain c n where c: "op_count s = [c]" "global_seq_num s = [n]"
    using m by (auto simp: maps_ok_def length_Suc_conv)
  let ?s = "s\<lparr>global_seq_num := [n + 1], blog := blog s @ asked q\<rparr>"
  have "call_steps env q 6 (Ask, op, s) = Some (WriteCount c, (new_op (q_ctx q))\<lparr>cd_seq_num := n\<rparr>, ?s)"
    using c q taken_over_asks(2) [OF q a]
    by (simp add: taken_over_def eval_nat_numeral hcall_def fold_emit emit_def asked_def one_element
        del: am_lookup_0 am_update_0 am_store_0)
  then show ?thesis using c m taken_over_asks(1) [OF q a] by (auto simp: maps_ok_def)
qed

lemma steps_from_count:
  assumes m: "maps_ok s" and a: "acct env (blog s) = Some (k, f)" and lt: "unat c + 1 < 1024"
  shows "\<exists>s'. call_steps env q 6 (WriteCount c, op, s) = Some (Finished, op, s') \<and> maps_ok s'
    \<and> op_count s' = [c + 1] \<and> acct env (blog s') = Some (k, f)"
proof -
  let ?m = "snd (hm_update (inode_map s) (c + 1) op)"
  let ?s = "s\<lparr>op_count := [c + 1], inode_map := ?m\<rparr>"
  have u: "unat (c + 1) = unat c + 1" using lt by (intro unat_plus_one) simp
  then have n: "c + 1 \<in> {1..BATCH_SIZE}" "c + 1 < BATCH_SIZE"
    using lt by (auto simp: BATCH_SIZE_def word_le_nat_alt word_less_nat_alt)
  have ok: "maps_ok ?s"
    using m n hm_update_keys [OF maps_ok_room [OF m], of "c + 1" op]
    by (auto simp: maps_ok_def hm_update_wf)
  have look: "hm_lookup ?m (c + 1) = Some op" using hash_map.update_same [OF maps_ok_room [OF m]] .
  obtain v where v: "op_count s = [v]" using m by (auto simp: maps_ok_def length_Suc_conv)
  have "call_steps env q 6 (WriteCount c, op, s) = Some (Finished, op, emit (OverrideReturn (q_answer q)) ?s)"
    using v n(2) look by (simp add: eval_nat_numeral one_element del: am_lookup_0 am_update_0 am_store_0)
  moreover have "acct env (blog (emit (OverrideReturn (q_answer q)) ?s)) = Some (k, f)"
    using a by (simp add: acct_neutral)
  ultimately show ?thesis using ok by (auto simp del: blog_emit)
qed

definition lost_update :: "nat list" where
  "lost_update = replicate 6 0 @ replicate 6 1 @ replicate 6 0 @ replicate 6 1"

text \<open>
  C14: the counter can lose an update: from every well-formed state with room in the batch, any two
  calls the runtime accepts have a schedule in which both threads load the same counter. The ring
  then holds two more requests, the counter is one higher, and the end mark submits both but
  leaves one completion uncollected.
\<close>

theorem racing_calls_lose_a_request:
  assumes wf: "pend_wf env s" and q: "taken_over env q s" and r: "taken_over env r s" and room: "count_of s + 1 < 1024"
  shows "\<exists>a b s' s''. run_sched env lost_update ([(Call q, Ask, op), (Call r, Ask, op)], s)
        = Some ([(Call q, Finished, a), (Call r, Finished, b)], s')
    \<and> acct env (blog s') = Some (count_of s + 2, 0) \<and> count_of s' = count_of s + 1
    \<and> bpf_end_patch s' = Some (0, s'') \<and> count_of s'' = 0 \<and> acct env (blog s'') = Some (0, 1)"
proof -
  let ?c = "op_count s ! 0"
  have h: "maps_ok s" "acct env (blog s) = Some (count_of s, 0)" using wf by (auto simp: pend_wf_def)
  have lt: "unat ?c + 1 < 1024" using room by (simp add: count_of_def)
  obtain a s1 where 1: "call_steps env q 6 (Ask, op, s) = Some (WriteCount ?c, a, s1)" "maps_ok s1"
      "op_count s1 = op_count s" "global_on s1 = global_on s" "acct env (blog s1) = Some (count_of s + 1, 0)"
    using steps_to_count [OF h(1) q h(2)] by blast
  from steps_to_count [OF 1(2) taken_over_same [OF r 1(4)] 1(5), of op] 1(3)
  obtain b s2 where 2: "call_steps env r 6 (Ask, op, s1) = Some (WriteCount ?c, b, s2)" "maps_ok s2"
      "acct env (blog s2) = Some (count_of s + 2, 0)" by auto
  obtain s3 where 3: "call_steps env q 6 (WriteCount ?c, a, s2) = Some (Finished, a, s3)" "maps_ok s3"
      "acct env (blog s3) = Some (count_of s + 2, 0)"
    using steps_from_count [OF 2(2,3) lt] by blast
  obtain s4 where 4: "call_steps env r 6 (WriteCount ?c, b, s3) = Some (Finished, b, s4)" "maps_ok s4"
      "op_count s4 = [?c + 1]" "acct env (blog s4) = Some (count_of s + 2, 0)"
    using steps_from_count [OF 3(2,3) lt] by blast
  have "run_sched env lost_update ([(Call q, Ask, op), (Call r, Ask, op)], s) = Some ([(Call q, Finished, a), (Call r, Finished, b)], s4)"
    using run_one [OF 1(1), of 0 "[(Call q, Ask, op), (Call r, Ask, op)]"]
      run_one [OF 2(1), of 1 "[(Call q, WriteCount ?c, a), (Call r, Ask, op)]"]
      run_one [OF 3(1), of 0 "[(Call q, WriteCount ?c, a), (Call r, WriteCount ?c, b)]"]
      run_one [OF 4(1), of 1 "[(Call q, Finished, a), (Call r, WriteCount ?c, b)]"]
    by (simp add: lost_update_def run_sched_append)
  moreover have c: "count_of s4 = count_of s + 1"
    using 4(3) count_suc [of s] room by (simp add: count_of_def)
  moreover obtain s'' where "bpf_end_patch s4 = Some (0, s'')" "count_of s'' = 0" "acct env (blog s'') = Some (0, 1)"
    using handle_unbatched_acct [of "emit (Printk ''unbatched ops submitted'') s4" env "count_of s + 2" 0] 4(2,4) c
    by (auto simp: bpf_end_patch_def simp del: blog_emit)
  ultimately show ?thesis using 4(4) by blast
qed

lemma sample_taken_over:
  "taken_over (\<lambda>_ _. 0) (sample_call_of (EvSend sample_send)) (sent_state n)"
  "taken_over (\<lambda>_ _. 0) (sample_call_of (EvRecv sample_send)) (sent_state n)"
  using sent_state_on [of n] accepts_zero
  by (auto simp: taken_over_def sample_call_of_def intro: exI [of _ "EvSend sample_send"] exI [of _ "EvRecv sample_send"])

theorem racing_calls_lose_a_request_witness:
  "\<exists>a b s' s''. run_sched (\<lambda>_ _. 0) lost_update ([(Call (sample_call_of (EvSend sample_send)), Ask, new_op sample_send),
      (Call (sample_call_of (EvRecv sample_send)), Ask, new_op sample_send)], sent_state 5)
      = Some ([(Call (sample_call_of (EvSend sample_send)), Finished, a), (Call (sample_call_of (EvRecv sample_send)), Finished, b)], s')
    \<and> count_of s' = 6 \<and> bpf_end_patch s' = Some (0, s'') \<and> acct (\<lambda>_ _. 0) (blog s'') = Some (0, 1)"
  using racing_calls_lose_a_request [OF sent_state_wf(1) sample_taken_over, of 5] sent_state_wf(2) [of 5] by fastforce

definition double_flush :: "nat list" where
  "double_flush = replicate 10 0 @ replicate 10 1 @ replicate 1027 0 @ replicate 2 1"

lemma steps_to_full:
  assumes m: "maps_ok s" and q: "taken_over env q s" and a: "acct env (blog s) = Some (k, f)"
    and full: "\<not> op_count s ! 0 + 1 < BATCH_SIZE"
  shows "\<exists>op' s'. call_steps env q 10 (Ask, op, s) = Some (Submitting, op', s')
    \<and> op_count s' = [op_count s ! 0 + 1] \<and> global_on s' = global_on s
    \<and> (op_count s ! 0 + 1 = BATCH_SIZE \<longrightarrow> maps_ok s') \<and> acct env (blog s') = Some (k + 1, f)"
proof -
  let ?n = "op_count s ! 0 + 1"
  let ?op = "(new_op (q_ctx q))\<lparr>cd_seq_num := global_seq_num s ! 0\<rparr>"
  let ?s = "s\<lparr>global_seq_num := [global_seq_num s ! 0 + 1], op_count := [?n],
    inode_map := snd (hm_update (inode_map s) ?n ?op), blog := blog s @ asked q\<rparr>"
  have start: "call_steps env q 9 (Ask, op, s) = Some (Check, ?op, ?s)"
    using steps_to_check [of s q env op, OF m _ taken_over_asks(2) [OF q a]] q by (simp add: taken_over_def)
  have "call_steps env q 1 (Check, ?op, ?s) = Some (Submitting, ?op, ?s)"
    using one_entry_step(1) [of ?s ?n] full by simp
  then have "call_steps env q (9 + 1) (Ask, op, s) = Some (Submitting, ?op, ?s)"
    by (simp only: call_steps_add start bind.bind_lunit)
  moreover have "acct env (blog ?s) = Some (k + 1, f)" using taken_over_asks(1) [OF q a] by simp
  moreover have "maps_ok ?s" if "?n = BATCH_SIZE"
    using m that hm_update_keys [OF maps_ok_room [OF m], of ?n ?op]
    by (auto simp: maps_ok_def hm_update_wf BATCH_SIZE_def)
  ultimately show ?thesis by auto
qed

text \<open>
  C15: the flush of a full batch is not exclusive: from every well-formed state with 1023 operations
  pending, any two calls the runtime accepts have a schedule in which the second thread finds the
  batch full while the first one submits it; the first thread's loop takes every completion, and
  the second thread's first wait has nothing in flight, so it blocks for ever.
\<close>

theorem racing_full_batches_block:
  assumes wf: "pend_wf env s" and q: "taken_over env q s" and r: "taken_over env r s" and full: "count_of s = 1023"
  shows "\<exists>ts s'. run_sched env double_flush ([(Call q, Ask, op), (Call r, Ask, op)], s) = Some (ts, s')
    \<and> acct env (blog s') = None"
proof -
  let ?c = "op_count s ! 0"
  have h: "maps_ok s" "acct env (blog s) = Some (1023, 0)" using wf full by (auto simp: pend_wf_def)
  have c: "?c = 1023" using full by (intro unsigned_word_eqI) (simp add: count_of_def)
  obtain a s1 where 1: "call_steps env q 10 (Ask, op, s) = Some (Submitting, a, s1)" "maps_ok s1"
      "op_count s1 = [1024]" "global_on s1 = global_on s" "acct env (blog s1) = Some (1024, 0)"
    using steps_to_full [OF h(1) q h(2), of op] by (auto simp: c BATCH_SIZE_def)
  from steps_to_full [OF 1(2) taken_over_same [OF r 1(4)] 1(5), of op]
  obtain b s2 where 2: "call_steps env r 10 (Ask, op, s1) = Some (Submitting, b, s2)"
      "op_count s2 = [1025]" "acct env (blog s2) = Some (1025, 0)"
    by (auto simp: 1(3) BATCH_SIZE_def)
  let ?s3 = "s2\<lparr>blog := blog s2 @ USubmit # replicate 1025 WaitAndSeen\<rparr>"
  have "call_steps env q (Suc 1025) (Reap 0, a, emit USubmit s2) = Some (Find True, a, ?s3)"
    using reap_steps [of "emit USubmit s2" 1025 0 env q a] 2(2) by (simp add: emit_def)
  then have 3: "call_steps env q 1027 (Submitting, a, s2) = Some (Find True, a, ?s3)"
    using call_steps_add [of env q 1 "Suc 1025" "(Submitting, a, s2)"] by simp
  have a3: "acct env (blog ?s3) = Some (0, 0)" using acct_flush [OF 2(3), of 1025] by simp
  let ?s4 = "emit WaitAndSeen (emit USubmit ?s3)"
  have "call_steps env r (Suc (Suc 0)) (Submitting, b, ?s3) = Some (Reap 1, b, ?s4)"
    using 2(2) by (simp add: one_element emit_def del: am_lookup_0 am_update_0 am_store_0)
  then have 4: "call_steps env r 2 (Submitting, b, ?s3) = Some (Reap 1, b, ?s4)" by (simp only: numeral_2_eq_2)
  have "acct env (blog ?s4) = None"
    using acct_waits [OF acct_submit [OF a3], of 1] by (simp add: emit_def)
  moreover have "run_sched env double_flush ([(Call q, Ask, op), (Call r, Ask, op)], s)
      = Some ([(Call q, Find True, a), (Call r, Reap 1, b)], ?s4)"
    using run_one [OF 1(1), of 0 "[(Call q, Ask, op), (Call r, Ask, op)]"]
      run_one [OF 2(1), of 1 "[(Call q, Submitting, a), (Call r, Ask, op)]"]
      run_one [OF 3, of 0 "[(Call q, Submitting, a), (Call r, Submitting, b)]"]
      run_one [OF 4, of 1 "[(Call q, Find True, a), (Call r, Submitting, b)]"]
    unfolding double_flush_def run_sched_append by simp
  ultimately show ?thesis by blast
qed

theorem racing_full_batches_block_witness:
  "\<exists>ts s'. run_sched (\<lambda>_ _. 0) double_flush ([(Call (sample_call_of (EvSend sample_send)), Ask, new_op sample_send),
      (Call (sample_call_of (EvRecv sample_send)), Ask, new_op sample_send)], sent_state 1023) = Some (ts, s')
    \<and> acct (\<lambda>_ _. 0) (blog s') = None"
  using racing_full_batches_block [OF sent_state_wf(1) sample_taken_over, of 1023] sent_state_wf(2) [of 1023] by simp

end
