(* ===== verification/Probe_Schedules.thy ===== *)
theory Probe_Schedules
  imports Probe_Races
begin

text \<open>
  Schedules of the threads of \<open>Probe_Races\<close> with end marks among them: one thread after the other is
  correct, an end mark that overlaps a call is not.
\<close>

section \<open>One task alone\<close>

lemma task_steps_add:
  "task_steps env t (m + n) st = do { st \<leftarrow> task_steps env t m st; task_steps env t n st }"
proof (induction m arbitrary: st)
  case (Suc m)
  then show ?case by (cases "task_step env t st") simp_all
qed simp

lemma finished_stays: "task_steps env t n (Finished, op, s) = Some (Finished, op, s)"
  by (induction n) (cases t; simp)+

lemma task_steps_total:
  "cells_ok s \<Longrightarrow> \<exists>pc' op' s'. task_steps env t n (pc, op, s) = Some (pc', op', s') \<and> cells_ok s'"
proof (induction n arbitrary: pc op s)
  case (Suc n)
  obtain pc1 op1 s1 where "task_step env t (pc, op, s) = Some (pc1, op1, s1)" "cells_ok s1"
    using task_step_cells [OF Suc.prems, of env t pc op] by blast
  with Suc.IH [of s1 pc1 op1] show ?case by simp
qed simp

lemma finished_unique:
  assumes "task_steps env t m st = Some (Finished, op, s)" and "task_steps env t n st = Some (Finished, op', s')"
  shows "s' = s"
proof (cases "m \<le> n")
  case True
  then obtain k where "n = m + k" using le_Suc_ex by blast
  then show ?thesis using assms by (simp add: task_steps_add finished_stays)
next
  case False
  then obtain k where "m = n + k" using le_Suc_ex [of n m] by auto
  then show ?thesis using assms by (simp add: task_steps_add finished_stays)
qed

lemma end_steps:
  assumes "op_count s = [c]"
  shows "task_steps env EndMark (unat c + 4) (Ask, op, s) = Some (Finished, op,
    s\<lparr>blog := blog s @ Printk ''unbatched ops submitted'' # flushed c, op_count := [0]\<rparr>)"
proof -
  let ?s = "emit USubmit (emit (Printk ''unbatched ops submitted'') s)"
  let ?t = "?s\<lparr>blog := blog ?s @ replicate (unat c) WaitAndSeen\<rparr>"
  have a: "task_steps env EndMark (Suc (Suc 0)) (Ask, op, s) = Some (Reap 0, op, ?s)" by simp
  have "task_steps env EndMark (Suc (unat c - unat (0 :: u32))) (Reap 0, op, ?s) = Some (Reset, op,
      ?s\<lparr>blog := blog ?s @ replicate (unat c - unat (0 :: u32)) WaitAndSeen\<rparr>)"
    by (rule reap_iterated [of "task_steps env EndMark" end_step])
      (use assms in \<open>simp_all add: one_element\<close>)
  then have b: "task_steps env EndMark (Suc (unat c)) (Reap 0, op, ?s) = Some (Reset, op, ?t)" by simp
  have d: "task_steps env EndMark (Suc 0) (Reset, op, ?t) = Some (Finished, op, ?t\<lparr>op_count := [0]\<rparr>)"
    using assms by (simp add: one_element)
  have "unat c + 4 = Suc (Suc 0) + (Suc (unat c) + Suc 0)" by simp
  then have "task_steps env EndMark (unat c + 4) (Ask, op, s) = Some (Finished, op, ?t\<lparr>op_count := [0]\<rparr>)"
    by (simp only: task_steps_add a b d bind.bind_lunit)
  then show ?thesis by (simp add: emit_def flushed_def)
qed

lemma task_alone:
  assumes m: "maps_ok s" and c: "count_of s < 1024" and e: "task_of e = Some t"
  shows "\<exists>n op' s'. io_next env e s = Some s' \<and> task_steps env t n (Ask, op, s) = Some (Finished, op', s')"
proof (cases "e = EvEnd")
  case True
  obtain v where v: "op_count s = [v]" using m by (auto simp: maps_ok_def length_Suc_conv)
  let ?s = "emit (Printk ''unbatched ops submitted'') s"
  have "maps_ok ?s" using m by (simp add: maps_ok_def)
  then have "io_next env e s = Some (s\<lparr>blog := blog s @ Printk ''unbatched ops submitted'' # flushed v, op_count := [0]\<rparr>)"
    using handle_unbatched_eq [of ?s] v True
    by (simp add: io_next_def bpf_end_patch_def emit_def)
  then show ?thesis using end_steps [OF v, of env op] True e by auto
next
  case False
  then obtain q where q: "call_of e = Some q" "t = Call q" using e by (cases e) auto
  from uninterrupted_call [OF m c q(1), of env op] show ?thesis
    by (auto simp: q(2) task_steps_call io_next_def)
qed

section \<open>One thread after the other\<close>

text \<open>The threads run in the order of their numbers, the first of them \<open>k\<close>, for \<open>n\<close> steps each.\<close>

fun serial :: "nat \<Rightarrow> nat list \<Rightarrow> nat list" where
  "serial k [] = []"
| "serial k (n # ns) = replicate n k @ serial (Suc k) ns"

definition at_start :: "thread \<Rightarrow> bool" where
  "at_start th \<longleftrightarrow> fst (snd th) = Ask"

definition at_end :: "thread \<Rightarrow> bool" where
  "at_end th \<longleftrightarrow> fst (snd th) = Finished"

lemma wf_cells: "pend_wf env s \<Longrightarrow> cells_ok s"
  by (simp add: pend_wf_def maps_ok_def cells_ok_def)

lemma next_wf:
  assumes "pend_wf env s" and "io_next env e s = Some s'"
  shows "pend_wf env s'"
  using backup.run_wf [OF assms(1), of "[e]"] assms(2) by auto

lemma run_block:
  assumes "cells_ok s" and "ts = pre @ (t, pc, op) # rest"
  shows "\<exists>pc' op' s'. task_steps env t n (pc, op, s) = Some (pc', op', s') \<and> cells_ok s'
    \<and> run_sched env (replicate n (length pre)) (ts, s) = Some (pre @ (t, pc', op') # rest, s')"
proof -
  obtain pc' op' s' where r: "task_steps env t n (pc, op, s) = Some (pc', op', s')" "cells_ok s'"
    using task_steps_total [OF assms(1)] by blast
  from run_task [OF r(1), of "length pre" ts] assms(2) r show ?thesis by auto
qed

lemma serial_keeps:
  "cells_ok s \<Longrightarrow> length ns = length rest \<Longrightarrow> \<exists>rest' s'. run_sched env (serial (length pre) ns) (pre @ rest, s)
    = Some (pre @ rest', s') \<and> length rest' = length rest"
proof (induction rest arbitrary: ns pre s)
  case (Cons th rest)
  obtain t pc op where th: "th = (t, pc, op)" using prod_cases3 by blast
  obtain n ms where ns: "ns = n # ms" using Cons.prems(2) by (cases ns) auto
  from run_block [OF Cons.prems(1), of "pre @ th # rest" pre t pc op rest env n] th
  obtain pc' op' s' where b: "cells_ok s'"
      "run_sched env (replicate n (length pre)) (pre @ th # rest, s) = Some (pre @ (t, pc', op') # rest, s')" by auto
  from Cons.IH [OF b(1), of ms "pre @ [(t, pc', op')]"] Cons.prems(2) ns
  obtain rest' s'' where "run_sched env (serial (Suc (length pre)) ms) (pre @ (t, pc', op') # rest, s')
      = Some (pre @ (t, pc', op') # rest', s'')" "length rest' = length rest" by auto
  with b(2) ns show ?case by (auto simp: run_sched_append intro!: exI [of _ "(t, pc', op') # rest'"])
qed simp

lemma serial_runs:
  assumes "pend_wf env s" and "length ns = length rest" and "list_all at_start rest"
    and "map task_of es = map (\<lambda>th. Some (fst th)) rest"
    and "run_sched env (serial (length pre) ns) (pre @ rest, s) = Some (pre @ rest', s')"
    and "list_all at_end rest'" and "length rest' = length rest"
  shows "run_events (io_next env) es s = Some s'"
  using assms
proof (induction rest arbitrary: ns pre s es rest')
  case (Cons th rest)
  obtain n ms where ns: "ns = n # ms" using Cons.prems(2) by (cases ns) auto
  obtain e es' where es: "es = e # es'" "task_of e = Some (fst th)" using Cons.prems(4) by (cases es) auto
  obtain t op where th: "th = (t, Ask, op)" using Cons.prems(3) by (cases th) (auto simp: at_start_def)
  from run_block [OF wf_cells [OF Cons.prems(1)], of "pre @ th # rest" pre t Ask op rest env n] th
  obtain pc' op' s1 where b: "task_steps env t n (Ask, op, s) = Some (pc', op', s1)" "cells_ok s1"
      "run_sched env (replicate n (length pre)) (pre @ th # rest, s) = Some (pre @ (t, pc', op') # rest, s1)" by auto
  have later: "run_sched env (serial (length (pre @ [(t, pc', op')])) ms) ((pre @ [(t, pc', op')]) @ rest, s1) = Some (pre @ rest', s')"
    using Cons.prems(5) b(3) ns by (simp add: run_sched_append)
  obtain rest2 s2 where "run_sched env (serial (length (pre @ [(t, pc', op')])) ms) ((pre @ [(t, pc', op')]) @ rest, s1)
      = Some ((pre @ [(t, pc', op')]) @ rest2, s2)" "length rest2 = length rest"
    using serial_keeps [OF b(2), of ms rest env "pre @ [(t, pc', op')]"] Cons.prems(2) ns by auto
  with later have r: "rest' = (t, pc', op') # rest2" "s2 = s'" by auto
  then have "pc' = Finished" using Cons.prems(6) by (simp add: at_end_def)
  have "maps_ok s" "count_of s < 1024" using Cons.prems(1) by (simp_all add: pend_wf_def)
  from task_alone [OF this es(2), of env op] th obtain m op2 s3 where
    a: "io_next env e s = Some s3" "task_steps env t m (Ask, op, s) = Some (Finished, op2, s3)" by auto
  have "s3 = s1" using finished_unique [OF _ a(2)] b(1) \<open>pc' = Finished\<close> by blast
  moreover have "run_events (io_next env) es' s1 = Some s'"
    using Cons.IH [of s1 ms es' "pre @ [(t, pc', op')]" rest2] next_wf [OF Cons.prems(1) a(1)] Cons.prems later r
      \<open>s3 = s1\<close> \<open>length rest2 = length rest\<close> ns es by simp
  ultimately show ?case using a(1) es(1) by simp
qed simp

text \<open>Such a schedule exists for every list of calls and end marks.\<close>

lemma serial_schedule_exists:
  "pend_wf env s \<Longrightarrow> list_all at_start rest \<Longrightarrow> map task_of es = map (\<lambda>th. Some (fst th)) rest \<Longrightarrow>
    \<exists>ns rest' s'. length ns = length rest \<and> length rest' = length rest \<and> list_all at_end rest'
      \<and> run_sched env (serial (length pre) ns) (pre @ rest, s) = Some (pre @ rest', s')"
proof (induction rest arbitrary: pre s es)
  case (Cons th rest)
  obtain e es' where es: "es = e # es'" "task_of e = Some (fst th)" using Cons.prems(3) by (cases es) auto
  obtain t op where th: "th = (t, Ask, op)" using Cons.prems(2) by (cases th) (auto simp: at_start_def)
  have "maps_ok s" "count_of s < 1024" using Cons.prems(1) by (simp_all add: pend_wf_def)
  from task_alone [OF this es(2), of env op] th obtain n op1 s1 where
    a: "io_next env e s = Some s1" "task_steps env t n (Ask, op, s) = Some (Finished, op1, s1)" by auto
  have b: "run_sched env (replicate n (length pre)) (pre @ th # rest, s) = Some (pre @ (t, Finished, op1) # rest, s1)"
    using run_task [OF a(2), of "length pre" "pre @ th # rest"] th by simp
  from Cons.IH [OF next_wf [OF Cons.prems(1) a(1)], of es' "pre @ [(t, Finished, op1)]"] Cons.prems es
  obtain ns rest' s' where "length ns = length rest" "length rest' = length rest" "list_all at_end rest'"
    "run_sched env (serial (Suc (length pre)) ns) (pre @ (t, Finished, op1) # rest, s1) = Some (pre @ (t, Finished, op1) # rest', s')"
    by auto
  moreover have "at_end (t, Finished, op1)" by (simp add: at_end_def)
  ultimately show ?case using b
    by (intro exI [of _ "n # ns"] exI [of _ "(t, Finished, op1) # rest'"] exI [of _ s'])
      (simp add: run_sched_append)
qed simp

text \<open>
  C17: threads that run one after the other, in any number, each a call or an end mark and each to its
  end, leave the state that the handlers as whole functions leave when they handle the events one after
  the other, and the account is in order: every request the runtime accepted is collected or still
  counted, and less than a full batch is counted.
\<close>

theorem serial_schedules_are_sound:
  assumes "pend_wf env s" and "list_all at_start ts" and "map task_of es = map (\<lambda>th. Some (fst th)) ts"
    and "length ns = length ts" and "run_sched env (serial 0 ns) (ts, s) = Some (ts', s')"
    and "list_all at_end ts'" and "length ts' = length ts"
  shows "run_events (io_next env) es s = Some s'
    \<and> taken env (blog s') = waits (blog s') + count_of s' \<and> count_of s' \<le> 1023"
proof -
  have run: "run_events (io_next env) es s = Some s'"
    using serial_runs [OF assms(1,4,2,3), of "[]"] assms(5-7) by simp
  have "pend_wf env s'" using backup.run_wf [OF assms(1), of es] run by auto
  with run show ?thesis using backup.no_leak backup.wf_limit by blast
qed

theorem serial_schedules_are_sound_witness:
  "\<exists>ns ts s. run_sched (\<lambda>_ _. 0) (serial 0 ns) ([(Call (sample_call_of (EvSend sample_send)), Ask, new_op sample_send),
      (EndMark, Ask, new_op sample_send)], sent_state 5) = Some (ts, s)
    \<and> run_events (io_next (\<lambda>_ _. 0)) [EvSend sample_send, EvEnd] (sent_state 5) = Some s
    \<and> taken (\<lambda>_ _. 0) (blog s) = waits (blog s) + count_of s"
proof -
  let ?ts = "[(Call (sample_call_of (EvSend sample_send)), Ask, new_op sample_send), (EndMark, Ask, new_op sample_send)]"
  have w: "pend_wf (\<lambda>_ _. 0) (sent_state 5)" by (rule sent_state_wf) simp
  have st: "list_all at_start ?ts" by (simp add: at_start_def)
  have tasks: "map task_of [EvSend sample_send, EvEnd] = map (\<lambda>th. Some (fst th)) ?ts"
    by (simp add: sample_call_of_def)
  from serial_schedule_exists [OF w st tasks, of "[]"] obtain ns ts s where
    "length ns = length ?ts" "run_sched (\<lambda>_ _. 0) (serial 0 ns) (?ts, sent_state 5) = Some (ts, s)"
    "list_all at_end ts" "length ts = length ?ts"
    by (metis append_Nil list.size(3))
  with serial_schedules_are_sound [OF w st tasks] show ?thesis by blast
qed

section \<open>An end mark beside a call\<close>

text \<open>
  The call loads the counter \<open>c\<close>, the first end mark runs to its end, the call stores \<open>c + 1\<close>, and the
  second end mark waits \<open>c + 1\<close> times.
\<close>

definition end_mark_race :: "nat \<Rightarrow> nat list" where
  "end_mark_race c = replicate 6 0 @ replicate (c + 4) 1 @ replicate 6 0 @ replicate (c + 5) 2"

lemma end_acct:
  assumes "op_count s = [c]" and "acct env (blog s) = Some (k, f)" and "unat c \<le> k + f"
  shows "acct env (blog s @ Printk ''unbatched ops submitted'' # flushed c) = Some (0, k + f - unat c)"
proof -
  have "acct env (blog s @ [Printk ''unbatched ops submitted'']) = Some (k, f)"
    using assms(2) by (simp add: acct_neutral)
  from acct_flush [OF this, of "unat c"] assms(3) show ?thesis by (simp add: flushed_def)
qed

text \<open>
  C16: an end mark that falls between a call's load and its store of the counter ruins the account: from
  every well-formed state with at least one operation pending and room in the batch, for any call the
  runtime accepts, the end mark collects one completion too few and its reset of the counter is
  overwritten, so the next end mark waits for completions that were already taken, for ever.
\<close>

theorem end_mark_race_blocks:
  assumes wf: "pend_wf env s" and q: "taken_over env q s" and some: "1 \<le> count_of s" and room: "count_of s + 1 < 1024"
  shows "\<exists>ts s'. run_sched env (end_mark_race (count_of s)) ([(Call q, Ask, op), (EndMark, Ask, op), (EndMark, Ask, op)], s)
      = Some (ts, s') \<and> count_of s' = 0 \<and> acct env (blog s') = None"
proof -
  let ?c = "op_count s ! 0"
  have h: "maps_ok s" "acct env (blog s) = Some (count_of s, 0)" using wf by (auto simp: pend_wf_def)
  have c: "op_count s = [?c]" "unat ?c = count_of s" using h(1)
    by (auto simp: maps_ok_def count_of_def length_Suc_conv)
  obtain a s1 where 1: "call_steps env q 6 (Ask, op, s) = Some (WriteCount ?c, a, s1)" "maps_ok s1"
      "op_count s1 = [?c]" "acct env (blog s1) = Some (count_of s + 1, 0)"
    using steps_to_count [OF h(1) q h(2), of op] c(1) by auto
  define s2 where "s2 = s1\<lparr>blog := blog s1 @ Printk ''unbatched ops submitted'' # flushed ?c, op_count := [0]\<rparr>"
  have 2: "task_steps env EndMark (count_of s + 4) (Ask, op, s1) = Some (Finished, op, s2)"
    using end_steps [OF 1(3), of env op] by (simp add: s2_def c(2))
  have a2: "acct env (blog s2) = Some (0, 1)" using end_acct [OF 1(3,4)] by (simp add: s2_def c(2))
  have m2: "maps_ok s2" using 1(2) by (simp add: s2_def maps_ok_def)
  obtain s3 where 3: "call_steps env q 6 (WriteCount ?c, a, s2) = Some (Finished, a, s3)"
      "op_count s3 = [?c + 1]" "acct env (blog s3) = Some (0, 1)"
    using steps_from_count [OF m2 a2, of ?c q a] room by (auto simp: c(2))
  have u: "unat (?c + 1) = count_of s + 1" using room c(2) by (simp add: unat_plus_one)
  define s4 where "s4 = s3\<lparr>blog := blog s3 @ Printk ''unbatched ops submitted'' # flushed (?c + 1), op_count := [0]\<rparr>"
  have "count_of s + 5 = unat (?c + 1) + 4" by (simp add: u)
  then have 4: "task_steps env EndMark (count_of s + 5) (Ask, op, s3) = Some (Finished, op, s4)"
    using end_steps [OF 3(2), of env op] by (simp only: s4_def)
  have "acct env (blog s3 @ [Printk ''unbatched ops submitted'']) = Some (0, 1)" using 3(3) by (simp add: acct_neutral)
  from acct_waits [OF acct_submit [OF this], of "count_of s + 1"] have "acct env (blog s4) = None"
    using some by (simp add: s4_def flushed_def u)
  moreover have "count_of s4 = 0" by (simp add: s4_def count_of_def)
  moreover have "run_sched env (end_mark_race (count_of s)) ([(Call q, Ask, op), (EndMark, Ask, op), (EndMark, Ask, op)], s)
      = Some ([(Call q, Finished, a), (EndMark, Finished, op), (EndMark, Finished, op)], s4)"
    using run_one [OF 1(1), of 0 "[(Call q, Ask, op), (EndMark, Ask, op), (EndMark, Ask, op)]"]
      run_task [OF 2, of 1 "[(Call q, WriteCount ?c, a), (EndMark, Ask, op), (EndMark, Ask, op)]"]
      run_one [OF 3(1), of 0 "[(Call q, WriteCount ?c, a), (EndMark, Finished, op), (EndMark, Ask, op)]"]
      run_task [OF 4, of 2 "[(Call q, Finished, a), (EndMark, Finished, op), (EndMark, Ask, op)]"]
    by (simp add: end_mark_race_def run_sched_append)
  ultimately show ?thesis by blast
qed

theorem end_mark_race_blocks_witness:
  "\<exists>ts s'. run_sched (\<lambda>_ _. 0) (end_mark_race 5) ([(Call (sample_call_of (EvSend sample_send)), Ask, new_op sample_send),
      (EndMark, Ask, new_op sample_send), (EndMark, Ask, new_op sample_send)], sent_state 5) = Some (ts, s')
    \<and> acct (\<lambda>_ _. 0) (blog s') = None"
  using end_mark_race_blocks [OF sent_state_wf(1) sample_taken_over(1), of 5] sent_state_wf(2) [of 5] by simp blast

end
