(* ===== verification/Daemon_Session.thy ===== *)
theory Daemon_Session
  imports User_Daemon
begin

text \<open>
  The probes of \<open>user.bpf.c\<close> and the consumers of \<open>user.c\<close> together: the records that a log of the
  probes puts on the two ring buffers, and what the daemon does with them. What the daemon has done is
  summed up in a tally: the reads it prepared, how many of them wait for a submit, how many completions it
  collected.
\<close>

section \<open>From ClickHouse to the daemon\<close>

text \<open>The records a log of the probes puts on the two ring buffers, as the daemon receives them.\<close>

fun delivered :: "bpf_ev \<Rightarrow> daemon_ev list" where
  "delivered (RingbufOutput rb d) =
     (if rb = ''pread_prepare_ringbuf'' then [DPrepare d]
      else if rb = ''pread_submit_batch_ringbuf'' then [DSubmit d] else [])"
| "delivered e = []"

definition run_daemon :: "sys_env \<Rightarrow> bpf_ev list \<Rightarrow> daemon \<Rightarrow> daemon" where
  "run_daemon env lg s = fold (daemon_step env) (concat (map delivered lg)) s"

lemma run_daemon_simps [simp]:
  "run_daemon env [] s = s"
  "run_daemon env (lg @ lg') s = run_daemon env lg' (run_daemon env lg s)"
  "run_daemon env (e # lg) s = run_daemon env lg (fold (daemon_step env) (delivered e) s)"
  by (simp_all add: run_daemon_def)

definition read_of :: "bpf_ctx \<Rightarrow> sys_call" where
  "read_of c = Ur (PrepRead (sint (to_int (parm1 c))) (parm2 c) (ucast (parm5 c)) 0)"

definition prepared :: "history \<Rightarrow> sys_call list" where
  "prepared h = filter (\<lambda>e. case e of Ur (PrepRead fd a n off) \<Rightarrow> True | _ \<Rightarrow> False) (calls h)"

lemma prepared_calls [simp]:
  "prepared (h @ h') = prepared h @ prepared h'" "prepared [] = []"
  "prepared ((e, a) # h) = (case e of Ur (PrepRead fd b n off) \<Rightarrow> [e] | _ \<Rightarrow> []) @ prepared h"
  by (simp_all add: prepared_def split: sys_call.split uring_call.split)

text \<open>The polls of a history; the consumers make none.\<close>

definition polls :: "string \<Rightarrow> history \<Rightarrow> nat" where
  "polls r h = cnt (\<lambda>e. e = Lb (RbPoll r (- 1))) (calls h)"

lemma polls_calls [simp]:
  "polls r (h @ h') = polls r h + polls r h'" "polls r [] = 0"
  "polls r ((e, a) # h) = (if e = Lb (RbPoll r (- 1)) then 1 else 0) + polls r h"
  by (simp_all add: polls_def)

fun waiting :: "sys_call \<Rightarrow> bool" where
  "waiting (Ur WaitCqe) = True"
| "waiting (Ur CqeSeen) = True"
| "waiting (Px (PrintErr m)) = True"
| "waiting _ = False"

lemma waiting_quiet: "list_all waiting (calls es) \<Longrightarrow> prepared es = [] \<and> polls r es = 0"
proof (induction es)
  case (Cons e es)
  then show ?case by (cases e; cases "fst e" rule: waiting.cases) auto
qed simp

lemma wait_batch_waits: "\<exists>es. hist (snd (wait_batch env i s)) = hist s @ es \<and> list_all waiting (calls es)"
proof (induction env i s rule: wait_batch.induct)
  case (1 env i s)
  let ?a = "env (hist s) (Ur WaitCqe)" and ?s = "do_call env (Ur WaitCqe) s"
  show ?case
  proof (cases "i < batch_count s \<and> 0 \<le> rv ?a")
    case True
    then have "wait_batch env i s = wait_batch env (i + 1) (see_cqe env ?a ?s)"
      by (subst wait_batch.simps) (simp add: call_pair not_less)
    moreover have "\<exists>es. hist (snd (wait_batch env (i + 1) (see_cqe env ?a ?s))) = hist (see_cqe env ?a ?s) @ es
        \<and> list_all waiting (calls es)"
      using True by (intro "1.IH") (simp_all add: call_pair not_less)
    ultimately show ?thesis by (auto simp: see_cqe_def)
  next
    case False
    then show ?thesis by (subst wait_batch.simps) (auto simp: call_pair)
  qed
qed

lemma submit_quiet:
  "prepared (hist (snd (process_pread_submit_info env pid s))) = prepared (hist s)"
  "polls r (hist (snd (process_pread_submit_info env pid s))) = polls r (hist s)"
  using wait_batch_waits [of env 0 "do_call env (Ur Submit) s"] waiting_quiet
  by (auto simp: process_pread_submit_info_def split: prod.split)

section \<open>The tally\<close>

record tally =
  asked_for :: "sys_call list"
  due :: nat
  collected :: nat

definition tally_of :: "daemon \<Rightarrow> tally" where
  "tally_of s = \<lparr>asked_for = prepared (hist s), due = unsubmitted (hist s),
     collected = cnt is_seen (calls (hist s))\<rparr>"

definition req_of :: "prep_info \<Rightarrow> sys_call" where
  "req_of i = Ur (PrepRead (sint (pi_fd i)) (pi_dest i) (ucast (pi_size i)) (pi_offset i))"

definition ask_for :: "prep_info list \<Rightarrow> tally \<Rightarrow> tally" where
  "ask_for is t = t\<lparr>asked_for := asked_for t @ map req_of is, due := due t + length is\<rparr>"

definition collect :: "tally \<Rightarrow> tally" where
  "collect t = t\<lparr>due := 0, collected := collected t + due t\<rparr>"

lemma prepare_tally:
  assumes "sq_law 1024 env" and "in_step s" and "unsubmitted (hist s) < 1024"
  fixes i defines "s' \<equiv> process_pread_prepare_info env i s"
  shows "in_step s'" and "tally_of s' = ask_for [i] (tally_of s)" and "polls r (hist s') = polls r (hist s)"
proof -
  have sqe: "rv (env (hist s) (Ur GetSqe)) \<noteq> 0" using assms(1,3) by (simp add: sq_law_def)
  note p = prepare_accepted [of env s i, OF sqe, folded s'_def]
  have "unat (batch_count s + 1) = unat (batch_count s) + 1"
    using assms(2,3) by (intro unat_plus_one) (simp add: in_step_def)
  then show "in_step s'" using p assms(2,3) by (simp add: in_step_def)
  show "tally_of s' = ask_for [i] (tally_of s)" "polls r (hist s') = polls r (hist s)"
    using p by (simp_all add: tally_of_def ask_for_def req_of_def prepared_def polls_def is_seen_def)
qed

lemma prepares_tally:
  assumes "sq_law 1024 env"
  shows "in_step s \<Longrightarrow> due (tally_of s) + length is \<le> 1024 \<Longrightarrow>
    in_step (fold (daemon_step env) (map (\<lambda>i. DPrepare (prep_bytes i)) is) s)
    \<and> tally_of (fold (daemon_step env) (map (\<lambda>i. DPrepare (prep_bytes i)) is) s) = ask_for is (tally_of s)
    \<and> polls r (hist (fold (daemon_step env) (map (\<lambda>i. DPrepare (prep_bytes i)) is) s)) = polls r (hist s)"
proof (induction "is" arbitrary: s)
  case (Cons i "is")
  let ?s = "process_pread_prepare_info env i s"
  have "unsubmitted (hist s) < 1024" using Cons.prems(2) by (simp add: tally_of_def)
  note p = prepare_tally [OF assms Cons.prems(1) this, where i = i]
  have "due (tally_of ?s) + length is \<le> 1024" using p(2) Cons.prems(2) by (simp add: ask_for_def)
  from Cons.IH [OF p(1) this] p(2,3) show ?case by (simp add: handle_pread_prepare_def ask_for_def)
qed (simp add: ask_for_def)

lemma submit_tally:
  assumes "submit_law env" and "\<forall>h. 0 \<le> rv (env h (Ur WaitCqe))" and "in_step s"
  fixes pid defines "s' \<equiv> snd (process_pread_submit_info env pid s)"
  shows "in_step s'" and "tally_of s' = collect (tally_of s)" and "batch_count s' = 0"
proof -
  obtain es where es: "process_pread_submit_info env pid s = (0, s\<lparr>hist := hist s @ es, batch_count := 0\<rparr>)" "cnt is_seen (calls es) = unat (batch_count s)"
      "es = [] \<and> batch_count s = 0 \<or> (\<exists>a es'. es = (Ur Submit, a) # es' \<and> (\<forall>n. unsubmitted_from n es' = n)
         \<and> a = env (hist s) (Ur Submit))"
    using submit_ok [of env pid s, OF assms(2)] by blast
  note s' = s'_def [unfolded es(1) snd_conv]
  have u: "unsubmitted (hist s') = 0"
    using s' es(3) assms(1,3) by (auto simp: in_step_def submit_law_def not_le [symmetric])
  then show "in_step s'" using s' by (simp add: in_step_def)
  show "tally_of s' = collect (tally_of s)"
    using u es(2) assms(3) submit_quiet(1) [of env pid s] s'
    by (simp add: tally_of_def collect_def in_step_def s'_def [symmetric])
  show "batch_count s' = 0" using s' by simp
qed

section \<open>The reads of a session\<close>

definition prep_records :: "bpf_ev list \<Rightarrow> prep_info list" where
  "prep_records lg = concat (map (\<lambda>e. case e of DPrepare d \<Rightarrow> [read_prep d] | DSubmit d \<Rightarrow> [])
     (concat (map delivered lg)))"

lemma prep_records_Cons [simp]:
  "prep_records (e # lg) = (case delivered e of [DPrepare d] \<Rightarrow> [read_prep d] | _ \<Rightarrow> []) @ prep_records lg"
  by (cases e rule: delivered.cases) (auto simp: prep_records_def)

lemma prep_records_append [simp]: "prep_records (lg @ lg') = prep_records lg @ prep_records lg'" "prep_records [] = []"
  by (simp_all add: prep_records_def)

lemma req_of_read_info [simp]: "req_of (read_info c n) = read_of c"
  by (simp add: req_of_def read_info_def read_of_def)

lemma reads_log:
  "us_overridden u \<Longrightarrow> \<exists>lg. blog (us_reads cs u) = blog u @ lg \<and> us_overridden (us_reads cs u)
    \<and> concat (map delivered lg) = map (\<lambda>i. DPrepare (prep_bytes i)) (prep_records lg)
    \<and> map req_of (prep_records lg) = map read_of cs"
proof (induction cs arbitrary: u)
  case Nil
  then show ?case by (intro exI [of _ "[]"]) (simp add: us_reads_def)
next
  case (Cons c cs)
  define lg1 where "lg1 = [ProbeWriteUser (parm4 c) [1],
    RingbufOutput ''pread_prepare_ringbuf'' (prep_bytes (read_info c (us_seq u)))]"
  note u = us_preadRaw_on [OF Cons.prems, of c]
  obtain lg where "blog (us_reads cs (snd (us_preadRaw c u))) = blog (snd (us_preadRaw c u)) @ lg"
      "us_overridden (us_reads cs (snd (us_preadRaw c u)))"
      "concat (map delivered lg) = map (\<lambda>i. DPrepare (prep_bytes i)) (prep_records lg)"
      "map req_of (prep_records lg) = map read_of cs"
    using Cons.IH [OF u(1)] by blast
  then show ?case using u(3)
    by (intro exI [of _ "lg1 @ lg"])
      (simp add: us_reads_def lg1_def)
qed

end
