(* ===== verification/Daemon_Loop.thy ===== *)
theory Daemon_Loop
  imports Loaders Daemon_Session
begin

text \<open>
  The whole run of \<open>user.c\<close>: the daemon polls its two ring buffers in turn until SIGINT. A delivery
  is what each poll finds: the reads prepared and the batches submitted since the poll before.
\<close>

section \<open>What the polls deliver\<close>

abbreviation PREPARES :: string where "PREPARES \<equiv> ''pread_prepare_ringbuf''"
abbreviation SUBMITS :: string where "SUBMITS \<equiv> ''pread_submit_batch_ringbuf''"

text \<open>\<open>-EINTR\<close>, what a poll returns when the signal interrupts it.\<close>

definition INTERRUPTED :: int where
  "INTERRUPTED = - 4"

type_synonym delivery = "prep_info list \<times> u32 list"

text \<open>
  The polls find the deliveries one after the other, then one more poll of the first ring finds \<open>late\<close>,
  and the poll of the second ring after it is interrupted by SIGINT. libbpf returns the number of records.
\<close>

definition delivers :: "delivery list \<Rightarrow> prep_info list \<Rightarrow> sys_env \<Rightarrow> bool" where
  "delivers ds late env \<longleftrightarrow>
     (\<forall>h. polls PREPARES h \<le> length ds \<longrightarrow>
        (let a = env h (Lb (RbPoll PREPARES (- 1))); is = (map fst ds @ [late]) ! polls PREPARES h
         in rv a = int (length is) \<and> dat a = concat (map prep_bytes is)))
   \<and> (\<forall>h. polls SUBMITS h < length ds \<longrightarrow>
        (let a = env h (Lb (RbPoll SUBMITS (- 1))); ps = snd (ds ! polls SUBMITS h)
         in rv a = int (length ps) \<and> dat a = concat (map (le_bytes 4) ps)))
   \<and> (\<forall>h. polls SUBMITS h = length ds \<longrightarrow>
        rv (env h (Lb (RbPoll SUBMITS (- 1)))) = INTERRUPTED \<and> dat (env h (Lb (RbPoll SUBMITS (- 1)))) = [])"

lemma delivers_next:
  assumes "delivers (pre @ ds) late env"
  shows "polls PREPARES h = length pre \<Longrightarrow> rv (env h (Lb (RbPoll PREPARES (- 1)))) = int (length (case ds of [] \<Rightarrow> late | d # _ \<Rightarrow> fst d))
      \<and> dat (env h (Lb (RbPoll PREPARES (- 1)))) = concat (map prep_bytes (case ds of [] \<Rightarrow> late | d # _ \<Rightarrow> fst d))"
    and "polls SUBMITS h = length pre \<Longrightarrow> (case ds of
        [] \<Rightarrow> rv (env h (Lb (RbPoll SUBMITS (- 1)))) = INTERRUPTED \<and> dat (env h (Lb (RbPoll SUBMITS (- 1)))) = []
      | d # _ \<Rightarrow> rv (env h (Lb (RbPoll SUBMITS (- 1)))) = int (length (snd d))
          \<and> dat (env h (Lb (RbPoll SUBMITS (- 1)))) = concat (map (le_bytes 4) (snd d)))"
proof -
  have "(map fst (pre @ ds) @ [late]) ! length pre = (case ds of [] \<Rightarrow> late | d # _ \<Rightarrow> fst d)"
    using nth_append_length [of "map fst pre" "case ds of [] \<Rightarrow> late | d # _ \<Rightarrow> fst d" "case ds of [] \<Rightarrow> [] | _ # ds \<Rightarrow> map fst ds @ [late]"]
    by (cases ds) simp_all
  then show "polls PREPARES h = length pre \<Longrightarrow> rv (env h (Lb (RbPoll PREPARES (- 1)))) = int (length (case ds of [] \<Rightarrow> late | d # _ \<Rightarrow> fst d))
      \<and> dat (env h (Lb (RbPoll PREPARES (- 1)))) = concat (map prep_bytes (case ds of [] \<Rightarrow> late | d # _ \<Rightarrow> fst d))"
    using assms by (simp add: delivers_def Let_def)
  show "polls SUBMITS h = length pre \<Longrightarrow> (case ds of
        [] \<Rightarrow> rv (env h (Lb (RbPoll SUBMITS (- 1)))) = INTERRUPTED \<and> dat (env h (Lb (RbPoll SUBMITS (- 1)))) = []
      | d # _ \<Rightarrow> rv (env h (Lb (RbPoll SUBMITS (- 1)))) = int (length (snd d))
          \<and> dat (env h (Lb (RbPoll SUBMITS (- 1)))) = concat (map (le_bytes 4) (snd d)))"
    using assms by (cases ds) (simp_all add: delivers_def Let_def nth_append)
qed

section \<open>The specification\<close>

definition served :: "delivery \<Rightarrow> tally \<Rightarrow> tally" where
  "served d t = (if snd d = [] then ask_for (fst d) t else collect (ask_for (fst d) t))"

text \<open>The ring of 1024 entries has room for every read.\<close>

fun fits :: "delivery list \<Rightarrow> prep_info list \<Rightarrow> tally \<Rightarrow> bool" where
  "fits [] late t \<longleftrightarrow> due t + length late \<le> 1024"
| "fits (d # ds) late t \<longleftrightarrow> due t + length (fst d) \<le> 1024 \<and> length (snd d) < 2 ^ 31 \<and> fits ds late (served d t)"

lemma chunks_concat:
  assumes "0 < n" and "\<forall>x. length (f x) = n"
  shows "chunks n (concat (map f xs)) = map f xs"
proof (induction xs)
  case (Cons x xs)
  obtain m where m: "n = Suc m" using assms(1) by (cases n) auto
  then obtain y ys where "f x = y # ys" "length ys = m" using assms(2) by (metis length_Suc_conv)
  then show ?case using Cons m by simp
qed simp

lemmas record_chunks =
  chunks_concat [of 56 prep_bytes, simplified]
  chunks_concat [of 4 "le_bytes 4", simplified]

section \<open>One poll of each ring\<close>

text \<open>The laws of the ring and the kernel under which no read is lost.\<close>

definition ring_works :: "sys_env \<Rightarrow> bool" where
  "ring_works env \<longleftrightarrow> sq_law 1024 env \<and> submit_law env \<and> (\<forall>h. 0 \<le> rv (env h (Ur WaitCqe)))"

lemma collect_again: "collect (collect t) = collect t"
  by (simp add: collect_def)

abbreviation submit_records :: "u32 list \<Rightarrow> daemon_ev list" where
  "submit_records ps \<equiv> map (\<lambda>p. DSubmit (le_bytes 4 p)) ps"

lemma submits_tally:
  assumes "ring_works env"
  shows "in_step s \<Longrightarrow>
    in_step (fold (daemon_step env) (submit_records ps) s)
    \<and> tally_of (fold (daemon_step env) (submit_records ps) s) = (if ps = [] then tally_of s else collect (tally_of s))
    \<and> polls r (hist (fold (daemon_step env) (submit_records ps) s)) = polls r (hist s)"
proof (induction ps arbitrary: s)
  case (Cons p ps)
  let ?s = "snd (process_pread_submit_info env p s)"
  have l: "submit_law env" "\<forall>h. 0 \<le> rv (env h (Ur WaitCqe))" using assms by (simp_all add: ring_works_def)
  note one = submit_tally [OF l Cons.prems, where pid = p]
  from Cons.IH [OF one(1)] show ?case
    using one(2) submit_quiet(2) [of r env p s] by (simp add: handle_pread_submit_def collect_again read32_def byte_at_def)
qed simp

lemma loop_round:
  assumes "ring_works env" and "in_step s"
    and a: "a = env (hist s) (Lb (RbPoll PREPARES (- 1)))" "dat a = concat (map prep_bytes is)"
    and "due (tally_of s) + length is \<le> 1024"
  defines "s1 \<equiv> fold (daemon_step env) (map DPrepare (chunks 56 (dat a))) (do_call env (Lb (RbPoll PREPARES (- 1))) s)"
  shows "in_step s1" and "tally_of s1 = ask_for is (tally_of s)"
    and "polls PREPARES (hist s1) = Suc (polls PREPARES (hist s))" and "polls SUBMITS (hist s1) = polls SUBMITS (hist s)"
proof -
  let ?s = "do_call env (Lb (RbPoll PREPARES (- 1))) s"
  have s: "in_step ?s" "tally_of ?s = tally_of s"
    using assms(2) by (simp_all add: in_step_def tally_of_def is_seen_def)
  have "s1 = fold (daemon_step env) (map (\<lambda>i. DPrepare (prep_bytes i)) is) ?s"
    by (simp add: s1_def a(2) record_chunks o_def)
  with prepares_tally [of env ?s "is", OF _ s(1)] s(2) assms(1,5)
  show "in_step s1" "tally_of s1 = ask_for is (tally_of s)"
    "polls PREPARES (hist s1) = Suc (polls PREPARES (hist s))" "polls SUBMITS (hist s1) = polls SUBMITS (hist s)"
    by (simp_all add: ring_works_def)
qed

section \<open>The loop and the program\<close>

lemma tally_quiet [simp]:
  "tally_of (do_call env (Lb x) s) = tally_of s" "tally_of (do_call env (Px y) s) = tally_of s"
  "tally_of (do_call env (Ur QueueExit) s) = tally_of s"
  "in_step (do_call env (Lb x) s) = in_step s"
  by (simp_all add: tally_of_def is_seen_def in_step_def)

lemma loop_serves:
  assumes w: "ring_works env" and d: "delivers (pre @ ds) late env"
  shows "in_step s \<Longrightarrow> polls PREPARES (hist s) = length pre \<Longrightarrow> polls SUBMITS (hist s) = length pre \<Longrightarrow>
    fits ds late (tally_of s) \<Longrightarrow>
    \<exists>s'. user_loop env (Suc (length ds)) err s = (INTERRUPTED, s') \<and> tally_of s' = ask_for late (fold served ds (tally_of s))"
  using d
proof (induction ds arbitrary: pre s err)
  case Nil
  let ?a = "env (hist s) (Lb (RbPoll PREPARES (- 1)))"
  have a: "rv ?a = int (length late)" "dat ?a = concat (map prep_bytes late)"
    using delivers_next(1) [OF Nil.prems(5,2)] by simp_all
  define s1 where "s1 = fold (daemon_step env) (map DPrepare (chunks 56 (dat ?a))) (do_call env (Lb (RbPoll PREPARES (- 1))) s)"
  note r = loop_round [OF w Nil.prems(1) refl a(2), folded s1_def]
  have b: "rv (env (hist s1) (Lb (RbPoll SUBMITS (- 1)))) = INTERRUPTED" "dat (env (hist s1) (Lb (RbPoll SUBMITS (- 1)))) = []"
    using delivers_next(2) [OF Nil.prems(5), of "hist s1"] Nil.prems(3,4) r(4) by simp_all
  have "c_int (rv ?a) = int (length late)" using a(1) Nil.prems(4) by simp
  then show ?case using b r(2) Nil.prems(4) by (simp add: call_pair Let_def s1_def [symmetric] INTERRUPTED_def)
next
  case (Cons d ds)
  let ?a = "env (hist s) (Lb (RbPoll PREPARES (- 1)))"
  have a: "rv ?a = int (length (fst d))" "dat ?a = concat (map prep_bytes (fst d))"
    using delivers_next(1) [OF Cons.prems(5,2)] by simp_all
  define s1 where "s1 = fold (daemon_step env) (map DPrepare (chunks 56 (dat ?a))) (do_call env (Lb (RbPoll PREPARES (- 1))) s)"
  have room: "due (tally_of s) + length (fst d) \<le> 1024" "length (snd d) < 2 ^ 31" using Cons.prems(4) by simp_all
  note r = loop_round [OF w Cons.prems(1) refl a(2) room(1), folded s1_def]
  let ?b = "env (hist s1) (Lb (RbPoll SUBMITS (- 1)))"
  have b: "rv ?b = int (length (snd d))" "dat ?b = concat (map (le_bytes 4) (snd d))"
    using delivers_next(2) [OF Cons.prems(5), of "hist s1"] Cons.prems(3) r(4) by simp_all
  define s2 where "s2 = fold (daemon_step env) (map DSubmit (chunks 4 (dat ?b))) (do_call env (Lb (RbPoll SUBMITS (- 1))) s1)"
  have s2: "s2 = fold (daemon_step env) (submit_records (snd d)) (do_call env (Lb (RbPoll SUBMITS (- 1))) s1)"
    by (simp add: s2_def b(2) record_chunks o_def)
  have t: "in_step s2" "tally_of s2 = served d (tally_of s)"
      "polls PREPARES (hist s2) = length (pre @ [d])" "polls SUBMITS (hist s2) = length (pre @ [d])"
    using submits_tally [OF w, of "do_call env (Lb (RbPoll SUBMITS (- 1))) s1" "snd d"] r Cons.prems(2,3)
    by (simp_all add: s2 served_def)
  have c: "c_int (rv ?a) = int (length (fst d))" "c_int (rv ?b) = int (length (snd d))"
    using a(1) b(1) room by simp_all
  have "user_loop env (Suc (length (d # ds))) err s = user_loop env (Suc (length ds)) (int (length (snd d))) s2"
    using c by (simp add: call_pair Let_def s1_def [symmetric] s2_def [symmetric])
  then show ?case using Cons.IH [OF t(1,3,4)] Cons.prems(4,5) t(2) by simp
qed

text \<open>libbpf and the kernel do what the start of the daemon asks for.\<close>

definition starts :: "sys_env \<Rightarrow> bool" where
  "starts env \<longleftrightarrow> (\<forall>h nm. rv (env h (Lb (SkelOpen nm))) \<noteq> 0) \<and> (\<forall>h nm. rv (env h (Lb (SkelLoad nm))) = 0)
     \<and> (\<forall>h p q path v m. rv (env h (Lb (AttachUsdt p q path v m))) \<noteq> 0) \<and> (\<forall>h. rv (env h (Px SignalInt)) = 0)
     \<and> (\<forall>h r. rv (env h (Lb (RbNew r))) \<noteq> 0) \<and> (\<forall>h m. rv (env h (Ur (QueueInit m))) = 0)"

definition no_tally :: tally where
  "no_tally = \<lparr>asked_for = [], due = 0, collected = 0\<rparr>"

lemma main_reaches_loop:
  assumes "starts env"
  shows "\<exists>s err. user_main env n = (let (err, s) = user_loop env n err s in user_cleanup env err s)
    \<and> in_step s \<and> tally_of s = no_tally \<and> polls PREPARES (hist s) = 0 \<and> polls SUBMITS (hist s) = 0"
proof -
  let ?main = "user_main env n"
  show ?thesis
    using assms
    by (simp add: starts_def user_main_def run_loader_def user_loader_def call_pair SIG_ERR_def user_tail_def Let_def)
      (intro exI conjI, rule refl, simp_all add: in_step_def tally_of_def no_tally_def prepared_def unsubmitted_def
        daemon_start_def is_seen_def polls_def)
qed

lemma served_totals:
  "asked_for (fold served ds t) = asked_for t @ map req_of (concat (map fst ds))
   \<and> collected (fold served ds t) + due (fold served ds t) = collected t + due t + length (concat (map fst ds))"
  by (induction ds arbitrary: t) (auto simp: served_def ask_for_def collect_def)

lemma daemon_run:
  assumes "starts env" and "ring_works env" and "delivers ds late env" and "fits ds late no_tally"
  shows "\<exists>s'. user_main env (Suc (length ds)) = Some (1, s') \<and> tally_of s' = ask_for late (fold served ds no_tally)"
proof -
  obtain s err where s: "user_main env (Suc (length ds)) = (let (err, s) = user_loop env (Suc (length ds)) err s in user_cleanup env err s)"
      "in_step s" "tally_of s = no_tally" "polls PREPARES (hist s) = 0" "polls SUBMITS (hist s) = 0"
    using main_reaches_loop [OF assms(1)] by blast
  obtain s' where "user_loop env (Suc (length ds)) err s = (INTERRUPTED, s')" "tally_of s' = ask_for late (fold served ds no_tally)"
    using loop_serves [OF assms(2), of "[]" ds late s err] assms(3,4) s(2-5) by auto
  then show ?thesis using s(1) by (simp add: user_cleanup_def exit_code_def INTERRUPTED_def Let_def del: user_loop.simps)
qed

text \<open>
  C4: a whole run of the daemon: when it starts, its ring works and never overflows, and the polls deliver
  some reads and batch marks until SIGINT interrupts a poll, then it exits with status 1; it has
  prepared every delivered read, in order; a completion was collected for each read that was there when
  a batch mark was polled, and the reads delivered after the last batch mark are still unsubmitted.
\<close>

theorem daemon_serves_deliveries:
  assumes "starts env" and "ring_works env" and "delivers ds late env" and "fits ds late no_tally"
  shows "\<exists>s'. user_main env (Suc (length ds)) = Some (1, s')
    \<and> prepared (hist s') = map req_of (concat (map fst ds) @ late)
    \<and> unsubmitted (hist s') = due (ask_for late (fold served ds no_tally))
    \<and> cnt is_seen (calls (hist s')) + unsubmitted (hist s') = length (concat (map fst ds) @ late)"
proof -
  obtain s' where s': "user_main env (Suc (length ds)) = Some (1, s')" "tally_of s' = ask_for late (fold served ds no_tally)"
    using daemon_run [OF assms] by blast
  have "asked_for (tally_of s') = prepared (hist s')" "due (tally_of s') = unsubmitted (hist s')"
      "collected (tally_of s') = cnt is_seen (calls (hist s'))" by (simp_all add: tally_of_def)
  then show ?thesis using s' served_totals [of ds no_tally] by (auto simp: ask_for_def no_tally_def)
qed

text \<open>An environment that delivers.\<close>

definition polled_env :: "delivery list \<Rightarrow> prep_info list \<Rightarrow> sys_env" where
  "polled_env ds late h e = (let is = (map fst ds @ [late]) ! polls PREPARES h; ps = snd (ds ! polls SUBMITS h) in
     case e of
       Lb (RbPoll r t) \<Rightarrow>
         if r = PREPARES then \<lparr>rv = int (length is), errno = 0, aux = 0, dat = concat (map prep_bytes is)\<rparr>
         else if polls SUBMITS h < length ds
         then \<lparr>rv = int (length ps), errno = 0, aux = 0, dat = concat (map (le_bytes 4) ps)\<rparr>
         else \<lparr>rv = INTERRUPTED, errno = 4, aux = 0, dat = []\<rparr>
     | Ur GetSqe \<Rightarrow> \<lparr>rv = (if unsubmitted h < 1024 then 1 else 0), errno = 0, aux = 0, dat = []\<rparr>
     | Lb (SkelOpen nm) \<Rightarrow> \<lparr>rv = 1, errno = 0, aux = 0, dat = []\<rparr>
     | Lb (AttachUsdt p q path v m) \<Rightarrow> \<lparr>rv = 1, errno = 0, aux = 0, dat = []\<rparr>
     | Lb (RbNew r) \<Rightarrow> \<lparr>rv = 1, errno = 0, aux = 0, dat = []\<rparr>
     | _ \<Rightarrow> \<lparr>rv = 0, errno = 0, aux = 0, dat = []\<rparr>)"

lemma polled_env_laws: "starts (polled_env ds late)" "ring_works (polled_env ds late)" "delivers ds late (polled_env ds late)"
  by (simp_all add: starts_def ring_works_def sq_law_def submit_law_def delivers_def polled_env_def Let_def)

theorem daemon_serves_deliveries_witness:
  "\<exists>s. user_main (polled_env [([read_info sample_call 1], [42]), ([], [])] [read_info sample_call 2]) 3 = Some (1, s)
    \<and> unsubmitted (hist s) = 1 \<and> cnt is_seen (calls (hist s)) = 1"
  using daemon_serves_deliveries [OF polled_env_laws, of "[([read_info sample_call 1], [42]), ([], [])]" "[read_info sample_call 2]"]
  by (simp add: served_def ask_for_def collect_def no_tally_def numeral_3_eq_3) force

text \<open>
  C5: a batch can be cut in two: the reads of one ClickHouse batch, of which the first poll finds \<open>m\<close> and
  the next one the others, are all prepared, but the batch mark, found between the two, submits only
  the first \<open>m\<close>; the rest waits for a later batch mark, and when SIGINT comes first it is never
  submitted. ClickHouse was told that all of its bytes were read.
\<close>

theorem split_batch_is_left:
  assumes "us_overridden u" and "hm_lookup (us_fd_map u) pid = None" and "hm_room pid (us_fd_map u)"
    and "\<forall>c \<in> set (c0 # cs). cur_pid c = pid" and "cur_pid b = pid"
    and log: "blog (snd (us_batchSubmit b (us_reads (c0 # cs) u))) = blog u @ lg"
    and "length cs < 1024" and m: "m \<le> length (c0 # cs)" and "starts env" and "ring_works env"
    and "delivers [(take m (prep_records lg), [pid])] (drop m (prep_records lg)) env"
  shows "ProbeWriteUser (parm1 b) (le_bytes 8 (sum_list (map parm5 (c0 # cs)))) \<in> set lg
    \<and> (\<exists>s'. user_main env 2 = Some (1, s') \<and> prepared (hist s') = map read_of (c0 # cs)
       \<and> cnt is_seen (calls (hist s')) = m \<and> unsubmitted (hist s') = length (c0 # cs) - m)"
proof -
  obtain lg' where lg': "blog (us_reads (c0 # cs) u) = blog u @ lg'" "map req_of (prep_records lg') = map read_of (c0 # cs)"
    using reads_log [OF assms(1), of "c0 # cs"] by blast
  have lg: "lg = lg' @ [ProbeWriteUser (parm1 b) (le_bytes 8 (sum_list (map parm5 (c0 # cs)))),
      RingbufOutput ''pread_submit_batch_ringbuf'' (le_bytes 4 pid)]"
    using log batch_log [OF assms(1-5)] lg'(1) by simp
  have len: "length (prep_records lg) = length (c0 # cs)" and req: "map req_of (prep_records lg) = map read_of (c0 # cs)"
    using lg lg'(2) map_eq_imp_length_eq [OF lg'(2)] by simp_all
  have "fits [(take m (prep_records lg), [pid])] (drop m (prep_records lg)) no_tally"
    using len assms(7) m by (simp add: served_def ask_for_def collect_def no_tally_def)
  from daemon_run [OF assms(9-11) this] obtain s' where s': "user_main env 2 = Some (1, s')"
      "tally_of s' = ask_for (drop m (prep_records lg)) (served (take m (prep_records lg), [pid]) no_tally)"
    by (auto simp: numeral_2_eq_2)
  have "map req_of (take m (prep_records lg)) @ map req_of (drop m (prep_records lg)) = map read_of (c0 # cs)"
    by (metis append_take_drop_id map_append req)
  with s' len m show ?thesis
    by (auto simp: lg tally_of_def served_def ask_for_def collect_def no_tally_def)
qed

theorem split_batch_is_left_witness:
  "\<exists>lg s. blog (snd (us_batchSubmit sample_call (us_reads (replicate 3 sample_call) (user_loaded\<lparr>us_overridden := True\<rparr>)))) = lg
    \<and> user_main (polled_env [(take 2 (prep_records lg), [42])] (drop 2 (prep_records lg))) 2 = Some (1, s)
    \<and> cnt is_seen (calls (hist s)) = 2 \<and> unsubmitted (hist s) = 1"
proof -
  let ?u = "user_loaded\<lparr>us_overridden := True\<rparr>"
  have cs: "replicate 3 sample_call = sample_call # [sample_call, sample_call]" by (simp add: numeral_3_eq_3)
  have u: "us_overridden ?u" "hm_lookup (us_fd_map ?u) 42 = None" "hm_room 42 (us_fd_map ?u)" "blog ?u = []"
    by (simp_all add: user_loaded_def hm_lookup_def hm_empty_def hm_room_def hm_keys_def)
  have c: "\<forall>c \<in> set (sample_call # [sample_call, sample_call]). cur_pid c = 42" "cur_pid sample_call = 42"
    by (simp_all add: sample_call_def cur_pid_def)
  define lg where "lg = blog (snd (us_batchSubmit sample_call (us_reads (sample_call # [sample_call, sample_call]) ?u)))"
  then have "blog (snd (us_batchSubmit sample_call (us_reads (sample_call # [sample_call, sample_call]) ?u))) = blog ?u @ lg"
    using u(4) by simp
  from split_batch_is_left [OF u(1-3) c this _ _ polled_env_laws, where m = 2]
  have "\<exists>s. user_main (polled_env [(take 2 (prep_records lg), [42])] (drop 2 (prep_records lg))) 2 = Some (1, s)
    \<and> cnt is_seen (calls (hist s)) = 2 \<and> unsubmitted (hist s) = 1" by force
  then show ?thesis unfolding cs lg_def by blast
qed

end
