(* ===== verification/Deployment.thy ===== *)
theory Deployment
  imports Loaders Batch_Bpf "HOL-Library.Multiset"
begin

text \<open>
  Loaders together with the BPF programs they load: the history of a loader says which program is
  attached to which probe, and a hit of a probe runs the programs attached to it.
\<close>

section \<open>Links\<close>

text \<open>Program, binary and probe of every USDT link the loader was given.\<close>

type_synonym link = "string \<times> string \<times> string"

fun usdt_link :: "sys_call \<times> answer \<Rightarrow> link list" where
  "usdt_link (Lb (AttachUsdt p q path v n), a) = (if rv a \<noteq> 0 then [(p, path, n)] else [])"
| "usdt_link _ = []"

definition usdt_links :: "history \<Rightarrow> link list" where
  "usdt_links h = concat (map usdt_link h)"

lemma usdt_links_simps [simp]:
  "usdt_links [] = []" "usdt_links (h @ h') = usdt_links h @ usdt_links h'"
  "usdt_links (e # h) = usdt_link e @ usdt_links h"
  by (simp_all add: usdt_links_def)

fun planned :: "attach_step \<Rightarrow> link list" where
  "planned (Usdt p path n m) = [(p, path, n)]"
| "planned (UsdtKeep p path n m) = [(p, path, n)]"
| "planned _ = []"

definition is_usdt :: "attach_step \<Rightarrow> bool" where
  "is_usdt p \<longleftrightarrow> planned p \<noteq> []"

lemma attach_all_links:
  "list_all is_usdt ps \<Longrightarrow> attach_all att env ps err s = (True, err', s') \<Longrightarrow>
     usdt_links (hist s') = usdt_links (hist s) @ concat (map planned ps)"
proof (induction ps arbitrary: err s)
  case (Cons p ps)
  obtain b e1 s1 where d: "do_step att env p err s = (b, e1, s1)" by (cases "do_step att env p err s") auto
  with Cons.prems(2) have b: "b" "attach_all att env ps e1 s1 = (True, err', s')" by (auto split: bool.splits)
  have "usdt_links (hist s1) = usdt_links (hist s) @ planned p"
    using d b(1) Cons.prems(1) by (cases p) (auto simp: is_usdt_def call_pair Let_def split: if_splits)
  then show ?case using Cons.IH [OF _ b(2)] Cons.prems(1) by simp
qed simp

lemma sleep_links: "usdt_links (hist ((do_call env (Px (Sleep k)) ^^ n) s)) = usdt_links (hist s)"
  by (induction n) simp_all

text \<open>What \<open>batch.c\<close> leaves attached when it exits with 0.\<close>

lemma batch_links:
  assumes "errno_law env" and "batch_main env n = Some (0, s')"
  shows "usdt_links (hist s') = [(''readCount'', CLICKHOUSE_SERVER, ''readCount''), (''preadRaw'', CLICKHOUSE, ''preadRaw''),
    (''batchSubmit'', CLICKHOUSE, ''batchSubmit''), (''readS'', CLICKHOUSE, ''readS''), (''main_entry'', CLICKHOUSE, ''batchSubmit'')]"
proof -
  have plan: "list_all sets_err (ld_plan batch_loader)" "list_all is_usdt (ld_plan batch_loader)"
    by (simp_all add: batch_loader_def sets_err_def is_usdt_def)
  obtain t s1 where t: "t = do_call env (Lb (SkelLoad (ld_name batch_loader)))
        (do_call env (Lb (SkelOpen (ld_name batch_loader))) (do_call env (Lb SetPrint) fresh))"
      "attach_all bpf_prog_attach_uprobe_with_override env (ld_plan batch_loader) 0 t = (True, 0, s1)"
      "sleep_tail ''batch'' env n 0 (do_call env (Px SignalInt) s1) = Some (0, s')"
    using io_att.exit_zero_run [OF assms(1) plan(1) assms(2) [unfolded batch_main_def]] good_tailD [OF good_sleep] by blast
  have "usdt_links (hist s') = usdt_links (hist s1)"
    using t(3) by (auto simp: sleep_tail_def plain_cleanup_def sleep_links)
  also have "\<dots> = concat (map planned (ld_plan batch_loader))"
    using attach_all_links [OF plan(2) t(2)] t(1) by (simp add: fresh_def)
  finally show ?thesis by (simp add: batch_loader_def)
qed

section \<open>A hit of a probe\<close>

definition links_at :: "string \<Rightarrow> string \<Rightarrow> link list \<Rightarrow> link list" where
  "links_at path probe links = filter (\<lambda>(p, b, n). b = path \<and> n = probe) links"

definition hit :: "(string \<Rightarrow> bpf_ctx \<Rightarrow> 's \<Rightarrow> 's) \<Rightarrow> link list \<Rightarrow> string \<Rightarrow> string \<Rightarrow> bpf_ctx \<Rightarrow> 's \<Rightarrow> 's" where
  "hit prog links path probe c s = fold (\<lambda>l. prog (fst l) c) (links_at path probe links) s"

definition batch_prog :: "bpf_env \<Rightarrow> string \<Rightarrow> bpf_ctx \<Rightarrow> batch \<Rightarrow> batch" where
  "batch_prog env p c s =
     (if p = ''readCount'' then snd (bb_readCount c s)
      else if p = ''preadRaw'' then snd (bb_preadRaw env c s)
      else if p = ''batchSubmit'' then snd (bb_batchSubmit c s)
      else if p = ''readS'' then snd (bb_readS c s)
      else if p = ''main_entry'' then snd (main_entry s)
      else s)"

text \<open>The links in any order: the runtime does not say in which order programs at one probe run.\<close>

lemma links_at_perm: "mset links = mset ls \<Longrightarrow> mset (links_at path probe links) = mset (links_at path probe ls)"
  by (simp add: links_at_def)

lemma one_link: "mset links = mset ls \<Longrightarrow> links_at path probe ls = [l] \<Longrightarrow> links_at path probe links = [l]"
  using links_at_perm [of links ls path probe] by simp

lemma two_links:
  assumes "mset links = mset ls" and "links_at path probe ls = [l, m]"
  shows "links_at path probe links \<in> {[l, m], [m, l]}"
proof -
  have e: "mset (links_at path probe links) = {#l, m#}" using links_at_perm [OF assms(1)] assms(2) by simp
  have "length (links_at path probe links) = 2" using arg_cong [OF e, of size] by simp
  then obtain a b where "links_at path probe links = [a, b]" by (auto simp: numeral_2_eq_2 length_Suc_conv)
  with e show ?thesis by (auto simp: add_mset_eq_single add_eq_conv_ex)
qed

section \<open>The probes of batch.c, deployed\<close>

lemma deployed_hits:
  assumes "errno_law lenv" and "batch_main lenv n = Some (0, s')" and "mset links = mset (usdt_links (hist s'))"
  shows "hit (batch_prog env) links CLICKHOUSE ''readS'' c s = snd (bb_readS c s)"
    and "hit (batch_prog env) links CLICKHOUSE ''preadRaw'' c s = snd (bb_preadRaw env c s)"
    and "hit (batch_prog env) links CLICKHOUSE ''batchSubmit'' c s
        \<in> {snd (main_entry (snd (bb_batchSubmit c s))), snd (bb_batchSubmit c (snd (main_entry s)))}"
proof -
  note m = assms(3) [unfolded batch_links [OF assms(1,2)]]
  have "links_at CLICKHOUSE ''readS'' links = [(''readS'', CLICKHOUSE, ''readS'')]"
      "links_at CLICKHOUSE ''preadRaw'' links = [(''preadRaw'', CLICKHOUSE, ''preadRaw'')]"
    by (rule one_link [OF m], simp add: links_at_def CLICKHOUSE_def CLICKHOUSE_SERVER_def)+
  then show "hit (batch_prog env) links CLICKHOUSE ''readS'' c s = snd (bb_readS c s)"
    "hit (batch_prog env) links CLICKHOUSE ''preadRaw'' c s = snd (bb_preadRaw env c s)"
    by (simp_all add: hit_def batch_prog_def)
  have "links_at CLICKHOUSE ''batchSubmit'' links \<in>
      {[(''batchSubmit'', CLICKHOUSE, ''batchSubmit''), (''main_entry'', CLICKHOUSE, ''batchSubmit'')],
       [(''main_entry'', CLICKHOUSE, ''batchSubmit''), (''batchSubmit'', CLICKHOUSE, ''batchSubmit'')]}"
    by (rule two_links [OF m]) (simp add: links_at_def CLICKHOUSE_def CLICKHOUSE_SERVER_def)
  then show "hit (batch_prog env) links CLICKHOUSE ''batchSubmit'' c s
      \<in> {snd (main_entry (snd (bb_batchSubmit c s))), snd (bb_batchSubmit c (snd (main_entry s)))}"
    by (auto simp: hit_def batch_prog_def)
qed

lemma bb_reads_queue:
  assumes "hm_lookup (submit_map s) pid \<noteq> None" and "\<forall>c \<in> set cs. cur_pid c = pid"
    and "acct env (blog s) = Some (q, 0)"
  shows "\<exists>k. acct env (blog (bb_reads env cs s)) = Some (k, 0) \<and> k \<le> q + length cs
    \<and> cnt is_request (blog (bb_reads env cs s)) = cnt is_request (blog s) + length cs
    \<and> (UringInit \<in> set (blog (bb_reads env cs s)) \<longleftrightarrow> UringInit \<in> set (blog s))"
  using assms
proof (induction cs arbitrary: s q)
  case (Cons c cs)
  obtain i where i: "hm_lookup (submit_map s) (cur_pid c) = Some i" using Cons.prems(1,2) by auto
  let ?s = "snd (bb_preadRaw env c s)"
  note lg = bb_preadRaw_log [OF i, of env]
  have "acct env (blog s @ [ProbeWriteUser (parm4 c) [1]]) = Some (q, 0)" using Cons.prems(3) by (simp add: acct_neutral)
  from acct_request [of "SubmitPread (to_int (parm1 c)) (ps_dest i) (parm5 c) 0", OF _ this]
  obtain q' where q': "acct env (blog ?s) = Some (q', 0)" "q' \<le> q + 1" by (auto simp: lg)
  have "hm_lookup (submit_map ?s) pid \<noteq> None" using bb_preadRaw_keeps_info [OF i, of env] Cons.prems(2) by auto
  from Cons.IH [OF this _ q'(1)] Cons.prems(2) q'(2) show ?case by (auto simp: bb_reads_def lg)
qed (simp add: bb_reads_def)



section \<open>The counter of clickhouse-uring.c\<close>

text \<open>
  \<open>clickhouse-uring.c\<close> and its probes share the map \<open>op_count\<close>: the loader stores 79 and prints the
  counter every second. \<open>evss\<close> are the events of each second.
\<close>

definition lookups :: "history \<Rightarrow> nat" where
  "lookups h = cnt (\<lambda>e. case e of Lb (MapLookup fd k) \<Rightarrow> True | _ \<Rightarrow> False) (calls h)"

definition shown :: "history \<Rightarrow> int list" where
  "shown h = concat (map (\<lambda>e. case e of Px (PrintInt m v) \<Rightarrow> if m = ''op_count: %u'' then [v] else [] | _ \<Rightarrow> []) (calls h))"

lemma shown_simps [simp]:
  "shown [] = []" "shown (h @ h') = shown h @ shown h'"
  "shown ((e, a) # h) = (case e of Px (PrintInt m v) \<Rightarrow> if m = ''op_count: %u'' then [v] else [] | _ \<Rightarrow> []) @ shown h"
  by (simp_all add: shown_def)

lemma lookups_simps [simp]:
  "lookups [] = 0" "lookups (h @ h') = lookups h + lookups h'"
  "lookups ((e, a) # h) = (case e of Lb (MapLookup fd k) \<Rightarrow> 1 | _ \<Rightarrow> 0) + lookups h"
  by (auto simp: lookups_def split: sys_call.split libbpf_call.split)

definition ch_run :: "ch_ev list \<Rightarrow> pend \<Rightarrow> pend" where
  "ch_run es s = fold (\<lambda>e s. snd (ch_step e s)) es s"

definition seeded :: pend where
  "seeded = pend_loaded\<lparr>op_count := snd (am_update (op_count pend_loaded) 0 79)\<rparr>"

definition shares_counter :: "ch_ev list list \<Rightarrow> sys_env \<Rightarrow> bool" where
  "shares_counter evss env \<longleftrightarrow> (\<forall>h fd. lookups h < length evss \<longrightarrow>
     rv (env h (Lb (MapLookup fd 0))) = 0
     \<and> aux (env h (Lb (MapLookup fd 0))) = uint (op_count (ch_run (concat (take (Suc (lookups h)) evss)) seeded) ! 0))"

lemma attach_quiet:
  "shown (hist (snd (bpf_prog_attach_uprobe_with_override env p path f s))) = shown (hist s)
   \<and> lookups (hist (snd (bpf_prog_attach_uprobe_with_override env p path f s))) = lookups (hist s)"
  by (auto simp: bpf_prog_attach_uprobe_with_override_def bpf_prog_attach_with_override_def
      perf_event_open_with_override_def call_pair Let_def)

lemma do_step_quiet:
  assumes "do_step bpf_prog_attach_uprobe_with_override env p err s = (b, err', s')"
  shows "shown (hist s') = shown (hist s) \<and> lookups (hist s') = lookups (hist s)"
proof (cases p)
  case (Override g path f m)
  then show ?thesis using assms attach_quiet [of env g path f s]
    by (auto simp: Let_def split: prod.splits if_splits)
qed (use assms in \<open>auto simp: call_pair Let_def split: if_splits\<close>)

lemma attach_all_quiet:
  "attach_all bpf_prog_attach_uprobe_with_override env ps err s = (b, err', s') \<Longrightarrow>
     shown (hist s') = shown (hist s) \<and> lookups (hist s') = lookups (hist s)"
proof (induction ps arbitrary: err s)
  case (Cons p ps)
  obtain b1 e1 s1 where d: "do_step bpf_prog_attach_uprobe_with_override env p err s = (b1, e1, s1)"
    by (cases "do_step bpf_prog_attach_uprobe_with_override env p err s") auto
  then show ?case using do_step_quiet [OF d] Cons.IH [of e1 s1] Cons.prems by (cases b1) auto
qed simp

lemma show_loop:
  assumes "shares_counter evss env" and "lookups (hist s) = 0"
  shows "n \<le> length evss \<Longrightarrow>
    shown (hist (((\<lambda>s. do_call env (Px (Sleep 1)) (show_op_count env fd s)) ^^ n) s))
      = shown (hist s) @ map (\<lambda>k. uint (op_count (ch_run (concat (take (Suc k) evss)) seeded) ! 0)) [0..<n]
    \<and> lookups (hist (((\<lambda>s. do_call env (Px (Sleep 1)) (show_op_count env fd s)) ^^ n) s)) = n"
proof (induction n)
  case (Suc n)
  let ?u = "((\<lambda>s. do_call env (Px (Sleep 1)) (show_op_count env fd s)) ^^ n) s"
  have IH: "lookups (hist ?u) = n" "shown (hist ?u) = shown (hist s)
      @ map (\<lambda>k. uint (op_count (ch_run (concat (take (Suc k) evss)) seeded) ! 0)) [0..<n]" using Suc by simp_all
  then have "rv (env (hist ?u) (Lb (MapLookup fd 0))) = 0"
      "aux (env (hist ?u) (Lb (MapLookup fd 0))) = uint (op_count (ch_run (concat (take (Suc n) evss)) seeded) ! 0)"
    using assms(1) Suc.prems by (simp_all add: shares_counter_def)
  then show ?case using IH by (simp add: show_op_count_def call_pair)
qed (simp add: assms(2))


lemma overrides_attach:
  assumes "\<forall>h p f. rv (env h (Lb (ElfFindFunc p f))) = 0" and "\<forall>h a i j k. rv (env h (Lb (PerfEventOpen a i j k))) = 0"
    and "\<forall>h p fd. rv (env h (Lb (ProgAttach p fd))) = 0"
  shows "list_all (\<lambda>p. \<exists>g path f m. p = Override g path f m) ps \<Longrightarrow>
    \<exists>s'. attach_all bpf_prog_attach_uprobe_with_override env ps 0 s = (True, 0, s')"
proof (induction ps arbitrary: s)
  case (Cons p ps)
  have "fst (bpf_prog_attach_uprobe_with_override env g path f s) = 0" for g path f
    using assms by (simp add: bpf_prog_attach_uprobe_with_override_def bpf_prog_attach_with_override_def
        perf_event_open_with_override_def PERF_UPROBE_REF_CTR_OFFSET_BITS_def call_pair Let_def)
  then have "\<exists>s'. do_step bpf_prog_attach_uprobe_with_override env p 0 s = (True, 0, s')"
    using Cons.prems by (auto simp: Let_def split: prod.split) (metis fst_conv)+
  then show ?case using Cons.IH Cons.prems by fastforce
qed simp


end
