(* ===== verification/Tp_Run.thy ===== *)
theory Tp_Run
  imports Deployment
begin

text \<open>
  The whole run of \<open>tp.c\<close> over the probes of \<open>tp.bpf.c\<close>: the programs attached at the time run at every hit,
  the counter that is printed every second is theirs, and so are the records that a poll finds.
\<close>

section \<open>The programs at the probes\<close>

definition tp_prog :: "string \<Rightarrow> bpf_ctx \<Rightarrow> pend \<Rightarrow> pend" where
  "tp_prog p c s =
     (if p = ''bpf_start_patch'' then snd (tp_start_patch s)
      else if p = ''read_bytes_count'' then snd (tp_read_bytes_count s)
      else if p = ''read_from_task'' then snd (tp_read_from_task s)
      else if p = ''read_strict'' then snd (tp_read_strict s)
      else s)"

type_synonym probe_hit = "string \<times> string \<times> bpf_ctx"

definition tp_state :: "link list \<Rightarrow> probe_hit list \<Rightarrow> pend" where
  "tp_state links hs = fold (\<lambda>(path, probe, c). hit tp_prog links path probe c) hs pend_loaded"

definition records :: "bpf_ev list \<Rightarrow> u8 list list" where
  "records lg = concat (map (\<lambda>e. case e of RingbufSubmit rb d \<Rightarrow> [d] | _ \<Rightarrow> []) lg)"

text \<open>
  The kernel and the runtime, when \<open>hss\<close> are the hits of each second: a lookup reads the counter of the
  attached programs, and a poll finds the records they submitted since the poll before.
\<close>

definition runs_probes :: "probe_hit list list \<Rightarrow> sys_env \<Rightarrow> bool" where
  "runs_probes hss env \<longleftrightarrow>
     (\<forall>h fd. lookups h < length hss \<longrightarrow>
        rv (env h (Lb (MapLookup fd 0))) = 0 \<and>
        aux (env h (Lb (MapLookup fd 0))) = uint (op_count (tp_state (usdt_links h) (concat (take (Suc (lookups h)) hss))) ! 0))
   \<and> (\<forall>h k. lookups h = Suc k \<and> k < length hss \<longrightarrow>
        (let old = records (blog (tp_state (usdt_links h) (concat (take k hss))));
             rs = drop (length old) (records (blog (tp_state (usdt_links h) (concat (take (Suc k) hss)))));
             a = env h (Lb (RbPoll ''ringbuf'' 100))
         in rv a = int (length rs) \<and> dat a = concat rs))"

definition tp_links :: "link list" where
  "tp_links = [(''read_from_task'', CLICKHOUSE, ''preadRaw''), (''read_from_task'', CLICKHOUSE, ''batchSubmit'')]"

definition counted_hit :: "probe_hit \<Rightarrow> bool" where
  "counted_hit x \<longleftrightarrow> fst x = CLICKHOUSE \<and> fst (snd x) \<in> {''preadRaw'', ''batchSubmit''}"

lemma tp_hit:
  "hit tp_prog tp_links path probe c s = (if counted_hit (path, probe, c) then bump_count s else s)"
  by (auto simp: hit_def links_at_def tp_links_def counted_hit_def tp_prog_def tp_read_from_task_def)

lemma tp_state_counts: "tp_state tp_links hs = pend_loaded\<lparr>op_count := [of_nat (cnt counted_hit hs)]\<rparr>"
proof (induction hs rule: rev_induct)
  case Nil
  then show ?case by (simp add: tp_state_def pend_loaded_def)
next
  case (snoc x hs)
  obtain path probe c where "x = (path, probe, c)" using prod_cases3 by blast
  then show ?case using snoc.IH by (simp add: tp_state_def tp_hit bump_count_eq)
qed

section \<open>The run\<close>

definition lines_of :: "history \<Rightarrow> string list" where
  "lines_of h = concat (map (\<lambda>e. case e of Px (Print m) \<Rightarrow> [m] | _ \<Rightarrow> []) (calls h))"

lemma lines_of_simps [simp]:
  "lines_of [] = []" "lines_of (h @ h') = lines_of h @ lines_of h'"
  "lines_of ((e, a) # h) = (case e of Px (Print m) \<Rightarrow> [m] | _ \<Rightarrow> []) @ lines_of h"
  by (simp_all add: lines_of_def)

lemma runs_probes_count:
  assumes "runs_probes hss env" and "usdt_links (hist s) = tp_links" and "lookups (hist s) < length hss"
  shows "rv (env (hist s) (Lb (MapLookup fd 0))) = 0
    \<and> aux (env (hist s) (Lb (MapLookup fd 0))) = int (cnt counted_hit (concat (take (Suc (lookups (hist s))) hss)) mod 2 ^ 32)"
proof -
  note l = assms(1) [unfolded runs_probes_def, THEN conjunct1, rule_format, OF assms(3), of fd]
  then show ?thesis by (simp only: assms(2) tp_state_counts) (simp add: uint_nat unat_of_nat)
qed

lemma runs_probes_quiet:
  assumes "runs_probes hss env" and "usdt_links (hist s) = tp_links" and "lookups (hist s) = Suc k" and "k < length hss"
  shows "rv (env (hist s) (Lb (RbPoll ''ringbuf'' 100))) = 0 \<and> dat (env (hist s) (Lb (RbPoll ''ringbuf'' 100))) = []"
proof -
  have q: "records (blog (tp_state tp_links hs)) = []" for hs
    by (simp add: tp_state_counts records_def pend_loaded_def)
  have "lookups (hist s) = Suc k \<and> k < length hss" using assms(3,4) by simp
  note l = assms(1) [unfolded runs_probes_def, THEN conjunct2, rule_format, OF this]
  then show ?thesis by (simp add: Let_def assms(2) q)
qed

lemma tp_round:
  assumes "runs_probes hss env" and "usdt_links (hist s) = tp_links" and "lookups (hist s) = k" and "k < length hss"
  shows "\<exists>s'. tp_loop env fd (Suc n) err s = tp_loop env fd n 0 s' \<and> usdt_links (hist s') = tp_links
    \<and> lookups (hist s') = Suc k \<and> lines_of (hist s') = lines_of (hist s)
    \<and> shown (hist s') = shown (hist s) @ [int (cnt counted_hit (concat (take (Suc k) hss)) mod 2 ^ 32)]"
proof -
  let ?s = "do_call env (Px (Sleep 1)) s"
  have look: "rv (env (hist ?s) (Lb (MapLookup fd 0))) = 0"
      "aux (env (hist ?s) (Lb (MapLookup fd 0))) = int (cnt counted_hit (concat (take (Suc k) hss)) mod 2 ^ 32)"
    using runs_probes_count [OF assms(1), of ?s fd] assms(2-4) by simp_all
  define u where "u = do_call env (Px (PrintInt ''op_count: %u'' (aux (env (hist ?s) (Lb (MapLookup fd 0))))))
      (do_call env (Lb (MapLookup fd 0)) ?s)"
  have u: "show_op_count env fd ?s = u" using look(1) by (simp add: show_op_count_def call_pair u_def)
  have links: "usdt_links (hist u) = tp_links" "lookups (hist u) = Suc k" using assms(2,3) by (simp_all add: u_def)
  then have poll: "rv (env (hist u) (Lb (RbPoll ''ringbuf'' 100))) = 0" "dat (env (hist u) (Lb (RbPoll ''ringbuf'' 100))) = []"
    using runs_probes_quiet [OF assms(1) links assms(4)] by simp_all
  have "tp_loop env fd (Suc n) err s = tp_loop env fd n 0 (do_call env (Lb (RbPoll ''ringbuf'' 100)) u)"
    using poll by (simp add: u call_pair Let_def del: One_nat_def)
  then show ?thesis using links look(2)
    by (intro exI [of _ "do_call env (Lb (RbPoll ''ringbuf'' 100)) u"]) (simp add: u_def del: One_nat_def)
qed

lemma tp_rounds:
  assumes "runs_probes hss env"
  shows "usdt_links (hist s) = tp_links \<Longrightarrow> lookups (hist s) = k \<Longrightarrow> k + n = length hss \<Longrightarrow>
    \<exists>s'. tp_loop env fd n 0 s = (0, s') \<and> usdt_links (hist s') = tp_links \<and> lines_of (hist s') = lines_of (hist s)
      \<and> shown (hist s') = shown (hist s) @ map (\<lambda>k. int (cnt counted_hit (concat (take (Suc k) hss)) mod 2 ^ 32)) [k..<length hss]"
proof (induction n arbitrary: k s)
  case (Suc n)
  obtain s1 where s1: "tp_loop env fd (Suc n) 0 s = tp_loop env fd n 0 s1" "usdt_links (hist s1) = tp_links"
      "lookups (hist s1) = Suc k" "lines_of (hist s1) = lines_of (hist s)"
      "shown (hist s1) = shown (hist s) @ [int (cnt counted_hit (concat (take (Suc k) hss)) mod 2 ^ 32)]"
    using tp_round [OF assms Suc.prems(1,2), of fd n 0] Suc.prems(3) by auto
  have "[k..<length hss] = k # [Suc k..<length hss]" using Suc.prems(3) by (simp add: upt_conv_Cons)
  then show ?case using Suc.IH [OF s1(2,3)] s1(1,4,5) Suc.prems(3) by (auto simp del: tp_loop.simps)
qed simp

text \<open>What the start of \<open>tp.c\<close> asks of libbpf and the kernel.\<close>

definition tp_starts :: "sys_env \<Rightarrow> bool" where
  "tp_starts env \<longleftrightarrow> (\<forall>h nm. rv (env h (Lb (SkelOpen nm))) \<noteq> 0) \<and> (\<forall>h nm. rv (env h (Lb (SkelLoad nm))) = 0)
     \<and> (\<forall>h p q path v m. rv (env h (Lb (AttachUsdt p q path v m))) \<noteq> 0) \<and> (\<forall>h. rv (env h (Px SignalInt)) = 0)
     \<and> (\<forall>h m. rv (env h (Lb (MapFd m))) = 0) \<and> (\<forall>h r. rv (env h (Lb (RbNew r))) \<noteq> 0)"

text \<open>
  C39: a whole run of \<open>tp.c\<close>: when it starts and its probes are hit in whatever way for as many seconds as
  there are lists of hits, it exits with 0, and the number printed each second is that of the hits of
  \<open>preadRaw\<close> and \<open>batchSubmit\<close> so far, modulo 2 to the 32. It says that the fork tracepoint is attached,
  but the two USDT links are all there is, and no fork event is ever printed.
\<close>

theorem tp_counts_hits:
  assumes "tp_starts env" and "runs_probes hss env"
  shows "\<exists>s'. tp_main env (length hss) = Some (0, s')
    \<and> shown (hist s') = map (\<lambda>k. int (cnt counted_hit (concat (take (Suc k) hss)) mod 2 ^ 32)) [0..<length hss]
    \<and> lines_of (hist s') = [''fork tracepoint attached'', ''Map found'', ''Ring buffer created'']
    \<and> usdt_links (hist s') = tp_links"
proof -
  obtain fd s where s: "tp_main env (length hss) = (let (err, s) = tp_loop env fd (length hss) 0 s in tp_cleanup env err s)"
      "usdt_links (hist s) = tp_links" "lookups (hist s) = 0" "shown (hist s) = []"
      "lines_of (hist s) = [''fork tracepoint attached'', ''Map found'', ''Ring buffer created'']"
    using assms(1)
    by (simp add: tp_starts_def tp_main_def run_loader_def tp_loader_def call_pair SIG_ERR_def tp_tail_def Let_def)
      (auto simp: tp_links_def fresh_def)
  obtain s' where "tp_loop env fd (length hss) 0 s = (0, s')" "usdt_links (hist s') = tp_links" "lines_of (hist s') = lines_of (hist s)"
      "shown (hist s') = map (\<lambda>k. int (cnt counted_hit (concat (take (Suc k) hss)) mod 2 ^ 32)) [0..<length hss]"
    using tp_rounds [OF assms(2) s(2,3), of "length hss" fd] s(4) by auto
  then show ?thesis using s(1,5) by (simp add: tp_cleanup_def exit_code_def)
qed

text \<open>An environment that runs the probes it was given.\<close>

definition probes_env :: "probe_hit list list \<Rightarrow> sys_env" where
  "probes_env hss h e =
     (let st = (\<lambda>k. tp_state (usdt_links h) (concat (take k hss)));
          rs = drop (length (records (blog (st (lookups h - 1))))) (records (blog (st (lookups h)))) in
      case e of
        Lb (SkelOpen nm) \<Rightarrow> \<lparr>rv = 1, errno = 0, aux = 0, dat = []\<rparr>
      | Lb (AttachUsdt p q path v m) \<Rightarrow> \<lparr>rv = 1, errno = 0, aux = 0, dat = []\<rparr>
      | Lb (RbNew r) \<Rightarrow> \<lparr>rv = 1, errno = 0, aux = 0, dat = []\<rparr>
      | Lb (MapLookup fd k) \<Rightarrow> \<lparr>rv = 0, errno = 0, aux = uint (op_count (st (Suc (lookups h))) ! 0), dat = []\<rparr>
      | Lb (RbPoll r t) \<Rightarrow> \<lparr>rv = int (length rs), errno = 0, aux = 0, dat = concat rs\<rparr>
      | _ \<Rightarrow> \<lparr>rv = 0, errno = 0, aux = 0, dat = []\<rparr>)"

lemma probes_env_laws: "tp_starts (probes_env hss)" "runs_probes hss (probes_env hss)"
  by (simp_all add: tp_starts_def runs_probes_def probes_env_def Let_def)

theorem tp_counts_hits_witness:
  "\<exists>hss s. tp_main (probes_env hss) 2 = Some (0, s) \<and> shown (hist s) = [1, 3]"
proof -
  let ?c = "bb_ctx 0"
  let ?hss = "[[(CLICKHOUSE, ''preadRaw'', ?c), (CLICKHOUSE, ''readS'', ?c)],
    [(CLICKHOUSE, ''preadRaw'', ?c), (CLICKHOUSE, ''batchSubmit'', ?c)]]"
  have len: "length ?hss = 2" by simp
  obtain s where "tp_main (probes_env ?hss) 2 = Some (0, s)"
      "shown (hist s) = map (\<lambda>k. int (cnt counted_hit (concat (take (Suc k) ?hss)) mod 2 ^ 32)) [0..<2]"
    using tp_counts_hits [OF probes_env_laws, of ?hss] unfolding len by blast
  then have "tp_main (probes_env ?hss) 2 = Some (0, s)" "shown (hist s) = [1, 3]"
    by (simp_all add: upt_rec counted_hit_def)
  then show ?thesis by blast
qed

end
