(* ===== verification/Core_Copies.thy ===== *)
theory Core_Copies
  imports Pending_Ops
begin

text \<open>
  The copies of the batching core in \<open>IO_syscall_patch/clickhouse-uring.bpf.c\<close> and \<open>tp.bpf.c\<close>, which their
  handlers do not call any more. Both are the core of \<open>backup.bpf.c\<close>: a change to one of the three
  copies breaks the lemmas below.
\<close>

section \<open>clickhouse-uring.bpf.c\<close>

definition ch_BATCH_SIZE :: u32 where
  "ch_BATCH_SIZE = 1024"

function ch_reap_loop :: "u32 \<Rightarrow> 'a pend_scheme \<Rightarrow> 'a pend_scheme option" where
  "ch_reap_loop i s = do {
     count \<leftarrow> am_lookup (op_count s) 0;
     if i < count then ch_reap_loop (i + 1) (emit WaitAndSeen s) else Some s }"
  by pat_completeness auto

termination
  by (relation "measure (\<lambda>(i, s). unat (the (am_lookup (op_count s) 0)) - unat i)")
    (auto simp: unat_suc_less word_less_nat_alt)

declare ch_reap_loop.simps [simp del]

definition ch_handle_unbatched_ops :: "'a pend_scheme \<Rightarrow> (int \<times> 'a pend_scheme) option" where
  "ch_handle_unbatched_ops s = do {
     s \<leftarrow> ch_reap_loop 0 (emit USubmit s);
     Some (0, s\<lparr>op_count := snd (am_update (op_count s) 0 0)\<rparr>) }"

definition ch_submit_if_batch_full :: "'a pend_scheme \<Rightarrow> (int \<times> 'a pend_scheme) option" where
  "ch_submit_if_batch_full s = (case am_lookup (op_count s) 0 of
     None \<Rightarrow> Some (0, s)
   | Some count \<Rightarrow>
       if count < ch_BATCH_SIZE then Some (0, s)
       else do { s \<leftarrow> ch_reap_loop 0 (emit USubmit s); Some (1, s) })"

definition ch_add_pending_op ::
    "uring_check_data \<Rightarrow> 'a pend_scheme \<Rightarrow> (uring_check_data option \<times> 'a pend_scheme) option" where
  "ch_add_pending_op op s = do {
     seq \<leftarrow> am_lookup (global_seq_num s) 0;
     let op = op\<lparr>cd_seq_num := seq\<rparr>;
     let s = s\<lparr>global_seq_num := am_store (global_seq_num s) 0 (seq + 1)\<rparr>;
     let s = s\<lparr>global_seq_num := snd (am_update (global_seq_num s) 0 (seq + 1))\<rparr>;
     count \<leftarrow> am_lookup (op_count s) 0;
     let s = s\<lparr>op_count := am_store (op_count s) 0 (count + 1)\<rparr>;
     let s = s\<lparr>op_count := snd (am_update (op_count s) 0 (count + 1))\<rparr>;
     let s = s\<lparr>inode_map := snd (hm_update (inode_map s) (count + 1) op)\<rparr>;
     (res, s) \<leftarrow> ch_submit_if_batch_full s;
     count \<leftarrow> am_lookup (op_count s) 0;
     (case hm_lookup (inode_map s) count of
        None \<Rightarrow> Some (None, emit (Printk ''op_stale is NULL'') s)
      | Some op_stale \<Rightarrow>
          Some (Some op_stale,
            if res \<noteq> 0 then s\<lparr>op_count := snd (am_update (op_count s) 0 0)\<rparr> else s)) }"

lemma ch_reap_loop_core: "ch_reap_loop i s = reap_loop i s"
proof (induction i s rule: reap_loop.induct)
  case (1 i s)
  then show ?case
    by (subst ch_reap_loop.simps, subst reap_loop.simps) (simp split: option.split)
qed

lemmas ch_core = ch_BATCH_SIZE_def BATCH_SIZE_def ch_reap_loop_core

lemma ch_core_agrees:
  "ch_handle_unbatched_ops s = handle_unbatched_ops s"
  "ch_submit_if_batch_full s = submit_if_batch_full s"
  "ch_add_pending_op op s = add_pending_op op s"
proof -
  show submit: "ch_submit_if_batch_full s = submit_if_batch_full s" for s :: "'a pend_scheme"
    by (simp add: ch_submit_if_batch_full_def submit_if_batch_full_def ch_core split: option.split)
  show "ch_handle_unbatched_ops s = handle_unbatched_ops s"
    by (simp add: ch_handle_unbatched_ops_def handle_unbatched_ops_def ch_core Let_def)
  show "ch_add_pending_op op s = add_pending_op op s"
    by (simp only: ch_add_pending_op_def add_pending_op_def submit Let_def)
qed

section \<open>tp.bpf.c\<close>

definition tp_BATCH_SIZE :: u32 where
  "tp_BATCH_SIZE = 1024"

function tp_reap_loop :: "u32 \<Rightarrow> 'a pend_scheme \<Rightarrow> 'a pend_scheme option" where
  "tp_reap_loop i s = do {
     count \<leftarrow> am_lookup (op_count s) 0;
     if i < count then tp_reap_loop (i + 1) (emit WaitAndSeen s) else Some s }"
  by pat_completeness auto

termination
  by (relation "measure (\<lambda>(i, s). unat (the (am_lookup (op_count s) 0)) - unat i)")
    (auto simp: unat_suc_less word_less_nat_alt)

declare tp_reap_loop.simps [simp del]

definition tp_handle_unbatched_ops :: "'a pend_scheme \<Rightarrow> (int \<times> 'a pend_scheme) option" where
  "tp_handle_unbatched_ops s = do {
     s \<leftarrow> tp_reap_loop 0 (emit USubmit s);
     Some (0, s\<lparr>op_count := snd (am_update (op_count s) 0 0)\<rparr>) }"

definition tp_submit_if_batch_full :: "'a pend_scheme \<Rightarrow> (int \<times> 'a pend_scheme) option" where
  "tp_submit_if_batch_full s = (case am_lookup (op_count s) 0 of
     None \<Rightarrow> Some (0, s)
   | Some count \<Rightarrow>
       if count < tp_BATCH_SIZE then Some (0, s)
       else do { s \<leftarrow> tp_reap_loop 0 (emit USubmit s); Some (1, s) })"

definition tp_add_pending_op ::
    "uring_check_data \<Rightarrow> 'a pend_scheme \<Rightarrow> (uring_check_data option \<times> 'a pend_scheme) option" where
  "tp_add_pending_op op s = do {
     seq \<leftarrow> am_lookup (global_seq_num s) 0;
     let op = op\<lparr>cd_seq_num := seq\<rparr>;
     let s = s\<lparr>global_seq_num := am_store (global_seq_num s) 0 (seq + 1)\<rparr>;
     let s = s\<lparr>global_seq_num := snd (am_update (global_seq_num s) 0 (seq + 1))\<rparr>;
     count \<leftarrow> am_lookup (op_count s) 0;
     let s = s\<lparr>op_count := am_store (op_count s) 0 (count + 1)\<rparr>;
     let s = s\<lparr>op_count := snd (am_update (op_count s) 0 (count + 1))\<rparr>;
     let s = s\<lparr>inode_map := snd (hm_update (inode_map s) (count + 1) op)\<rparr>;
     (res, s) \<leftarrow> tp_submit_if_batch_full s;
     count \<leftarrow> am_lookup (op_count s) 0;
     (case hm_lookup (inode_map s) count of
        None \<Rightarrow> Some (None, emit (Printk ''op_stale is NULL'') s)
      | Some op_stale \<Rightarrow>
          Some (Some op_stale,
            if res \<noteq> 0 then s\<lparr>op_count := snd (am_update (op_count s) 0 0)\<rparr> else s)) }"

lemma tp_reap_loop_core: "tp_reap_loop i s = reap_loop i s"
proof (induction i s rule: reap_loop.induct)
  case (1 i s)
  then show ?case
    by (subst tp_reap_loop.simps, subst reap_loop.simps) (simp split: option.split)
qed

lemmas tp_core = tp_BATCH_SIZE_def BATCH_SIZE_def tp_reap_loop_core

lemma tp_core_agrees:
  "tp_handle_unbatched_ops s = handle_unbatched_ops s"
  "tp_submit_if_batch_full s = submit_if_batch_full s"
  "tp_add_pending_op op s = add_pending_op op s"
proof -
  show submit: "tp_submit_if_batch_full s = submit_if_batch_full s" for s :: "'a pend_scheme"
    by (simp add: tp_submit_if_batch_full_def submit_if_batch_full_def tp_core split: option.split)
  show "tp_handle_unbatched_ops s = handle_unbatched_ops s"
    by (simp add: tp_handle_unbatched_ops_def handle_unbatched_ops_def tp_core Let_def)
  show "tp_add_pending_op op s = add_pending_op op s"
    by (simp only: tp_add_pending_op_def add_pending_op_def submit Let_def)
qed

end
