(* ===== verification/Typed_Maps.thy ===== *)
theory Typed_Maps
  imports Batch_Bpf User_Bpf Writeback Observers Backup_Bpf
begin

text \<open>
  The types of the shared maps: every program declares its maps with a capacity, and the values of
  some keys have a fixed form. A handler may be called at any time, by any process, so the type
  must be kept by every event in every order. One interface states this for all the programs.
\<close>

locale typed_program =
  fixes step :: "'e \<Rightarrow> 's \<Rightarrow> 's"
    and typed :: "'s \<Rightarrow> bool"
    and loaded :: "'s"
  assumes typed_loaded: "typed loaded"
    and typed_step: "typed s \<Longrightarrow> typed (step e s)"
begin

lemma typed_from: "typed s \<Longrightarrow> typed (fold step es s)"
  by (induction es arbitrary: s) (auto intro: typed_step)

lemma typed_always: "typed (fold step es loaded)"
  by (rule typed_from [OF typed_loaded])

end

section \<open>batch.bpf.c\<close>

datatype batch_ev = BbMain | BbReadS bpf_ctx | BbPreadRaw bpf_ctx | BbBatchSubmit bpf_ctx | BbReadCount bpf_ctx

fun batch_step :: "bpf_env \<Rightarrow> batch_ev \<Rightarrow> batch \<Rightarrow> batch" where
  "batch_step env BbMain s = snd (main_entry s)"
| "batch_step env (BbReadS c) s = snd (bb_readS c s)"
| "batch_step env (BbPreadRaw c) s = snd (bb_preadRaw env c s)"
| "batch_step env (BbBatchSubmit c) s = snd (bb_batchSubmit c s)"
| "batch_step env (BbReadCount c) s = snd (bb_readCount c s)"

definition batch_typed :: "batch \<Rightarrow> bool" where
  "batch_typed s \<longleftrightarrow> typed_map 10000 (submit_map s) \<and> typed_map 1000 (fd_map s)"

lemma emit_batch [simp]: "submit_map (emit e s) = submit_map s" "fd_map (emit e s) = fd_map s"
  by (simp_all add: emit_def)

lemma note_read_typed: "batch_typed s \<Longrightarrow> batch_typed (note_read fd n pid s)"
  by (auto simp: note_read_def batch_typed_def split: option.split)

interpretation batch_type: typed_program "batch_step env" batch_typed batch_loaded for env
proof (unfold_locales, goal_cases)
  case (2 s e)
  then show ?case
  proof (cases e)
    case (BbPreadRaw c)
    then show ?thesis
      using 2 by (auto simp: bb_preadRaw_def bb_add_pending_op_def hcall_def Let_def split: option.split
          intro!: note_read_typed) (auto simp: batch_typed_def)
  qed (auto simp: batch_typed_def main_entry_def bb_readS_def bb_batchSubmit_def bb_readCount_def
      handle_batched_eq Let_def split: option.split)
qed (simp add: batch_typed_def batch_loaded_def)

section \<open>user.bpf.c\<close>

definition user_typed :: "user \<Rightarrow> bool" where
  "user_typed s \<longleftrightarrow> typed_map 1000 (us_fd_map s)"

lemma emit_user [simp]: "us_fd_map (emit e s) = us_fd_map s"
  by (simp add: emit_def)

interpretation user_type: typed_program "\<lambda>e s. snd (user_step target e s)" user_typed user_loaded for target
proof (unfold_locales, goal_cases)
  case (2 s e)
  then show ?case
    by (cases e) (auto simp: user_typed_def us_readS_def us_preadRaw_def us_batchSubmit_def us_note_read_def
        us_handle_batched_ops_def Let_def split: option.split)
qed (simp add: user_typed_def user_loaded_def)

section \<open>The write-back programs\<close>

datatype wb_ev = WbWait u64 u8 | WbSubmit kernel_file bpf_ctx i32 | WbInode u64 u64

fun wb_step :: "wb_ev \<Rightarrow> wb \<Rightarrow> wb" where
  "wb_step (WbWait p n) s = snd (wait_for_queue p n s)"
| "wb_step (WbSubmit k c fd) s = snd (hook_submit_fd k c fd s)"
| "wb_step (WbInode inode ino) s = snd (writeback_single_inode inode ino s)"

text \<open>An entry of the inode map is filed under its own inode number, cut to 32 bits.\<close>

definition wb_typed :: "wb \<Rightarrow> bool" where
  "wb_typed s \<longleftrightarrow> typed_map 10000 (wb_inode_map s)
     \<and> (\<forall>(k, d) \<in> set (hm_entries (wb_inode_map s)). id_i_ino d = k)"

lemma set_update_subset: "set (AList.update k v al) \<subseteq> insert (k, v) (set al)"
  by (induction al) auto

interpretation wb_type: typed_program wb_step wb_typed wb_loaded
proof (unfold_locales, goal_cases)
  case (2 s e)
  then show ?case
  proof (cases e)
    case (WbSubmit k c fd)
    have "\<forall>(k, d) \<in> set (hm_entries (snd (hm_update (wb_inode_map s) (id_i_ino d') d'))). id_i_ino d = k" for d'
      using 2 set_update_subset [of "id_i_ino d'" d' "hm_entries (wb_inode_map s)"]
      by (auto simp: wb_typed_def hm_update_def)
    from this [of "\<lparr>id_pid = cur_pid c, id_fd = fd, id_i_ino = ucast (kf_i_ino k)\<rparr>"] show ?thesis
      using 2 WbSubmit by (simp add: wb_typed_def hook_submit_fd_def Let_def)
  qed (auto simp: wb_typed_def wait_for_queue_def writeback_single_inode_def Let_def split: option.split)
qed (simp add: wb_typed_def wb_loaded_def hm_empty_def typed_map_def hm_wf_def hm_keys_def)

datatype lat_ev = LatWriteback bpf_ctx | LatEnter bpf_ctx | LatExit bpf_ctx

fun lat_step :: "lat_ev \<Rightarrow> lat \<Rightarrow> lat" where
  "lat_step (LatWriteback c) s = snd (lat_writeback c s)"
| "lat_step (LatEnter c) s = snd (lat_enter_fsync c s)"
| "lat_step (LatExit c) s = snd (lat_exit_fsync c s)"

definition lat_typed :: "lat \<Rightarrow> bool" where
  "lat_typed s \<longleftrightarrow> typed_map 1000 (lat_start_map s)"

lemma emit_lat [simp]: "lat_start_map (emit e s) = lat_start_map s"
  by (simp add: emit_def)

interpretation lat_type: typed_program lat_step lat_typed lat_loaded
proof (unfold_locales, goal_cases)
  case (2 s e)
  then show ?case
    by (cases e) (auto simp: lat_typed_def lat_writeback_def lat_enter_fsync_def lat_exit_fsync_def Let_def
        split: option.split)
qed (simp add: lat_typed_def lat_loaded_def)

section \<open>clickhouse-uring.bpf.c\<close>

lemma bump_typed: "maps_ok s \<Longrightarrow> maps_ok (bump_count s)"
  by (auto simp: bump_count_def maps_ok_def)

interpretation ch_type: typed_program "\<lambda>e s. snd (ch_step e s)" maps_ok pend_loaded
proof (unfold_locales, goal_cases)
  case 1
  then show ?case using holds_loaded by (simp add: holds_def)
next
  case (2 s e)
  then show ?case
    using bump_typed [of s] bump_typed [of "emit (Printk ''DB::Server::main called'') s"] by (cases e) (auto simp: ch_readImpl_patch_def ch_start_patch_def ch_write_patch_def Let_def maps_ok_def)
qed

section \<open>Together\<close>


end
