(* ===== verification/Dir_Bench.thy ===== *)
theory Dir_Bench
  imports Bytes C_String Posix_Programs
begin

text \<open>
  \<open>bpf/bench.cpp\<close>: the listing of a directory with \<open>getdents64\<close> and the timed loops over
  \<open>getdents64\<close>, \<open>open\<close> and \<open>newfstatat\<close>. \<open>None\<close> is a run that never ends or reads outside the
  buffer; a \<open>double\<close> is the exact rational it approximates; printed texts leave out the newline.
\<close>

section \<open>Time\<close>

record timespec =
  tv_sec :: int
  tv_nsec :: int

text \<open>The clock reading, in nanoseconds, as the kernel stores it: normalised.\<close>

definition read_timer :: "sys_env \<Rightarrow> sys \<Rightarrow> timespec \<times> sys" where
  "read_timer env s = (let (a, s) = call env (Px ClockGettime) s in
     (\<lparr>tv_sec = aux a div 1000000000, tv_nsec = aux a mod 1000000000\<rparr>, s))"

definition start_timer :: "sys_env \<Rightarrow> sys \<Rightarrow> timespec \<times> sys" where
  "start_timer = read_timer"

definition end_timer :: "sys_env \<Rightarrow> sys \<Rightarrow> timespec \<times> sys" where
  "end_timer = read_timer"

text \<open>The two \<open>long\<close>s of \<open>get_elapsed_time\<close> after the correction, and its result.\<close>

definition elapsed_parts :: "timespec \<Rightarrow> timespec \<Rightarrow> int \<times> int" where
  "elapsed_parts start_time end_time =
     (let seconds = tv_sec end_time - tv_sec start_time;
          nanoseconds = tv_nsec end_time - tv_nsec start_time in
      if tv_nsec start_time > tv_nsec end_time then (seconds - 1, nanoseconds + 1000000000)
      else (seconds, nanoseconds))"

definition get_elapsed_time :: "timespec \<Rightarrow> timespec \<Rightarrow> rat" where
  "get_elapsed_time start_time end_time =
     (let (seconds, nanoseconds) = elapsed_parts start_time end_time
      in of_int seconds * 1 + of_int nanoseconds / 1000000000)"

section \<open>The listing\<close>

definition BUF_SIZE :: nat where
  "BUF_SIZE = 2048"

record linux_dirent64 =
  d_ino :: u64
  d_off :: u64
  d_reclen :: "16 word"
  d_type :: u8
  d_name :: string

text \<open>The entry at \<open>buf + bpos\<close>; the name ends at the first NUL, which must be in the buffer.\<close>

definition dirent_at :: "u8 list \<Rightarrow> nat \<Rightarrow> linux_dirent64 option" where
  "dirent_at buf p =
     (if p + 19 \<le> length buf \<and> 0 \<in> set (drop (p + 19) buf)
      then Some \<lparr>d_ino = read64 buf p, d_off = read64 buf (p + 8),
        d_reclen = from_le (byte_at buf (p + 16) 2), d_type = buf ! (p + 18),
        d_name = chars (takeWhile (\<lambda>b. b \<noteq> 0) (drop (p + 19) buf))\<rparr>
      else None)"

definition dec_of_int :: "int \<Rightarrow> string" where
  "dec_of_int i = (if i < 0 then ''-'' @ dec_of_nat (nat (- i)) else dec_of_nat (nat i))"

definition entry_line :: "linux_dirent64 \<Rightarrow> string" where
  "entry_line d = ''inode='' @ dec_of_int (sint (d_ino d)) @ '' offset='' @ dec_of_int (sint (d_off d))
     @ '' reclen='' @ dec_of_nat (unat (d_reclen d)) @ '' type='' @ dec_of_nat (unat (d_type d))
     @ '' name='' @ d_name d"

partial_function (option) list_entries :: "sys_env \<Rightarrow> u8 list \<Rightarrow> int \<Rightarrow> int \<Rightarrow> sys \<Rightarrow> sys option" where
  "list_entries env buf bpos nread s =
     (if bpos < nread then do {
        d \<leftarrow> dirent_at buf (nat bpos);
        list_entries env buf (bpos + uint (d_reclen d)) nread (do_call env (Px (Print (entry_line d))) s) }
      else Some s)"

text \<open>The status of an \<open>exit\<close>, or \<open>None\<close> when the loop ends.\<close>

partial_function (option) getdents_loop :: "sys_env \<Rightarrow> int \<Rightarrow> u8 list \<Rightarrow> sys \<Rightarrow> (int option \<times> sys) option" where
  "getdents_loop env fd buf s =
     (let (a, s) = call env (Px (Getdents64 fd BUF_SIZE)) s; nread = c_int (rv a) in
      if nread = - 1 then Some (Some EXIT_FAILURE, do_call env (Px (Perror ''getdents64'')) s)
      else if nread = 0 then Some (None, s)
      else do {
        let buf = read_into a buf;
        s \<leftarrow> list_entries env buf 0 nread s;
        getdents_loop env fd buf s })"

section \<open>The timed loops\<close>

definition bench_iter :: nat where
  "bench_iter = 100000"

text \<open>The common frame of the three loops: both clock readings and the report.\<close>

definition timed :: "sys_env \<Rightarrow> (sys \<Rightarrow> sys) \<Rightarrow> sys \<Rightarrow> sys" where
  "timed env body s =
     (let (start_time, s) = start_timer env s;
          s = (body ^^ bench_iter) s;
          (end_time, s) = end_timer env s;
          time = get_elapsed_time start_time end_time
      in do_call env (Px (PrintReal ''Average time usage %lf ns, iter %d times''
           (time / of_nat bench_iter * 1000000000) (int bench_iter))) s)"

definition arg_or :: "nat \<Rightarrow> string \<Rightarrow> string list \<Rightarrow> string" where
  "arg_or i dflt argv = (if length argv > i then argv ! i else dflt)"

definition O_DIRECTORY :: int where
  "O_DIRECTORY = 65536"

definition AT_SYMLINK_NOFOLLOW :: int where
  "AT_SYMLINK_NOFOLLOW = 256"

definition getdents64_main :: "sys_env \<Rightarrow> string list \<Rightarrow> u8 list \<Rightarrow> sys \<Rightarrow> (int \<times> sys) option" where
  "getdents64_main env argv buf s =
     (let (a, s) = call env (Px (Open (arg_or 1 ''.'' argv) O_DIRECTORY 0)) s; fd = c_int (rv a);
          s = do_call env (Px (PrintInt ''fd = %d'' fd)) s in
      if fd < 0 then Some (EXIT_FAILURE, do_call env (Px (Perror ''open'')) s)
      else do {
        (st, s) \<leftarrow> getdents_loop env fd buf s;
        (case st of
           Some e \<Rightarrow> Some (e, s)
         | None \<Rightarrow>
             let s = timed env (do_call env (Px (Getdents64 fd BUF_SIZE))) s
             in Some (0, do_call env (Px (Close fd)) s)) })"

definition open_once :: "sys_env \<Rightarrow> string \<Rightarrow> sys \<Rightarrow> sys" where
  "open_once env path s =
     (let (a, s) = call env (Px (Open path O_DIRECTORY 0)) s; fd = c_int (rv a) in
      if 0 \<le> fd then do_call env (Px (Close fd)) (do_call env (Px (Print ''open success'')) s) else s)"

definition open_main :: "sys_env \<Rightarrow> string list \<Rightarrow> sys \<Rightarrow> int \<times> sys" where
  "open_main env argv s = (0, timed env (open_once env (arg_or 1 ''.'' argv)) s)"

text \<open>\<open>fstatat\<close> stores the size of the file (\<open>aux\<close>) and its inode number (\<open>dat\<close>).\<close>

definition newfsstatat_main :: "sys_env \<Rightarrow> string list \<Rightarrow> sys \<Rightarrow> int \<times> sys" where
  "newfsstatat_main env argv s =
     (let (a, s) = call env (Px (Open (arg_or 1 ''.'' argv) O_DIRECTORY 0)) s; dfd = c_int (rv a) in
      if dfd = - 1 then (EXIT_FAILURE, do_call env (Px (Perror ''open'')) s)
      else
        let file_name = arg_or 2 ''.profile'' argv;
            (a, s) = call env (Px (Fstatat dfd file_name AT_SYMLINK_NOFOLLOW)) s in
        if c_int (rv a) = - 1
        then (EXIT_FAILURE, do_call env (Px (Close dfd)) (do_call env (Px (Perror ''newfstatat'')) s))
        else
          let s = do_call env (Px (PrintInt ''File size: %lld bytes'' (aux a))) s;
              s = do_call env (Px (PrintInt ''File inode: %ld'' (sint (from_le (dat a) :: u64)))) s;
              s = timed env (do_call env (Px (Fstatat dfd file_name AT_SYMLINK_NOFOLLOW))) s
          in (0, do_call env (Px (Close dfd)) s))"

definition bench_main :: "sys_env \<Rightarrow> string list \<Rightarrow> u8 list \<Rightarrow> (int \<times> sys) option" where
  "bench_main env argv buf =
     (if argv = [] then None
      else if length argv \<le> 1 \<or> argv ! 1 = ''--help''
      then Some (EXIT_FAILURE, do_call env (Px (Print (''Usage: '' @ argv ! 0 @ '' [getdents64|newfsstatat|open]''))) fresh)
      else if argv ! 1 = ''getdents64'' then getdents64_main env (drop 1 argv) buf fresh
      else if argv ! 1 = ''newfsstatat'' then Some (newfsstatat_main env (drop 1 argv) fresh)
      else if argv ! 1 = ''open'' then Some (open_main env (drop 1 argv) fresh)
      else Some (EXIT_FAILURE, do_call env (Px (Print (''Usage: '' @ argv ! 0 @ '' [getdents64|newfsstatat]''))) fresh))"

section \<open>The clock arithmetic\<close>

definition in_ns :: "timespec \<Rightarrow> int" where
  "in_ns t = tv_sec t * 1000000000 + tv_nsec t"

definition normal :: "timespec \<Rightarrow> bool" where
  "normal t \<longleftrightarrow> 0 \<le> tv_nsec t \<and> tv_nsec t < 1000000000"

text \<open>
  The borrow in \<open>get_elapsed_time\<close> is right: for two normalised readings the nanoseconds of the
  difference lie between 0 and 999999999, seconds and nanoseconds together are exactly the time
  between the readings, and neither is negative when the clock has not gone back.
\<close>

theorem elapsed_time_is_exact:
  assumes "normal t0" and "normal t1" and "elapsed_parts t0 t1 = (sec, ns)"
  shows "0 \<le> ns \<and> ns < 1000000000 \<and> sec * 1000000000 + ns = in_ns t1 - in_ns t0
    \<and> get_elapsed_time t0 t1 * 1000000000 = of_int (in_ns t1 - in_ns t0)
    \<and> (in_ns t0 \<le> in_ns t1 \<longrightarrow> 0 \<le> sec)"
proof -
  have p: "0 \<le> ns" "ns < 1000000000" "sec * 1000000000 + ns = in_ns t1 - in_ns t0"
    using assms by (cases "tv_nsec t0 > tv_nsec t1"; auto simp: normal_def elapsed_parts_def in_ns_def)+
  have "(x * 1 + y / 1000000000) * 1000000000 = x * 1000000000 + y" for x y :: rat
    by (simp add: distrib_right)
  then have "get_elapsed_time t0 t1 * 1000000000 = of_int sec * 1000000000 + of_int ns"
    by (simp only: get_elapsed_time_def assms(3) Let_def prod.case)
  also have "\<dots> = of_int (sec * 1000000000 + ns)" by (simp only: of_int_add of_int_mult of_int_numeral)
  finally have "get_elapsed_time t0 t1 * 1000000000 = of_int (in_ns t1 - in_ns t0)" by (simp only: p(3))
  moreover have "in_ns t0 \<le> in_ns t1 \<longrightarrow> 0 \<le> sec" using p by linarith
  ultimately show ?thesis using p by blast
qed

theorem elapsed_time_is_exact_witness:
  "get_elapsed_time \<lparr>tv_sec = 4, tv_nsec = 900000000\<rparr> \<lparr>tv_sec = 6, tv_nsec = 100000000\<rparr> * 1000000000 = 1200000000"
  using elapsed_time_is_exact [of "\<lparr>tv_sec = 4, tv_nsec = 900000000\<rparr>" "\<lparr>tv_sec = 6, tv_nsec = 100000000\<rparr>" 1 200000000]
  by (simp add: normal_def elapsed_parts_def in_ns_def)

section \<open>The layout of a directory block\<close>

definition enc_dirent :: "linux_dirent64 \<Rightarrow> u8 list" where
  "enc_dirent d = le_bytes 8 (d_ino d) @ le_bytes 8 (d_off d) @ le_bytes 2 (d_reclen d) @ [d_type d]
     @ bytes_of (d_name d) @ replicate (unat (d_reclen d) - 19 - length (d_name d)) 0"

definition dirent_ok :: "linux_dirent64 \<Rightarrow> bool" where
  "dirent_ok d \<longleftrightarrow> NUL \<notin> set (d_name d) \<and> 20 + length (d_name d) \<le> unat (d_reclen d)"

definition enc_block :: "linux_dirent64 list \<Rightarrow> u8 list" where
  "enc_block ds = concat (map enc_dirent ds)"

definition block_ok :: "linux_dirent64 list \<Rightarrow> bool" where
  "block_ok ds \<longleftrightarrow> ds \<noteq> [] \<and> list_all dirent_ok ds \<and> length (enc_block ds) \<le> BUF_SIZE"

lemma length_enc [simp]: "dirent_ok d \<Longrightarrow> length (enc_dirent d) = unat (d_reclen d)"
  by (auto simp: enc_dirent_def dirent_ok_def)

lemma bytes_of_nonzero: "0 \<in> set (bytes_of s) \<longleftrightarrow> NUL \<in> set s"
proof -
  have "(of_nat (of_char c) :: u8) = 0 \<longleftrightarrow> c = NUL" for c
  proof -
    have "(of_char c :: nat) < 256" by simp
    moreover have "(of_char c :: nat) = 0" if "256 dvd (of_char c :: nat)"
      using dvd_imp_le [OF that] \<open>(of_char c :: nat) < 256\<close> by (cases "(of_char c :: nat) = 0") auto
    ultimately have "(of_nat (of_char c) :: u8) = 0 \<longleftrightarrow> (of_char c :: nat) = 0"
      unfolding word_of_nat_eq_0_iff by auto
    also have "\<dots> \<longleftrightarrow> (of_char c :: nat) = of_char NUL" by simp
    also have "\<dots> \<longleftrightarrow> c = NUL" by (rule of_char_eq_iff)
    finally show ?thesis .
  qed
  then show ?thesis by (auto simp: bytes_of_def image_iff)
qed

lemma byte_at_shift: "byte_at (xs @ bs) (length xs + k) n = byte_at bs k n"
  by (simp add: byte_at_def)

lemma from_le_16: "from_le (le_bytes 2 w) = (w :: 16 word)"
  using from_le_bytes [of 2 w] by (simp add: take_bit_word_eq_self)

lemma dirent_at_enc:
  assumes "dirent_ok d"
  shows "dirent_at (xs @ enc_dirent d @ ys) (length xs) = Some d"
proof -
  let ?n = "unat (d_reclen d) - 19 - length (d_name d)"
  have n: "?n = Suc (?n - 1)" using assms by (auto simp: dirent_ok_def)
  let ?head = "le_bytes 8 (d_ino d) @ le_bytes 8 (d_off d) @ le_bytes 2 (d_reclen d) @ [d_type d]"
  have e: "enc_dirent d @ ys = ?head @ bytes_of (d_name d) @ 0 # replicate (?n - 1) 0 @ ys"
    unfolding enc_dirent_def by (subst n) simp
  have name: "drop (length xs + 19) (xs @ enc_dirent d @ ys) = bytes_of (d_name d) @ 0 # replicate (?n - 1) 0 @ ys"
    unfolding e by simp
  have fields: "byte_at (enc_dirent d @ ys) 0 8 = le_bytes 8 (d_ino d)"
      "byte_at (enc_dirent d @ ys) 8 8 = le_bytes 8 (d_off d)"
      "byte_at (enc_dirent d @ ys) 16 2 = le_bytes 2 (d_reclen d)"
      "(xs @ enc_dirent d @ ys) ! (length xs + 18) = d_type d"
    unfolding e by (simp_all add: byte_at_def nth_append)
  have tw: "takeWhile (\<lambda>b. b \<noteq> 0) (drop (length xs + 19) (xs @ enc_dirent d @ ys)) = bytes_of (d_name d)"
    unfolding name using assms bytes_of_nonzero [of "d_name d"]
    by (subst takeWhile_append2) (auto simp: dirent_ok_def)
  have in_buf: "length xs + 19 \<le> length (xs @ enc_dirent d @ ys)
      \<and> 0 \<in> set (drop (length xs + 19) (xs @ enc_dirent d @ ys))"
    unfolding name using assms by (auto simp: dirent_ok_def)
  show ?thesis
    unfolding dirent_at_def tw read64_def using in_buf fields byte_at_shift [of xs "enc_dirent d @ ys"]
      byte_at_shift [of xs "enc_dirent d @ ys" 0]
    by (simp only: if_True simp_thms from_le_64 from_le_16 chars_bytes_of add_0_right) simp
qed

section \<open>The listing of a directory\<close>

definition printed :: "history \<Rightarrow> string list" where
  "printed h = concat (map (\<lambda>e. case e of Px (Print t) \<Rightarrow> [t] | _ \<Rightarrow> []) (calls h))"

definition is_dents :: "int \<Rightarrow> sys_call \<Rightarrow> bool" where
  "is_dents fd e \<longleftrightarrow> e = Px (Getdents64 fd BUF_SIZE)"

text \<open>The \<open>getdents64\<close> calls of a history, and those that delivered something.\<close>

definition dents :: "int \<Rightarrow> history \<Rightarrow> nat" where
  "dents fd h = cnt (\<lambda>p. is_dents fd (fst p)) h"

definition hits :: "int \<Rightarrow> history \<Rightarrow> nat" where
  "hits fd h = cnt (\<lambda>p. is_dents fd (fst p) \<and> rv (snd p) \<noteq> 0) h"

text \<open>
  The kernel's contract: the calls deliver the blocks of the directory one after the other, then
  nothing.
\<close>

definition dir_law :: "linux_dirent64 list list \<Rightarrow> int \<Rightarrow> sys_env \<Rightarrow> bool" where
  "dir_law blks fd env \<longleftrightarrow> (\<forall>h. let a = env h (Px (Getdents64 fd BUF_SIZE)); k = dents fd h in
     if k < length blks then rv a = int (length (enc_block (blks ! k))) \<and> dat a = enc_block (blks ! k)
     else rv a = 0)"

lemma snoc_call [simp]:
  "printed (h @ [(Px p, a)]) = printed h @ (case p of Print t \<Rightarrow> [t] | _ \<Rightarrow> [])"
  "dents fd (h @ [(e, a)]) = dents fd h + (if is_dents fd e then 1 else 0)"
  "hits fd (h @ [(e, a)]) = hits fd h + (if is_dents fd e \<and> rv a \<noteq> 0 then 1 else 0)"
  by (cases p) (simp_all add: printed_def dents_def hits_def)

lemma is_dents_simps [simp]:
  "is_dents fd (Px (Getdents64 fd BUF_SIZE))" "\<not> is_dents fd (Px (Print t))" "\<not> is_dents fd (Px (PrintInt t i))"
  "\<not> is_dents fd (Px ClockGettime)" "\<not> is_dents fd (Px (PrintReal t r i))" "\<not> is_dents fd (Px (Close d))"
  "\<not> is_dents fd (Px (Open f m p))"
  by (simp_all add: is_dents_def)

definition show_all :: "sys_env \<Rightarrow> linux_dirent64 list \<Rightarrow> sys \<Rightarrow> sys" where
  "show_all env ds s = fold (\<lambda>d. do_call env (Px (Print (entry_line d)))) ds s"

lemma show_all_hist:
  "printed (hist (show_all env ds s)) = printed (hist s) @ map entry_line ds"
  "dents fd (hist (show_all env ds s)) = dents fd (hist s)"
  "hits fd (hist (show_all env ds s)) = hits fd (hist s)"
  unfolding show_all_def by (induction ds arbitrary: s) simp_all

lemma list_entries_block:
  assumes "list_all dirent_ok ds"
  shows "list_entries env (xs @ enc_block ds @ ys) (int (length xs)) (int (length xs + length (enc_block ds))) s
    = Some (show_all env ds s)"
  using assms
proof (induction ds arbitrary: xs s)
  case Nil
  then show ?case by (subst list_entries.simps) (simp add: enc_block_def show_all_def)
next
  case (Cons d ds)
  then have d: "dirent_ok d" "list_all dirent_ok ds" by simp_all
  have e: "enc_block (d # ds) = enc_dirent d @ enc_block ds" by (simp add: enc_block_def)
  have pos: "0 < unat (d_reclen d)" using d(1) by (auto simp: dirent_ok_def)
  have "0 < uint (d_reclen d)" using pos by (metis int_ops(1) of_nat_less_iff of_nat_unat)
  then have upos: "0 < uint (d_reclen d) + int (length (enc_block ds))" by linarith
  have "list_entries env (xs @ enc_dirent d @ enc_block ds @ ys) (int (length xs))
        (int (length xs + unat (d_reclen d) + length (enc_block ds))) s
      = list_entries env (xs @ enc_dirent d @ enc_block ds @ ys) (int (length xs + unat (d_reclen d)))
        (int (length xs + unat (d_reclen d) + length (enc_block ds))) (do_call env (Px (Print (entry_line d))) s)"
    using upos dirent_at_enc [OF d(1)] by (subst list_entries.simps) simp
  also have "\<dots> = Some (show_all env ds (do_call env (Px (Print (entry_line d))) s))"
    using Cons.IH [OF d(2), of "xs @ enc_dirent d"] d(1) by simp
  finally show ?case unfolding e using d(1) by (simp add: show_all_def add.assoc)
qed

lemma block_length: "block_ok ds \<Longrightarrow> 0 < length (enc_block ds)"
  by (cases ds) (auto simp: block_ok_def enc_block_def enc_dirent_def)

lemma c_int_block: "block_ok ds \<Longrightarrow> c_int (int (length (enc_block ds))) = int (length (enc_block ds))"
  by (intro c_int_id) (auto simp: block_ok_def BUF_SIZE_def)

lemma getdents_loop_all:
  assumes law: "dir_law blks fd env" and ok: "list_all block_ok blks"
  shows "dents fd (hist s) \<le> length blks \<Longrightarrow> \<exists>s'. getdents_loop env fd buf s = Some (None, s')
    \<and> printed (hist s') = printed (hist s) @ map entry_line (concat (drop (dents fd (hist s)) blks))
    \<and> dents fd (hist s') = length blks + 1
    \<and> hits fd (hist s') = hits fd (hist s) + (length blks - dents fd (hist s))"
proof (induction "length blks - dents fd (hist s)" arbitrary: s buf)
  case 0
  let ?e = "Px (Getdents64 fd BUF_SIZE)"
  have "rv (env (hist s) ?e) = 0"
    using law [unfolded dir_law_def, rule_format, of "hist s"] 0 by (simp add: Let_def)
  then have "getdents_loop env fd buf s = Some (None, do_call env ?e s)"
    by (subst getdents_loop.simps) (simp add: call_pair)
  then show ?case using 0 \<open>rv (env (hist s) ?e) = 0\<close> by simp
next
  case (Suc n)
  let ?k = "dents fd (hist s)" and ?e = "Px (Getdents64 fd BUF_SIZE)"
  let ?a = "env (hist s) ?e" and ?b = "blks ! dents fd (hist s)" and ?s = "do_call env (Px (Getdents64 fd BUF_SIZE)) s"
  have k: "?k < length blks" using Suc.hyps(2) by simp
  then have a: "rv ?a = int (length (enc_block ?b))" "dat ?a = enc_block ?b"
    using law [unfolded dir_law_def, rule_format, of "hist s"] by (simp_all add: Let_def)
  have b: "block_ok ?b" using ok k by (simp add: list_all_length)
  then have nread: "c_int (rv ?a) = int (length (enc_block ?b))" "length (enc_block ?b) \<noteq> 0"
    using a(1) c_int_block [OF b] block_length [OF b] by auto
  let ?buf = "enc_block ?b @ drop (length (enc_block ?b)) buf"
  have "list_entries env ?buf 0 (int (length (enc_block ?b))) ?s = Some (show_all env ?b ?s)"
    using list_entries_block [of ?b env "[]"] b by (simp add: block_ok_def)
  then have step: "getdents_loop env fd buf s = getdents_loop env fd ?buf (show_all env ?b ?s)"
    using nread a by (subst getdents_loop.simps) (simp add: call_pair Let_def read_into_def got_def)
  have d: "dents fd (hist (show_all env ?b ?s)) = ?k + 1" by (simp add: show_all_hist)
  have rest: "drop ?k blks = ?b # drop (?k + 1) blks" using k by (simp add: Cons_nth_drop_Suc)
  show ?case
    using Suc.hyps(1) [of "show_all env ?b ?s" ?buf] Suc.hyps(2) k d a(1) nread(2)
    unfolding step rest by (simp add: show_all_hist)
qed

text \<open>What holds along the body of a timed loop and both clock calls holds of the whole.\<close>

lemma timed_keeps:
  assumes body: "\<And>i s. P i s \<Longrightarrow> P (Suc i) (body s)"
    and other: "\<And>i e s. P i s \<Longrightarrow> e = ClockGettime \<or> (\<exists>t r n. e = PrintReal t r n) \<Longrightarrow> P i (do_call env (Px e) s)"
    and "P 0 s"
  shows "P bench_iter (timed env body s)"
proof -
  have "P n ((body ^^ n) s)" if "P 0 s" for n s using that by (induction n) (simp_all add: body)
  then show ?thesis
    using \<open>P 0 s\<close> unfolding timed_def start_timer_def end_timer_def read_timer_def
    by (auto simp: call_pair Let_def intro!: other)
qed

lemma timed_dents:
  assumes law: "dir_law blks fd env" and k: "length blks \<le> dents fd (hist s)"
  shows "dents fd (hist (timed env (do_call env (Px (Getdents64 fd BUF_SIZE))) s)) = dents fd (hist s) + bench_iter"
    and "hits fd (hist (timed env (do_call env (Px (Getdents64 fd BUF_SIZE))) s)) = hits fd (hist s)"
    and "printed (hist (timed env (do_call env (Px (Getdents64 fd BUF_SIZE))) s)) = printed (hist s)"
proof -
  let ?P = "\<lambda>i u. dents fd (hist u) = dents fd (hist s) + i \<and> hits fd (hist u) = hits fd (hist s)
    \<and> printed (hist u) = printed (hist s)"
  have "?P bench_iter (timed env (do_call env (Px (Getdents64 fd BUF_SIZE))) s)"
  proof (rule timed_keeps)
    fix i u assume "?P i u"
    moreover from this have "rv (env (hist u) (Px (Getdents64 fd BUF_SIZE))) = 0"
      using law [unfolded dir_law_def, rule_format, of "hist u"] k by (simp add: Let_def)
    ultimately show "?P (Suc i) (do_call env (Px (Getdents64 fd BUF_SIZE)) u)" by simp
  qed auto
  then show "dents fd (hist (timed env (do_call env (Px (Getdents64 fd BUF_SIZE))) s)) = dents fd (hist s) + bench_iter"
      "hits fd (hist (timed env (do_call env (Px (Getdents64 fd BUF_SIZE))) s)) = hits fd (hist s)"
      "printed (hist (timed env (do_call env (Px (Getdents64 fd BUF_SIZE))) s)) = printed (hist s)"
    by simp_all
qed

text \<open>
  C24: on a directory whose blocks the kernel delivers one after the other, the listing prints exactly
  one line for every entry, in order, whatever the buffer held before: the records are decoded at
  the right offsets, no read leaves the buffer, the loop ends, and the program exits with 0 after
  closing the directory. Only the listing reads anything: of its \<open>getdents64\<close> calls as many
  deliver entries as there are blocks, and none of the 100000 timed ones does.
\<close>

theorem directory_listing_is_complete:
  assumes law: "dir_law blks fd env" and ok: "list_all block_ok blks" and fd: "0 \<le> fd"
    and opened: "c_int (rv (env [] (Px (Open (arg_or 1 ''.'' argv) O_DIRECTORY 0)))) = fd"
  shows "\<exists>s. getdents64_main env argv buf fresh = Some (0, s)
    \<and> printed (hist s) = map entry_line (concat blks)
    \<and> hits fd (hist s) = length blks \<and> dents fd (hist s) = length blks + 1 + bench_iter
    \<and> last (calls (hist s)) = Px (Close fd)"
proof -
  let ?s = "do_call env (Px (PrintInt ''fd = %d'' fd)) (do_call env (Px (Open (arg_or 1 ''.'' argv) O_DIRECTORY 0)) fresh)"
  have start: "dents fd (hist ?s) = 0" "hits fd (hist ?s) = 0" "printed (hist ?s) = []"
    by (simp_all add: fresh_def dents_def hits_def printed_def)
  obtain s1 where s1: "getdents_loop env fd buf ?s = Some (None, s1)"
      "printed (hist s1) = map entry_line (concat blks)" "dents fd (hist s1) = length blks + 1"
      "hits fd (hist s1) = length blks"
    using getdents_loop_all [OF law ok, of ?s buf] start by auto
  let ?t = "timed env (do_call env (Px (Getdents64 fd BUF_SIZE))) s1"
  have "getdents64_main env argv buf fresh = Some (0, do_call env (Px (Close fd)) ?t)"
    using s1(1) opened fd by (simp add: getdents64_main_def call_pair fresh_def)
  moreover have "dents fd (hist ?t) = length blks + 1 + bench_iter" "hits fd (hist ?t) = length blks"
      "printed (hist ?t) = map entry_line (concat blks)"
    using timed_dents [OF law, of s1] s1 by simp_all
  ultimately show ?thesis by simp
qed

text \<open>A kernel that opens every directory as descriptor 3 and serves these blocks.\<close>

definition dir_env :: "linux_dirent64 list list \<Rightarrow> sys_env" where
  "dir_env blks h e = (case e of
     Px (Getdents64 fd n) \<Rightarrow>
       if dents fd h < length blks
       then \<lparr>rv = int (length (enc_block (blks ! dents fd h))), errno = 0, aux = 0, dat = enc_block (blks ! dents fd h)\<rparr>
       else \<lparr>rv = 0, errno = 0, aux = 0, dat = []\<rparr>
   | _ \<Rightarrow> \<lparr>rv = 3, errno = 0, aux = 0, dat = []\<rparr>)"

lemma dir_env_law: "dir_law blks fd (dir_env blks)"
  by (simp add: dir_law_def dir_env_def Let_def)

definition sample_entry :: "u64 \<Rightarrow> string \<Rightarrow> linux_dirent64" where
  "sample_entry ino name = \<lparr>d_ino = ino, d_off = 7, d_reclen = 24, d_type = 8, d_name = name\<rparr>"

theorem directory_listing_is_complete_witness:
  "\<exists>s. getdents64_main (dir_env [[sample_entry 11 ''a'', sample_entry 12 ''.b''], [sample_entry 13 ''c'']])
      [''getdents64''] (replicate BUF_SIZE 0) fresh = Some (0, s)
    \<and> printed (hist s) = map entry_line [sample_entry 11 ''a'', sample_entry 12 ''.b'', sample_entry 13 ''c'']"
proof -
  let ?b = "[[sample_entry 11 ''a'', sample_entry 12 ''.b''], [sample_entry 13 ''c'']]"
  have ok: "dirent_ok (sample_entry 11 ''a'')" "dirent_ok (sample_entry 12 ''.b'')" "dirent_ok (sample_entry 13 ''c'')"
    by (simp_all add: dirent_ok_def sample_entry_def)
  then have b: "list_all block_ok ?b"
    by (simp add: block_ok_def enc_block_def BUF_SIZE_def) (simp add: sample_entry_def)
  have "c_int (rv (dir_env ?b [] (Px (Open (arg_or 1 ''.'' [''getdents64'']) O_DIRECTORY 0)))) = 3"
    by (simp add: dir_env_def)
  from directory_listing_is_complete [OF dir_env_law b _ this, of "replicate BUF_SIZE 0"]
  show ?thesis by auto
qed

section \<open>The open benchmark\<close>

definition opened_fds :: "history \<Rightarrow> int list" where
  "opened_fds h = concat (map (\<lambda>(e, a). case e of
     Px (Open f m p) \<Rightarrow> if 0 \<le> c_int (rv a) then [c_int (rv a)] else [] | _ \<Rightarrow> []) h)"

definition closed_fds :: "history \<Rightarrow> int list" where
  "closed_fds h = concat (map (\<lambda>e. case e of Px (Close fd) \<Rightarrow> [fd] | _ \<Rightarrow> []) (calls h))"

definition opens :: "history \<Rightarrow> nat" where
  "opens h = cnt (\<lambda>p. case fst p of Px (Open f m p) \<Rightarrow> True | _ \<Rightarrow> False) h"

lemma snoc_fds [simp]:
  "opened_fds (h @ [(Px (Open f m p), a)]) = opened_fds h @ (if 0 \<le> c_int (rv a) then [c_int (rv a)] else [])"
  "opened_fds (h @ [(Px (Close d), a)]) = opened_fds h" "opened_fds (h @ [(Px (Print t), a)]) = opened_fds h"
  "opened_fds (h @ [(Px ClockGettime, a)]) = opened_fds h" "opened_fds (h @ [(Px (PrintReal t r n), a)]) = opened_fds h"
  "closed_fds (h @ [(Px e, a)]) = closed_fds h @ (case e of Close fd \<Rightarrow> [fd] | _ \<Rightarrow> [])"
  "opens (h @ [(Px e, a)]) = opens h + (case e of Open f m p \<Rightarrow> 1 | _ \<Rightarrow> 0)"
  by (simp_all add: opened_fds_def closed_fds_def opens_def split: posix_call.split)

text \<open>
  The \<open>open\<close> benchmark leaks no descriptor: for every environment it makes exactly 100000
  \<open>open\<close> calls, the descriptors it closes are exactly those \<open>open\<close> returned, in the same order, it
  reports each success once, and it returns 0.
\<close>

theorem open_bench_closes_all:
  "\<exists>s. open_main env argv fresh = (0, s) \<and> closed_fds (hist s) = opened_fds (hist s)
     \<and> opens (hist s) = bench_iter \<and> length (printed (hist s)) = length (opened_fds (hist s))"
proof -
  let ?P = "\<lambda>i u. closed_fds (hist u) = opened_fds (hist u) \<and> opens (hist u) = i
    \<and> length (printed (hist u)) = length (opened_fds (hist u))"
  have "?P bench_iter (timed env (open_once env (arg_or 1 ''.'' argv)) fresh)"
  proof (rule timed_keeps)
    show "?P 0 fresh" by (simp add: fresh_def opens_def opened_fds_def closed_fds_def printed_def)
  qed (auto simp: open_once_def call_pair Let_def simp del: append_assoc)
  then show ?thesis by (simp add: open_main_def)
qed

section \<open>The newfsstatat benchmark\<close>

text \<open>
  The directory is closed exactly when it was opened, on the error path as well, and the exit status
  is 0 exactly when both the directory could be opened and the file examined.
\<close>

theorem stat_bench_closes_directory:
  fixes env :: sys_env and argv :: "string list"
  defines "open_dir \<equiv> Px (Open (arg_or 1 ''.'' argv) O_DIRECTORY 0)"
  defines "a \<equiv> env [] open_dir"
  defines "stat \<equiv> env [(open_dir, a)] (Px (Fstatat (c_int (rv a)) (arg_or 2 ''.profile'' argv) AT_SYMLINK_NOFOLLOW))"
  shows "\<exists>st s. newfsstatat_main env argv fresh = (st, s)
    \<and> closed_fds (hist s) = (if c_int (rv a) = - 1 then [] else [c_int (rv a)])
    \<and> (st = 0 \<longleftrightarrow> c_int (rv a) \<noteq> - 1 \<and> c_int (rv stat) \<noteq> - 1)"
proof -
  have t: "closed_fds (hist (timed env (do_call env (Px (Fstatat d f m))) s)) = []"
    if "closed_fds (hist s) = []" for d f m s
    by (rule timed_keeps [of "\<lambda>i u. closed_fds (hist u) = []" "do_call env (Px (Fstatat d f m))" env s])
      (use that in auto)
  have c: "closed_fds [] = []" "closed_fds ((Px e, b) # h) = (case e of Close fd \<Rightarrow> [fd] | _ \<Rightarrow> []) @ closed_fds h"
      "closed_fds (h @ h') = closed_fds h @ closed_fds h'" for e b h h'
    by (simp_all add: closed_fds_def split: posix_call.split)
  show ?thesis
    unfolding newfsstatat_main_def a_def stat_def open_dir_def Let_def
    by (auto simp: call_pair fresh_def EXIT_FAILURE_def c t simp del: snoc_fds)
qed

end
