(* ===== verification/Socket_Session.thy ===== *)
theory Socket_Session
  imports Posix_Programs
begin

text \<open>
  \<open>client.c\<close> and \<open>server.c\<close> together: each runs in its own environment, and the two are coupled by what
  they send. The network delivers what the other side has sent, in portions of any size, and the
  server reads back from \<open>response.txt\<close> what it has written there.
\<close>

text \<open>A file with content \<open>old\<close>, opened without truncation, after \<open>d\<close> was written from its start.\<close>

definition overlay :: "u8 list \<Rightarrow> u8 list \<Rightarrow> u8 list" where
  "overlay d old = d @ drop (length d) old"

lemma overlay_short: "length old \<le> length d \<Longrightarrow> overlay d old = d"
  by (simp add: overlay_def)

text \<open>The two ends, each in its environment, and the couplings of a session.\<close>

definition client_side :: "sys_env \<Rightarrow> int \<Rightarrow> int \<Rightarrow> int \<Rightarrow> u8 list \<Rightarrow> bool" where
  "client_side env sock fd rfd c \<longleftrightarrow> connects env sock \<and> opens_to env ''temp.txt'' 0 0 fd
     \<and> opens_to env ''recv.txt'' 577 420 rfd \<and> stream env (\<lambda>n. Px (Read fd n)) fd c \<and> sink env rfd
     \<and> fd \<noteq> sock \<and> sock \<noteq> rfd"

definition server_side :: "sys_env \<Rightarrow> int \<Rightarrow> int \<Rightarrow> int \<Rightarrow> int \<Rightarrow> bool" where
  "server_side env lfd cfd wfd fd \<longleftrightarrow> serves env lfd cfd \<and> opens_to env ''response.txt'' 2 0 wfd
     \<and> opens_to env ''response.txt'' 0 0 fd \<and> cfd \<noteq> wfd \<and> cfd \<noteq> fd"

text \<open>
  C27: a session echoes the file: when client and server have run, the server received what the client
  sent, the client what the server sent, and the server read back what it wrote over the old
  content of \<open>response.txt\<close>, then both exit with 0, the server has stored exactly \<open>temp.txt\<close>, and
  \<open>recv.txt\<close> is \<open>temp.txt\<close> followed by whatever the old response had beyond that length; it is exactly
  \<open>temp.txt\<close> when the old response was no longer.
\<close>

theorem session_echoes:
  assumes sides: "client_side cenv sock fd rfd c" "server_side senv lfd cfd wfd sfd"
    and runs: "cl_main cenv fuel buf = Done (st, sc)" "sv_main senv fuel buf' = Done (st', ss)"
    and net: "stream senv (\<lambda>n. Px (Read cfd n)) cfd (given sock (hist sc))"
      "stream cenv (\<lambda>n. Px (Recv sock n)) sock (given cfd (hist ss))"
    and disk: "stream senv (\<lambda>n. Px (Read sfd n)) sfd (overlay (given wfd (hist ss)) old)"
    and fuel: "length c < fuel" "length (given sock (hist sc)) < fuel" "length (given cfd (hist ss)) < fuel"
      "length (overlay (given wfd (hist ss)) old) < fuel"
  shows "st = 0 \<and> st' = 0 \<and> given wfd (hist ss) = c \<and> given rfd (hist sc) = overlay c old
    \<and> (length old \<le> length c \<longrightarrow> given rfd (hist sc) = c)"
proof -
  have cl: "st = 0" "given sock (hist sc) = c" "given rfd (hist sc) = given cfd (hist ss)"
    using client_transfers [of cenv sock fd rfd c "given cfd (hist ss)" fuel buf] sides(1) runs(1) net(2) fuel
    by (auto simp: client_side_def)
  have "st' = 0" "given wfd (hist ss) = c" "given cfd (hist ss) = overlay c old"
    using server_answers [of senv lfd cfd wfd sfd "given sock (hist sc)" "overlay (given wfd (hist ss)) old" fuel buf']
      sides(2) runs(2) net(1) disk fuel cl(2)
    by (auto simp: server_side_def)
  then show ?thesis using cl by (simp add: overlay_short)
qed

text \<open>A session in which the old response had one byte more than the file.\<close>

definition client_content :: "int \<Rightarrow> u8 list" where
  "client_content fd = (if fd = 3 then [1, 2, 3] else [1, 2, 3, 9])"

definition server_content :: "int \<Rightarrow> u8 list" where
  "server_content fd = (if fd = 3 then [1, 2, 3, 9] else [1, 2, 3])"

theorem session_echoes_witness:
  "\<exists>sc ss. cl_main (serve client_content copy_files 2) 5 [] = Done (0, sc)
     \<and> sv_main (serve server_content copy_files 2) 5 [] = Done (0, ss)
     \<and> given 4 (hist ss) = [1, 2, 3] \<and> given 4 (hist sc) = [1, 2, 3, 9]"
proof -
  let ?c = "serve client_content copy_files 2" and ?s = "serve server_content copy_files 2"
  have sides: "client_side ?c 7 3 4 [1, 2, 3]" "server_side ?s 7 8 4 3"
    using serve_stream(1) [of 2 client_content copy_files 3]
    by (simp_all add: client_side_def server_side_def connects_def serves_def opens_to_def copy_files_def
        serve_sink client_content_def)
  have st: "stream ?c (\<lambda>n. Px (Recv 7 n)) 7 [1, 2, 3, 9]" "stream ?s (\<lambda>n. Px (Read 8 n)) 8 [1, 2, 3]"
      "stream ?s (\<lambda>n. Px (Read 3 n)) 3 [1, 2, 3, 9]"
    using serve_stream(2) [of 2 client_content copy_files 7] serve_stream(1) [of 2 server_content copy_files 8]
      serve_stream(1) [of 2 server_content copy_files 3]
    by (simp_all add: client_content_def server_content_def)
  obtain sc where sc: "cl_main ?c 5 [] = Done (0, sc)" "given 7 (hist sc) = [1, 2, 3]"
    using client_transfers [of ?c 7 3 4 "[1, 2, 3]" "[1, 2, 3, 9]" 5 "[]"] sides(1) st(1)
    by (auto simp: client_side_def)
  obtain ss where ss: "sv_main ?s 5 [] = Done (0, ss)" "given 4 (hist ss) = [1, 2, 3]" "given 8 (hist ss) = [1, 2, 3, 9]"
    using server_answers [of ?s 7 8 4 3 "[1, 2, 3]" "[1, 2, 3, 9]" 5 "[]"] sides(2) st(2,3)
    by (auto simp: server_side_def)
  have "given 4 (hist sc) = overlay [1, 2, 3] [7, 7, 7, 9]"
    using session_echoes [OF sides sc(1) ss(1), of "[7, 7, 7, 9]"] sc(2) ss(2,3) st by (simp add: overlay_def)
  then show ?thesis using sc(1) ss(1,2) by (simp add: overlay_def)
qed

end
