(* ===== verification/Intercept.thy ===== *)
theory Intercept
  imports Posix_Programs Hotpatch_Bpf
begin

text \<open>
  A program under uprobes: every call of a probed function first runs the probe; when the probe
  overrides the return value, the caller gets that value and the function does not run, otherwise the
  operating system answers as always. The state of the probes is a function of the calls made so far,
  so a program and the probes on it are coupled by an environment.
\<close>

section \<open>Probed calls\<close>

text \<open>The value a probe run has put in the place of the function's, if it did; the probes override last.\<close>

definition returned :: "bpf_ev list \<Rightarrow> u64 option" where
  "returned lg = (if lg = [] then None else case last lg of OverrideReturn v \<Rightarrow> Some v | _ \<Rightarrow> None)"

definition probe_state :: "(sys_call \<Rightarrow> 's \<Rightarrow> 's) \<Rightarrow> 's \<Rightarrow> history \<Rightarrow> 's" where
  "probe_state step s0 h = fold step (calls h) s0"

text \<open>
  A call that is overridden fills no buffer when it returns: the data of a queued read comes with its
  completion.
\<close>

definition patched :: "(sys_call \<Rightarrow> 'a bpf_scheme \<Rightarrow> 'a bpf_scheme) \<Rightarrow> 'a bpf_scheme \<Rightarrow> sys_env \<Rightarrow> sys_env" where
  "patched step s0 os h e =
     (let s = probe_state step s0 h in
      case returned (drop (length (blog s)) (blog (step e s))) of
        Some v \<Rightarrow> \<lparr>rv = sint v, errno = 0, aux = 0, dat = []\<rparr>
      | None \<Rightarrow> os h e)"

lemma probe_state_simps [simp]:
  "probe_state step s0 [] = s0"
  "probe_state step s0 (h @ h') = probe_state step (probe_state step s0 h) h'"
  "probe_state step s0 ((e, a) # h) = probe_state step (step e s0) h"
  by (simp_all add: probe_state_def)

lemma patched_override:
  "blog (step e (probe_state step s0 h)) = blog (probe_state step s0 h) @ lg @ [OverrideReturn v] \<Longrightarrow>
     patched step s0 os h e = \<lparr>rv = sint v, errno = 0, aux = 0, dat = []\<rparr>"
  by (simp add: patched_def returned_def)

section \<open>The contract of a set of probes\<close>

text \<open>
  What a program relies on of the probes on its calls: they only add to the log of the runtime, and
  a call without a probe does not run any.
\<close>

locale probes =
  fixes step :: "sys_call \<Rightarrow> 'a bpf_scheme \<Rightarrow> 'a bpf_scheme"
    and probed :: "sys_call \<Rightarrow> bool"
  assumes step_extends: "\<exists>lg. blog (step e s) = blog s @ lg"
    and step_unprobed: "\<not> probed e \<Longrightarrow> step e s = s"
begin

lemma patched_unprobed: "\<not> probed e \<Longrightarrow> patched step s0 os h e = os h e"
  by (simp add: patched_def step_unprobed returned_def Let_def)

lemma state_of_probed: "probe_state step s0 h = fold step (filter probed (calls h)) s0"
proof -
  have "fold step es s = fold step (filter probed es) s" for es s
    by (induction es arbitrary: s) (simp_all add: step_unprobed)
  then show ?thesis by (simp add: probe_state_def)
qed

lemma state_same: "filter probed (calls h) = filter probed (calls h') \<Longrightarrow> probe_state step s0 h = probe_state step s0 h'"
  by (simp add: state_of_probed)

text \<open>Probes that never override are invisible to the program.\<close>

lemma invisible:
  assumes "\<And>e s lg v. blog (step e s) \<noteq> blog s @ lg @ [OverrideReturn v]"
  shows "patched step s0 os = os"
proof (intro ext)
  fix h e
  let ?s = "probe_state step s0 h"
  obtain lg where lg: "blog (step e ?s) = blog ?s @ lg" using step_extends by blast
  have "returned lg = None"
  proof (cases lg rule: rev_cases)
    case (snoc xs x)
    then show ?thesis using assms [of e ?s xs] lg by (cases x) (auto simp: returned_def)
  qed (simp add: returned_def)
  then show "patched step s0 os h e = os h e" by (simp add: patched_def lg Let_def)
qed

end

section \<open>The probes of clickhouse-iouring/rocksdb.bpf.c\<close>

text \<open>
  \<open>addr\<close> is the address of the written bytes, a string constant; the function \<open>start\<close> of the program
  shows in its history as the line it prints. The lines themselves are written by the C library; none
  of them has the five bytes the probe looks for.
\<close>

fun ci_call :: "u64 \<Rightarrow> sys_call \<Rightarrow> hot \<Rightarrow> hot" where
  "ci_call addr (Px (Write fd d)) s = snd (ci_write (word_of_int fd) addr (of_nat (length d)) s)"
| "ci_call addr (Px (Fsync fd)) s = snd (ci_fsync (word_of_int fd) s)"
| "ci_call addr (Px (Print m)) s = (if m = ''start'' then snd (ci_start s) else s)"
| "ci_call addr e s = s"

fun ci_probed :: "sys_call \<Rightarrow> bool" where
  "ci_probed (Px (Write fd d)) = True"
| "ci_probed (Px (Fsync fd)) = True"
| "ci_probed (Px (Print m)) = (m = ''start'')"
| "ci_probed e = False"

interpretation ci_probes: probes "ci_call addr" ci_probed for addr
proof (unfold_locales, goal_cases)
  case (1 e s)
  show ?case
    by (cases "(addr, e, s)" rule: ci_call.cases)
      (auto simp: ci_write_def ci_fsync_def ci_start_def submit_counted_eq emit_def)
next
  case (2 e s)
  then show ?case by (cases "(addr, e, s)" rule: ci_call.cases) auto
qed

section \<open>The probes of iouring_hotpatch/test.bpf.c\<close>

fun tb_call :: "u64 \<Rightarrow> sys_call \<Rightarrow> hot \<Rightarrow> hot" where
  "tb_call addr (Px (Pread fd n off)) s = snd (tb_pread (word_of_int fd) addr (of_nat n) (word_of_int off) s)"
| "tb_call addr (Px (Print m)) s = (if m = ''start'' then snd (tb_start s) else s)"
| "tb_call addr e s = s"

fun tb_probed :: "sys_call \<Rightarrow> bool" where
  "tb_probed (Px (Pread fd n off)) = True"
| "tb_probed (Px (Print m)) = (m = ''start'')"
| "tb_probed e = False"

lemma tb_pread_eq:
  "snd (tb_pread fd buf n off s) = (if current_count s + 1 = patch_size s
     then s\<lparr>blog := blog s @ SubmitRead fd buf n off # USubmit # replicate (nat (current_count s + 1)) WaitAndSeen,
            current_count := 0\<rparr>
     else s\<lparr>blog := blog s @ [SubmitRead fd buf n off, USubmit], current_count := current_count s + 1\<rparr>)"
  by (simp add: tb_pread_def Let_def for_waits_eq emit_def)

interpretation tb_probes: probes "tb_call addr" tb_probed for addr
proof (unfold_locales, goal_cases)
  case (1 e s)
  show ?case
    by (cases "(addr, e, s)" rule: tb_call.cases) (auto simp: tb_pread_eq tb_start_def emit_def)
next
  case (2 e s)
  then show ?case by (cases "(addr, e, s)" rule: tb_call.cases) auto
qed

end
