(* ===== verification/Patched_Timed.thy ===== *)
theory Patched_Timed
  imports Intercept
begin

text \<open>
  The timed programs under the probes their loaders attach: \<open>fsync_write.c\<close> under
  \<open>clickhouse-iouring/rocksdb.bpf.c\<close>, \<open>read.c\<close> under \<open>iouring_hotpatch/test.bpf.c\<close>.
\<close>

section \<open>The account of a history\<close>

text \<open>The calls the ClickHouse probes take over: writes of five bytes, and every \<open>fsync\<close>.\<close>

fun ci_takes :: "sys_call \<Rightarrow> bool" where
  "ci_takes (Px (Write fd d)) = ((of_nat (length d) :: u64) = 5)"
| "ci_takes (Px (Fsync fd)) = True"
| "ci_takes e = False"

lemma ci_take_one:
  assumes "patch_size s = 48" and "current_count s = int (n mod 49)" and "is_request e"
  shows "current_count (submit_counted e s) = int (Suc n mod 49)"
    and "waits (blog (submit_counted e s)) = waits (blog s) + (if n mod 49 < 48 then 0 else 49)"
proof -
  have "n mod 49 < 49" by simp
  then consider "n mod 49 < 48" | "n mod 49 = 48" by linarith
  then show "current_count (submit_counted e s) = int (Suc n mod 49)"
    "waits (blog (submit_counted e s)) = waits (blog s) + (if n mod 49 < 48 then 0 else 49)"
    using assms by (cases; auto simp: submit_counted_eq mod_Suc waits_def simp del: replicate.simps)+
qed

lemma ci_history:
  assumes "accepts_all env"
  shows "ci_wf env (probe_state (ci_call addr) ci_loaded h)
    \<and> current_count (probe_state (ci_call addr) ci_loaded h) = int (cnt ci_takes (calls h) mod 49)
    \<and> waits (blog (probe_state (ci_call addr) ci_loaded h)) = 49 * (cnt ci_takes (calls h) div 49)"
proof (induction h rule: rev_induct)
  case Nil
  then show ?case using ci_wf_loaded [OF assms] by (simp add: ci_loaded_def waits_def)
next
  case (snoc x h)
  obtain e a where x: "x = (e, a)" by (cases x) auto
  let ?s = "probe_state (ci_call addr) ci_loaded h" and ?n = "cnt ci_takes (calls h)"
  have s: "ci_wf env ?s" "patch_size ?s = 48" "current_count ?s = int (?n mod 49)" "waits (blog ?s) = 49 * (?n div 49)"
    using snoc by (simp_all add: ci_wf_def)
  have one: "ci_wf env (emit (OverrideReturn v) (submit_counted r ?s))
      \<and> current_count (emit (OverrideReturn v) (submit_counted r ?s)) = int (Suc ?n mod 49)
      \<and> waits (blog (emit (OverrideReturn v) (submit_counted r ?s))) = 49 * (Suc ?n div 49)"
    if "is_request r" for r v
    using ci_take_one [OF s(2,3) that] ci_wf_submit [OF s(1) that] s(4)
    by (auto simp: ci_wf_emit waits_def div_Suc mod_Suc)
  show ?case
    using s one
    by (cases "(addr, e, ?s)" rule: ci_call.cases)
      (auto simp: x ci_write_def ci_fsync_def ci_start_def ci_wf_emit waits_def)
qed

lemma ci_history_taken:
  assumes "accepts_all env"
  shows "taken env (blog (probe_state (ci_call addr) ci_loaded h)) = cnt ci_takes (calls h)"
  using ci_history [OF assms, of addr h] ci.no_leak [of env "probe_state (ci_call addr) ci_loaded h"] by simp

text \<open>What the probes answer.\<close>

lemma ci_answers:
  "patched (ci_call addr) s0 os h (Px (Write fd d)) =
     (if (of_nat (length d) :: u64) = 5 then \<lparr>rv = 5, errno = 0, aux = 0, dat = []\<rparr> else os h (Px (Write fd d)))"
  "patched (ci_call addr) s0 os h (Px (Fsync fd)) = \<lparr>rv = 0, errno = 0, aux = 0, dat = []\<rparr>"
proof -
  let ?s = "probe_state (ci_call addr) s0 h"
  have ext: "\<exists>lg. blog (emit (OverrideReturn v) (submit_counted r ?s)) = blog ?s @ lg @ [OverrideReturn v]" for r v
    by (simp add: submit_counted_eq)
  obtain lg where "blog (ci_call addr (Px (Fsync fd)) ?s) = blog ?s @ lg @ [OverrideReturn 0]"
    using ext by (auto simp: ci_fsync_def)
  from patched_override [OF this] show "patched (ci_call addr) s0 os h (Px (Fsync fd)) = \<lparr>rv = 0, errno = 0, aux = 0, dat = []\<rparr>"
    by simp
  show "patched (ci_call addr) s0 os h (Px (Write fd d)) =
     (if (of_nat (length d) :: u64) = 5 then \<lparr>rv = 5, errno = 0, aux = 0, dat = []\<rparr> else os h (Px (Write fd d)))"
  proof (cases "(of_nat (length d) :: u64) = 5")
    case True
    then obtain lg where "blog (ci_call addr (Px (Write fd d)) ?s) = blog ?s @ lg @ [OverrideReturn 5]"
      using ext by (auto simp: ci_write_def)
    from patched_override [OF this] True show ?thesis by simp
  next
    case False
    then show ?thesis by (simp add: patched_def ci_write_def returned_def Let_def)
  qed
qed

section \<open>fsync_write.c\<close>

text \<open>The clock advances by three seconds within \<open>n\<close> readings.\<close>

definition times :: "history \<Rightarrow> nat" where
  "times h = cnt (\<lambda>e. e = Px Time) (calls h)"

lemma times_simps [simp]:
  "times [] = 0" "times (h @ h') = times h + times h'"
  "times ((e, a) # h) = (if e = Px Time then 1 else 0) + times h"
  by (simp_all add: times_def)

definition ticks :: "nat \<Rightarrow> sys_env \<Rightarrow> bool" where
  "ticks n env \<longleftrightarrow> (\<forall>h h'. n \<le> times h' \<longrightarrow> 3 \<le> rv (env (h @ h') (Px Time)) - rv (env h (Px Time)))"

definition writes_work :: "sys_env \<Rightarrow> bool" where
  "writes_work env \<longleftrightarrow> (\<forall>h fd. rv (env h (Px (Write fd hello))) = 5) \<and> (\<forall>h fd. rv (env h (Px (Fsync fd))) = 0)"

definition fw_pass :: "int \<Rightarrow> sys_call list" where
  "fw_pass fd = [Px Time, Px (Write fd hello), Px (Fsync fd)]"

lemma fw_loop_runs:
  assumes w: "writes_work env" and t: "ticks n env"
  shows "hist s = h0 @ h' \<Longrightarrow> n < times h' + fuel \<Longrightarrow> 0 < fuel \<Longrightarrow>
    \<exists>c s'. fw_loop env fd (rv (env h0 (Px Time))) fuel count s = Done (count + c, s')
      \<and> calls (hist s') = calls (hist s) @ concat (replicate c (fw_pass fd)) @ [Px Time]"
proof (induction fuel arbitrary: count s h')
  case (Suc fuel)
  let ?t = "env (hist s) (Px Time)"
  show ?case
  proof (cases "rv ?t - rv (env h0 (Px Time)) < 3")
    case False
    then show ?thesis by (intro exI [of _ 0]) (simp add: call_pair)
  next
    case True
    then have "times h' < n" using t Suc.prems(1) by (force simp: ticks_def not_less [symmetric])
    define s1 where "s1 = do_call env (Px (Fsync fd)) (do_call env (Px (Write fd hello)) (do_call env (Px Time) s))"
    have "\<exists>es. hist s1 = h0 @ (h' @ es) \<and> times es = 1" using Suc.prems(1) by (simp add: s1_def)
    then obtain es where es: "hist s1 = h0 @ (h' @ es)" "times es = 1" by blast
    have "n < times (h' @ es) + fuel" "0 < fuel" using Suc.prems(2) es(2) \<open>times h' < n\<close> by simp_all
    from Suc.IH [OF es(1) this, of "count + 1"] obtain c s' where
      "fw_loop env fd (rv (env h0 (Px Time))) fuel (count + 1) s1 = Done (count + 1 + c, s')"
      "calls (hist s') = calls (hist s1) @ concat (replicate c (fw_pass fd)) @ [Px Time]" by blast
    moreover have "fw_loop env fd (rv (env h0 (Px Time))) (Suc fuel) count s = fw_loop env fd (rv (env h0 (Px Time))) fuel (count + 1) s1"
      using True w by (simp add: call_pair writes_work_def s1_def)
    ultimately show ?thesis by (intro exI [of _ "Suc c"]) (simp add: s1_def fw_pass_def)
  qed
qed simp

text \<open>The calls of one round up to its \<open>close\<close>, and of the whole round.\<close>

definition fw_work :: "int \<Rightarrow> nat \<Rightarrow> sys_call list" where
  "fw_work fd c = [Px (Print ''test for fsync''), Px (Open ''temp.txt'' 1089 420), Px (PrintInt ''fd: %d'' fd), Px Time]
     @ concat (replicate c (fw_pass fd)) @ [Px Time]"

definition fw_round :: "int \<Rightarrow> nat \<Rightarrow> sys_call list" where
  "fw_round fd c = fw_work fd c @ [Px (Close fd), Px (PrintInt ''Number of write and fsync calls in 3 seconds: %d'' (int c)), Px (Sleep 1)]"

definition opens_temp :: "sys_env \<Rightarrow> int \<Rightarrow> bool" where
  "opens_temp env fd \<longleftrightarrow> 0 \<le> fd \<and> (\<forall>h. c_int (rv (env h (Px (Open ''temp.txt'' 1089 420)))) = fd)"

lemma fw_test_runs:
  assumes "writes_work env" and "ticks n env" and "opens_temp env fd" and "n < fuel"
  shows "\<exists>c s'. fw_test env fuel s = Done (0, s')
    \<and> calls (hist (do_call env (Px (Sleep 1)) s')) = calls (hist s) @ fw_round fd c"
proof -
  define s1 where "s1 = do_call env (Px (PrintInt ''fd: %d'' fd)) (do_call env (Px (Open ''temp.txt'' 1089 420))
      (do_call env (Px (Print ''test for fsync'')) s))"
  have "hist (do_call env (Px Time) s1) = hist s1 @ [(Px Time, env (hist s1) (Px Time))]"
      "n < times [(Px Time, env (hist s1) (Px Time))] + fuel" "0 < fuel"
    using assms(4) by simp_all
  from fw_loop_runs [OF assms(1,2) this, of fd 0] obtain c s2 where
    "fw_loop env fd (rv (env (hist s1) (Px Time))) fuel 0 (do_call env (Px Time) s1) = Done (c, s2)"
    "calls (hist s2) = calls (hist (do_call env (Px Time) s1)) @ concat (replicate c (fw_pass fd)) @ [Px Time]" by auto
  then show ?thesis
    using assms(3) unfolding fw_test_def opens_temp_def
    by (intro exI [of _ c])
      (simp add: call_pair s1_def [symmetric] fw_round_def fw_work_def del: hist_do_call add: calls_do_call,
        simp add: s1_def)
qed

lemma fw_rounds_run:
  assumes "writes_work env" and "ticks n env" and "opens_temp env fd" and "n < fuel"
  shows "\<exists>cs s'. test_rounds fw_test env fuel k s = Done s' \<and> length cs = k
    \<and> calls (hist s') = calls (hist s) @ concat (map (fw_round fd) cs)"
proof (induction k arbitrary: s)
  case (Suc k)
  obtain c s1 where c: "fw_test env fuel s = Done (0, s1)"
      "calls (hist (do_call env (Px (Sleep 1)) s1)) = calls (hist s) @ fw_round fd c"
    using fw_test_runs [OF assms] by blast
  obtain cs s' where "test_rounds fw_test env fuel k (do_call env (Px (Sleep 1)) s1) = Done s'" "length cs = k"
      "calls (hist s') = calls (hist (do_call env (Px (Sleep 1)) s1)) @ concat (map (fw_round fd) cs)"
    using Suc.IH by blast
  with c show ?case by (intro exI [of _ "c # cs"] exI [of _ s']) simp
qed simp

lemma takes_round [simp]: "cnt ci_takes (fw_work fd c) = 2 * c" "cnt ci_takes (fw_round fd c) = 2 * c"
proof -
  have "cnt ci_takes (concat (replicate c (fw_pass fd))) = 2 * c"
    by (induction c) (simp_all add: fw_pass_def hello_def)
  then show "cnt ci_takes (fw_work fd c) = 2 * c" "cnt ci_takes (fw_round fd c) = 2 * c"
    by (simp_all add: fw_work_def fw_round_def)
qed

lemma takes_rounds: "cnt ci_takes (concat (map (fw_round fd) cs)) = 2 * sum_list cs"
  by (induction cs) simp_all

lemma calls_split:
  assumes "calls h = xs @ e # ys"
  shows "\<exists>h1 a h2. h = h1 @ (e, a) # h2 \<and> calls h1 = xs"
proof -
  obtain h1 h2 where "h = h1 @ h2" "calls h1 = xs" "calls h2 = e # ys"
    using assms unfolding calls_def by (auto simp: map_eq_append_conv)
  moreover from this(3) obtain x h3 where "h2 = x # h3" "fst x = e" by (cases h2) (auto simp: calls_def)
  ultimately show ?thesis by (intro exI [of _ h1] exI [of _ "snd x"] exI [of _ h3]) (cases x; simp)
qed

lemma nth_round:
  assumes "j < length cs"
  shows "concat (map (fw_round fd) cs) = (concat (map (fw_round fd) (take j cs)) @ fw_work fd (cs ! j)) @ Px (Close fd) #
    [Px (PrintInt ''Number of write and fsync calls in 3 seconds: %d'' (int (cs ! j))), Px (Sleep 1)] @ concat (map (fw_round fd) (drop (Suc j) cs))"
proof -
  have "cs = take j cs @ cs ! j # drop (Suc j) cs" using assms by (rule id_take_nth_drop)
  then have "concat (map (fw_round fd) cs) = concat (map (fw_round fd) (take j cs @ cs ! j # drop (Suc j) cs))" by simp
  then show ?thesis by (simp add: fw_round_def)
qed

text \<open>
  C8: \<open>fsync_write.c\<close> under the ClickHouse probes: on any system whose clock advances and that opens the file,
  every round ends; all of its writes and \<open>fsync\<close>s succeed, the probes queue each of them once, and the
  number it prints is that of the pairs. But a round closes the file while requests of it are still
  queued: at the close, \<open>2 * total mod 49\<close> of them, and none of these was written or flushed.
\<close>

theorem patched_fsync_write:
  assumes "accepts_all env" and "ticks n os" and "opens_temp os fd" and "n < fuel"
  shows "\<exists>cs s. fw_main (patched (ci_call addr) ci_loaded os) fuel k = Done s \<and> length cs = k
    \<and> calls (hist s) = Px (Print ''start'') # concat (map (fw_round fd) cs)
    \<and> (\<forall>j < k. \<exists>h a h'. hist s = h @ (Px (Close fd), a) # h'
       \<and> calls h = Px (Print ''start'') # concat (map (fw_round fd) (take j cs)) @ fw_work fd (cs ! j)
       \<and> taken env (blog (probe_state (ci_call addr) ci_loaded h)) = 2 * sum_list (take (Suc j) cs)
       \<and> current_count (probe_state (ci_call addr) ci_loaded h) = int (2 * sum_list (take (Suc j) cs) mod 49))"
proof -
  let ?env = "patched (ci_call addr) ci_loaded os" and ?st = "probe_state (ci_call addr) ci_loaded"
  have w: "writes_work ?env" by (simp add: writes_work_def ci_answers hello_def)
  have "?env h e = os h e" if "\<not> ci_probed e" for h e using that by (rule ci_probes.patched_unprobed)
  then have t: "ticks n ?env" "opens_temp ?env fd" using assms(2,3) by (simp_all add: ticks_def opens_temp_def)
  obtain cs s where s: "fw_main ?env fuel k = Done s" "length cs = k"
      "calls (hist s) = Px (Print ''start'') # concat (map (fw_round fd) cs)"
    using fw_rounds_run [OF w t assms(4), of k "do_call ?env (Px (Print ''start'')) fresh"]
    by (auto simp: fw_main_def fresh_def)
  have "\<exists>h a h'. hist s = h @ (Px (Close fd), a) # h'
       \<and> calls h = Px (Print ''start'') # concat (map (fw_round fd) (take j cs)) @ fw_work fd (cs ! j)
       \<and> taken env (blog (?st h)) = 2 * sum_list (take (Suc j) cs)
       \<and> current_count (?st h) = int (2 * sum_list (take (Suc j) cs) mod 49)" if "j < k" for j
  proof -
    let ?c = "Px (Print ''start'') # concat (map (fw_round fd) (take j cs)) @ fw_work fd (cs ! j)"
    have j: "j < length cs" using that s(2) by simp
    obtain h a h' where h: "hist s = h @ (Px (Close fd), a) # h'" "calls h = ?c"
      using calls_split [of "hist s" ?c] s(3) nth_round [OF j, of fd] by auto
    have "cnt ci_takes (calls h) = 2 * sum_list (take (Suc j) cs)"
      using j by (simp add: h(2) takes_rounds take_Suc_conv_app_nth)
    then show ?thesis using h ci_history [OF assms(1), of addr h] ci_history_taken [OF assms(1), of addr h] by auto
  qed
  with s show ?thesis by blast
qed

text \<open>A system with a file and a clock that advances by a second with each reading.\<close>

definition clock_env :: sys_env where
  "clock_env h e = \<lparr>rv = (if e = Px Time then int (times h) else 3), errno = 0, aux = 0, dat = []\<rparr>"

lemma clock_env_ok: "ticks 3 clock_env" "opens_temp clock_env 3"
  by (simp_all add: ticks_def clock_env_def opens_temp_def)

theorem patched_fsync_write_witness:
  "\<exists>cs s. fw_main (patched (ci_call 4096) ci_loaded clock_env) 4 2 = Done s \<and> length cs = 2
    \<and> calls (hist s) = Px (Print ''start'') # concat (map (fw_round 3) cs)"
  using patched_fsync_write [OF accepts_all_zero clock_env_ok, of 4 4096 2] by auto

section \<open>read.c\<close>

text \<open>The reads of a history, as the probe queues them.\<close>

fun tb_request :: "u64 \<Rightarrow> sys_call \<Rightarrow> bpf_ev list" where
  "tb_request addr (Px (Pread fd n off)) = [SubmitRead (word_of_int fd) addr (of_nat n) (word_of_int off)]"
| "tb_request addr e = []"

definition tb_requests :: "u64 \<Rightarrow> history \<Rightarrow> bpf_ev list" where
  "tb_requests addr h = concat (map (tb_request addr) (calls h))"

lemma tb_requests_simps [simp]:
  "tb_requests addr [] = []" "tb_requests addr (h @ h') = tb_requests addr h @ tb_requests addr h'"
  "tb_requests addr ((e, a) # h) = tb_request addr e @ tb_requests addr h"
  by (simp_all add: tb_requests_def)

lemma tb_history:
  fixes addr :: u64
  defines "st \<equiv> probe_state (tb_call addr) tb_loaded"
  shows "patch_size (st h) = 100000000
    \<and> current_count (st h) = int (length (tb_requests addr h) mod 100000000)
    \<and> filter is_request (blog (st h)) = tb_requests addr h
    \<and> waits (blog (st h)) = 100000000 * (length (tb_requests addr h) div 100000000)"
proof (induction h rule: rev_induct)
  case Nil
  then show ?case by (simp add: st_def tb_loaded_def waits_def)
next
  case (snoc x h)
  obtain e a where x: "x = (e, a)" by (cases x) auto
  let ?n = "length (tb_requests addr h)"
  have st: "st (h @ [(e, a)]) = tb_call addr e (st h)" for e a by (simp add: st_def)
  have next_count: "int (?n mod 100000000) + 1 = 100000000 \<longleftrightarrow> Suc (?n mod 100000000) = 100000000" by linarith
  show ?case
    using snoc
    by (cases "(addr, e, st h)" rule: tb_call.cases)
      (auto simp: st x tb_pread_eq tb_start_def waits_def next_count mod_Suc div_Suc nat_add_distrib simp del: replicate.simps)
qed

text \<open>
  C9: the probe on \<open>pread\<close> is invisible: under it \<open>read.c\<close> makes the same calls with the same answers as
  without, on any system and for any number of rounds. So every read is done twice: the probe has queued
  the same read into the same buffer, one by one, and of the queued reads no completion is collected
  before there are 100000000 of them.
\<close>

theorem patched_read_unchanged:
  "rd_main (patched (tb_call addr) tb_loaded os) fuel k = rd_main os fuel k
   \<and> (case rd_main os fuel k of
        Done s \<Rightarrow> filter is_request (blog (probe_state (tb_call addr) tb_loaded (hist s))) = tb_requests addr (hist s)
          \<and> waits (blog (probe_state (tb_call addr) tb_loaded (hist s)))
            = 100000000 * (length (tb_requests addr (hist s)) div 100000000)
      | _ \<Rightarrow> True)"
proof -
  have "blog (tb_call addr e s) \<noteq> blog s @ lg @ [OverrideReturn v]" for e s lg v
    by (cases "(addr, e, s)" rule: tb_call.cases)
      (auto simp: tb_pread_eq tb_start_def emit_def dest: arg_cong [where f = "\<lambda>l. OverrideReturn v \<in> set l"])
  then have "patched (tb_call addr) tb_loaded os = os" by (rule tb_probes.invisible)
  then show ?thesis using tb_history [of addr] by (simp split: ru_result.split)
qed

end
