(* ===== verification/Patched_Copies.thy ===== *)
theory Patched_Copies
  imports Intercept Backup_Bpf
begin

text \<open>
  The copying programs \<open>victim.c\<close> and \<open>test_speed.c\<close> under the uprobes of \<open>backup.bpf.c\<close>, which
  \<open>clickhouse-uring.c\<close> names in the attachments it keeps as comments: \<open>bpf_start_patch\<close> at the
  \<open>main\<close> of the program, \<open>bpf_pread_patch\<close> at \<open>pread\<close>, \<open>bpf_read_patch\<close> at \<open>wrapper\<close>.
\<close>

section \<open>The probes on the calls of a copy\<close>

text \<open>
  \<open>c\<close> holds what is the same at every call: the address of the buffer and the process. A handler
  that stopped at a NULL pointer would have no effect; none does.
\<close>

definition read_ctx :: "bpf_ctx \<Rightarrow> int \<Rightarrow> nat \<Rightarrow> int \<Rightarrow> bpf_ctx" where
  "read_ctx c fd n off = c\<lparr>parm1 := word_of_int fd, parm3 := of_nat n, parm4 := word_of_int off\<rparr>"

definition io_hook :: "bpf_env \<Rightarrow> io_ev \<Rightarrow> pend \<Rightarrow> pend" where
  "io_hook benv e s = (case io_next benv e s of Some s' \<Rightarrow> s' | None \<Rightarrow> s)"

fun pr_call :: "bpf_env \<Rightarrow> bpf_ctx \<Rightarrow> sys_call \<Rightarrow> pend \<Rightarrow> pend" where
  "pr_call benv c (Px (Pread fd n off)) s = io_hook benv (EvPread (read_ctx c fd n off)) s"
| "pr_call benv c e s = s"

fun pr_probed :: "sys_call \<Rightarrow> bool" where
  "pr_probed (Px (Pread fd n off)) = True"
| "pr_probed e = False"

fun wr_call :: "bpf_env \<Rightarrow> bpf_ctx \<Rightarrow> sys_call \<Rightarrow> pend \<Rightarrow> pend" where
  "wr_call benv c (Px (Read fd n)) s = io_hook benv (EvRead (read_ctx c fd n 0)) s"
| "wr_call benv c e s = s"

fun wr_probed :: "sys_call \<Rightarrow> bool" where
  "wr_probed (Px (Read fd n)) = True"
| "wr_probed e = False"

definition patch_started :: pend where
  "patch_started = (case bpf_start_patch pend_loaded of Some (r, s) \<Rightarrow> s | None \<Rightarrow> pend_loaded)"

text \<open>A handler only adds to the log, in any state.\<close>

definition grows :: "'a bpf_scheme \<Rightarrow> 'a bpf_scheme \<Rightarrow> bool" where
  "grows s s' \<longleftrightarrow> (\<exists>lg. blog s' = blog s @ lg)"

lemma grows_simps [simp]: "grows s s" "grows s (emit e s)"
  by (simp_all add: grows_def)

lemma grows_trans [trans]: "grows s s' \<Longrightarrow> grows s' s'' \<Longrightarrow> grows s s''"
  by (auto simp: grows_def)

lemma reap_grows: "reap_loop i s = Some s' \<Longrightarrow> grows s s'"
proof (induction i s rule: reap_loop.induct)
  case (1 i s)
  from "1.prems" show ?case
    using "1.IH" grows_trans [OF grows_simps(2)]
    by (auto simp: reap_loop.simps [of i s] split: option.splits if_splits)
qed

lemma submit_grows:
  assumes "submit_if_batch_full s = Some (r, s')"
  shows "grows s s'"
  using assms grows_trans [OF grows_simps(2) reap_grows]
  by (auto simp: submit_if_batch_full_def split: option.splits if_splits bind_splits)

lemma pending_grows:
  assumes "add_pending_op op s = Some (p, s')"
  shows "grows s s'"
proof -
  have same: "blog s1 = blog s \<Longrightarrow> submit_if_batch_full s1 = Some (r, s2) \<Longrightarrow> grows s s2" for s1 s2 r
    using submit_grows [of s1 r s2] by (simp add: grows_def)
  show ?thesis
    using assms unfolding add_pending_op_def Let_def
    by (auto split: option.splits if_splits bind_splits dest!: same [rotated] simp: grows_def)
qed

lemma io_hook_grows: "grows s (io_hook benv (EvPread x) s)" "grows s (io_hook benv (EvRead x) s)"
proof -
  have q: "queue_call benv e link op r v s1 = Some (r', s') \<Longrightarrow> grows s1 s'" for e link op r v s1 r' s'
    by (auto simp: queue_call_def hcall_def split: if_splits bind_splits dest!: pending_grows)
      (auto simp: grows_def)
  show "grows s (io_hook benv (EvPread x) s)"
    using q grows_trans [OF grows_simps(2) q]
    by (auto simp: io_hook_def io_next_def handlers_queue split: option.splits if_splits)
  show "grows s (io_hook benv (EvRead x) s)"
    by (simp add: io_hook_def io_next_def bpf_read_patch_def grows_def)
qed

interpretation pr_probes: probes "pr_call benv c" pr_probed for benv c
proof (unfold_locales, goal_cases)
  case (1 e s)
  show ?case
    using io_hook_grows(1) by (cases "(benv, c, e, s)" rule: pr_call.cases) (auto simp: grows_def)
next
  case (2 e s)
  then show ?case by (cases "(benv, c, e, s)" rule: pr_call.cases) auto
qed

interpretation wr_probes: probes "wr_call benv c" wr_probed for benv c
proof (unfold_locales, goal_cases)
  case (1 e s)
  show ?case
    using io_hook_grows(2) by (cases "(benv, c, e, s)" rule: wr_call.cases) (auto simp: grows_def)
next
  case (2 e s)
  then show ?case by (cases "(benv, c, e, s)" rule: wr_call.cases) auto
qed

section \<open>One queued read\<close>

text \<open>The calls of \<open>pread\<close> that the probe takes over.\<close>

fun pr_takes :: "sys_call \<Rightarrow> bool" where
  "pr_takes (Px (Pread fd n off)) = (3 \<le> c_int fd)"
| "pr_takes e = False"

lemma skip_read [simp]: "global_on s = 1 \<Longrightarrow> skip_patch s (fd_of (read_ctx c fd n off)) \<longleftrightarrow> c_int fd < 3"
proof -
  have "(ucast (word_of_int fd :: u64) :: i32) = word_of_int fd" by transfer (simp add: take_bit_take_bit)
  then have "fd_of (read_ctx c fd n off) = word_of_int fd" by (simp add: fd_of_def read_ctx_def to_int_def)
  then show "skip_patch s (fd_of (read_ctx c fd n off)) \<longleftrightarrow> c_int fd < 3" if "global_on s = 1"
    using that by (simp add: skip_patch_def c_int_def word_sless_alt)
qed

text \<open>Between the reads of a batch that is not full: \<open>k\<close> reads are queued and none was submitted.\<close>

definition queued_only :: "bpf_env \<Rightarrow> nat \<Rightarrow> pend \<Rightarrow> bool" where
  "queued_only benv k s \<longleftrightarrow> pend_wf benv s \<and> global_on s = 1 \<and> count_of s = k \<and> set (blog s) \<inter> {USubmit, WaitAndSeen} = {}"

lemma queued_only_start: "queued_only benv 0 patch_started"
proof -
  obtain s where "bpf_start_patch pend_loaded = Some (0, s)" "holds benv s 0 0 0" "global_on s = 1"
    using start_holds [OF holds_loaded, of benv] by blast
  moreover from this(1) have "blog s = [Printk ''start called and init io_uring'', UringInit]"
    by (auto simp: bpf_start_patch_def pend_loaded_def Let_def)
  ultimately show ?thesis
    by (simp add: queued_only_def patch_started_def pend_wf_holds) (simp add: holds_def)
qed

lemma pread_queued:
  fixes c :: bpf_ctx and n :: nat and off :: int
  assumes q: "queued_only benv k s" and k: "k < 1023" and acc: "accepts_all benv" and fd: "3 \<le> c_int fd"
  defines "s' \<equiv> io_hook benv (EvPread (read_ctx c fd n off)) s"
  shows "queued_only benv (Suc k) s'" and "\<exists>lg. blog s' = blog s @ lg @ [OverrideReturn 22]"
proof -
  let ?x = "read_ctx c fd n off"
  let ?e = "SubmitPread (fd_of ?x) (parm2 ?x) (parm3 ?x) (parm4 ?x)"
  let ?s0 = "emit (Printk ''pread called with fd: %d, content: %s'') s"
  let ?s1 = "emit SetLinkflag (emit ?e ?s0)"
  have m: "maps_ok s" "count_of s = k" "global_on s = 1" "set (blog s) \<inter> {USubmit, WaitAndSeen} = {}" "holds benv s k k 0"
    using q by (auto simp: queued_only_def pend_wf_holds) (auto simp: holds_def)
  have ok: "to_int (benv (blog ?s0) ?e) = 0" using acc by (simp add: accepts_all_def accepted_def)
  have count: "unat (op_count ?s1 ! 0 + 1) = k + 1" using count_suc [of ?s1] m(2) k by simp
  then have room: "op_count ?s1 ! 0 + 1 < BATCH_SIZE" using k by (simp add: word_less_nat_alt BATCH_SIZE_def)
  have ms: "maps_ok ?s1" "count_of ?s1 < 1024" using m(1,2) k by simp_all
  obtain op' s2 where s2: "add_pending_op (new_op ?x) ?s1 = Some (Some op', s2)"
      "blog s2 = blog ?s1" "op_count s2 = [op_count ?s1 ! 0 + 1]" "global_on s2 = 1"
    using add_pending_op_eq [OF ms, of "new_op ?x"] room m(3) by auto
  have run: "bpf_pread_patch benv ?x s = Some (1, emit (OverrideReturn 22) s2)"
    using m(3) fd ok s2(1) by (simp add: handlers_queue queue_call_def hcall_def)
  then have s': "s' = emit (OverrideReturn 22) s2" by (simp add: s'_def io_hook_def io_next_def)
  show "\<exists>lg. blog s' = blog s @ lg @ [OverrideReturn 22]" by (simp add: s' s2(2))
  obtain c' q' f' where "holds benv s' c' q' f'" "moved k k 0 c' q' f'"
    using intercepted_holds(1) [OF m(5), of ?x] run s' by auto
  moreover have c: "count_of s' = k + 1" using count by (simp add: s' count_of_def s2(3))
  ultimately have "pend_wf benv s'" by (auto simp: pend_wf_holds moved_def) (auto simp: holds_def)
  moreover have "set (blog s') \<inter> {USubmit, WaitAndSeen} = {}" using m(4) by (simp add: s' s2(2))
  ultimately show "queued_only benv (Suc k) s'" using c s2(4) by (simp add: queued_only_def s')
qed

lemma pr_history:
  assumes "accepts_all benv"
  shows "cnt pr_takes (calls h) \<le> 1023 \<Longrightarrow>
    queued_only benv (cnt pr_takes (calls h)) (probe_state (pr_call benv c) patch_started h)"
proof (induction h rule: rev_induct)
  case Nil
  then show ?case by (simp add: queued_only_start)
next
  case (snoc x h)
  obtain e a where x: "x = (e, a)" by (cases x) auto
  let ?s = "probe_state (pr_call benv c) patch_started h"
  have s: "queued_only benv (cnt pr_takes (calls h)) ?s" using snoc by (simp add: x split: if_splits)
  then have on: "global_on ?s = 1" by (simp add: queued_only_def)
  show ?case
  proof (cases "pr_probed e")
    case False
    then have "\<not> pr_takes e" by (cases e rule: pr_takes.cases) simp_all
    with False s show ?thesis by (simp add: x pr_probes.step_unprobed)
  next
    case True
    then obtain fd n off where e: "e = Px (Pread fd n off)" by (cases e rule: pr_probed.cases) auto
    show ?thesis
    proof (cases "3 \<le> c_int fd")
      case True
      then show ?thesis using pread_queued(1) [OF s _ assms True] snoc.prems by (simp add: x e)
    next
      case False
      then show ?thesis using s on by (simp add: x e io_hook_def io_next_def handlers_queue)
    qed
  qed
qed

lemma pread_answer:
  assumes "accepts_all benv" and "cnt pr_takes (calls h) < 1023" and "3 \<le> c_int fd"
  shows "patched (pr_call benv c) patch_started os h (Px (Pread fd n off)) = \<lparr>rv = 22, errno = 0, aux = 0, dat = []\<rparr>"
proof -
  let ?s = "probe_state (pr_call benv c) patch_started h"
  have "queued_only benv (cnt pr_takes (calls h)) ?s" using pr_history [OF assms(1)] assms(2) by simp
  from pread_queued(2) [OF this assms(2,1,3), of c n off]
  obtain lg where "blog (pr_call benv c (Px (Pread fd n off)) ?s) = blog ?s @ lg @ [OverrideReturn 22]" by auto
  from patched_override [OF this] show ?thesis by simp
qed

section \<open>victim.c\<close>

text \<open>The rounds of a loop that takes 22 bytes off the rest each time.\<close>

definition blocks22 :: "int \<Rightarrow> nat \<Rightarrow> bool" where
  "blocks22 r m \<longleftrightarrow> r \<le> 22 * int m \<and> (0 < m \<longrightarrow> 22 * (int m - 1) < r)"

lemma blocks22_div: "blocks22 (int n) ((n + 21) div 22)"
proof -
  define q t where "q = (n + 21) div 22" and "t = (n + 21) mod 22"
  have "n + 21 = q * 22 + t" "t < 22" by (simp_all add: q_def t_def)
  then have "int n + 21 = 22 * int q + int t" "int t < 22" by linarith+
  then show ?thesis by (simp add: blocks22_def q_def [symmetric])
qed

lemma stale_loop:
  assumes sink: "sink env dst" and buf: "22 \<le> length buf" and src: "3 \<le> c_int src"
    and rd: "\<And>h n off. cnt pr_takes (calls h) < 1023 \<Longrightarrow> env h (Px (Pread src n off)) = \<lparr>rv = 22, errno = 0, aux = 0, dat = []\<rparr>"
  shows "blocks22 r m \<Longrightarrow> cnt pr_takes (calls (hist s)) + m \<le> 1023 \<Longrightarrow> m \<le> fuel \<Longrightarrow>
    \<exists>s'. copy_loop env (victim_read src) (\<lambda>n. [Px (Probe ''read'' n)]) dst fuel r buf count s = Done (None, s')
      \<and> given dst (hist s') = given dst (hist s) @ concat (replicate m (take 22 buf))
      \<and> cnt pr_takes (calls (hist s')) = cnt pr_takes (calls (hist s)) + m"
proof (induction m arbitrary: r fuel count s)
  case 0
  then show ?case by (cases fuel) (simp_all add: blocks22_def)
next
  case (Suc m)
  then obtain f where f: "fuel = Suc f" "m \<le> f" by (cases fuel) auto
  have r: "0 < r" "blocks22 (r - 22) m" using Suc.prems(1) by (auto simp: blocks22_def)
  define n where "n = nat (if r < COPY_BUFFER_SIZE then r else COPY_BUFFER_SIZE)"
  define s1 where "s1 = do_call env (Px (Write dst (take 22 buf))) (do_call env (Px (Probe ''read'' 22)) (do_call env (victim_read src count n) s))"
  have a: "env (hist s) (victim_read src count n) = \<lparr>rv = 22, errno = 0, aux = 0, dat = []\<rparr>"
    using rd Suc.prems(2) by (simp add: victim_read_def)
  have into: "read_into \<lparr>rv = 22, errno = 0, aux = 0, dat = []\<rparr> buf = buf" by (simp add: read_into_def got_def)
  have s1: "given dst (hist s1) = given dst (hist s) @ take 22 buf"
      "cnt pr_takes (calls (hist s1)) = Suc (cnt pr_takes (calls (hist s)))"
    using src by (simp_all add: s1_def victim_read_def)
  have "cnt pr_takes (calls (hist s1)) + m \<le> 1023" using s1(2) Suc.prems(2) by simp
  from Suc.IH [OF r(2) this f(2), of "count + 1"] obtain s' where s':
    "copy_loop env (victim_read src) (\<lambda>n. [Px (Probe ''read'' n)]) dst f (r - 22) buf (count + 1) s1 = Done (None, s')"
    "given dst (hist s') = given dst (hist s1) @ concat (replicate m (take 22 buf))"
    "cnt pr_takes (calls (hist s')) = cnt pr_takes (calls (hist s1)) + m"
    by blast
  have w: "rv (env h (Px (Write dst (take 22 buf)))) = 22" for h using sink buf by (simp add: sink_def)
  have "copy_loop env (victim_read src) (\<lambda>n. [Px (Probe ''read'' n)]) dst fuel r buf count s = Done (None, s')"
    using r(1) s'(1) unfolding f(1) copy_loop.simps(2) Let_def n_def [symmetric]
    by (simp add: call_pair a into w s1_def [symmetric] COPY_BUFFER_SIZE_def del: hist_do_call)
  then show ?case using s'(2,3) s1 by simp
qed

lemma transparent:
  assumes "\<And>h. env h (Px (Open file 0 0)) = os h (Px (Open file 0 0))"
    and "\<And>h. env h (Px (Open ''./temp.txt'' 577 384)) = os h (Px (Open ''./temp.txt'' 577 384))"
    and "\<And>h. env h (Px (Fstat src)) = os h (Px (Fstat src))"
  shows "opens_to env file 0 0 src = opens_to os file 0 0 src"
    and "opens_to env ''./temp.txt'' 577 384 dst = opens_to os ''./temp.txt'' 577 384 dst"
    and "has_size env src n = has_size os src n"
  using assms by (simp_all add: opens_to_def has_size_def)

text \<open>
  C7: \<open>victim.c\<close> under the \<open>pread\<close> probe of \<open>backup.bpf.c\<close>, on a system that would deliver every
  byte, copies nothing. For a source of \<open>n\<close> bytes, with at most 1023 reads, every \<open>pread\<close> is answered
  with 22, so the program makes \<open>n\<close> / 22 of them rounded up, writes the first 22 bytes its buffer held
  before the first read each time, and exits with 0. All the reads are queued, none of them submitted.
\<close>

theorem victim_under_patch_copies_stale_buffer:
  assumes acc: "accepts_all benv" and files: "opens_to os ''./1gb.txt'' 0 0 src" "opens_to os ''./temp.txt'' 577 384 dst"
    and size: "has_size os src n" and sink: "sink os dst" and src: "3 \<le> src"
    and small: "n \<le> 22 * 1023" and buf: "22 \<le> length buf" and fuel: "(n + 21) div 22 \<le> fuel"
  shows "\<exists>s. victim_main (patched (pr_call benv c) patch_started os) fuel buf = Done (0, s)
    \<and> given dst (hist s) = concat (replicate ((n + 21) div 22) (take 22 buf))
    \<and> taken benv (blog (probe_state (pr_call benv c) patch_started (hist s))) = (n + 21) div 22
    \<and> USubmit \<notin> set (blog (probe_state (pr_call benv c) patch_started (hist s)))"
proof -
  let ?env = "patched (pr_call benv c) patch_started os" and ?m = "(n + 21) div 22"
  let ?s0 = "copy_started ''./1gb.txt'' ?env src n"
  have os: "?env h e = os h e" if "\<not> pr_probed e" for h e using that by (rule pr_probes.patched_unprobed)
  note law = transparent [of ?env _ os, OF os os os, simplified]
  have "c_int src = src" using files(1) by (auto simp: opens_to_def c_int_def)
  then have src: "3 \<le> c_int src" using src by simp
  have "sink ?env dst" using sink by (simp add: sink_def os)
  have m: "?m \<le> 1023" using small by linarith
  have start: "cnt pr_takes (calls (hist ?s0)) = 0" "given dst (hist ?s0) = []"
    by (simp_all add: copy_started_def fresh_def)
  have "cnt pr_takes (calls (hist ?s0)) + ?m \<le> 1023" using m start by simp
  from stale_loop [OF \<open>sink ?env dst\<close> buf src pread_answer [OF acc _ src] blocks22_div this fuel, of 0]
  obtain s where s: "copy_loop ?env (victim_read src) (\<lambda>n. [Px (Probe ''read'' n)]) dst fuel (int n) buf 0 ?s0 = Done (None, s)"
      "given dst (hist s) = concat (replicate ?m (take 22 buf))" "cnt pr_takes (calls (hist s)) = ?m"
    unfolding start by auto
  define s' where "s' = copy_finished ?env src dst s"
  have end_calls: "cnt pr_takes (calls (hist s')) = ?m" "given dst (hist s') = given dst (hist s)"
    using s(3) by (simp_all add: s'_def copy_finished_def)
  let ?st = "probe_state (pr_call benv c) patch_started (hist s')"
  have q: "queued_only benv ?m ?st"
    using pr_history [OF acc, of "hist s'"] m unfolding end_calls by simp
  then have st: "pend_wf benv ?st" "set (blog ?st) \<inter> {USubmit, WaitAndSeen} = {}" "count_of ?st = ?m"
    by (simp_all add: queued_only_def)
  have "waits (blog ?st) = 0" using st(2) by (auto simp: waits_def cnt_def filter_empty_conv)
  then have t: "taken benv (blog ?st) = ?m" using backup.no_leak [OF st(1)] st(3) by simp
  have "victim_main ?env fuel buf = Done (0, s')"
    using files size unfolding victim_main_def
    by (subst copy_main_eq [where src = src and n = n], simp_all only: law s'_def) (subst s(1), simp)
  then show ?thesis using t st(2) s(2) end_calls(2) by auto
qed

text \<open>A file of 50 bytes: three reads, and three times what the buffer held.\<close>

definition no_ctx :: bpf_ctx where
  "no_ctx = \<lparr>parm1 = 0, parm2 = 0, parm3 = 0, parm4 = 0, parm5 = 0, cur_pid_tgid = 0, ktime_ns = 0\<rparr>"

definition file_of :: "nat \<Rightarrow> sys_env" where
  "file_of n = serve (\<lambda>fd. replicate n 7) copy_files 1000"

lemma file_of_ok:
  "opens_to (file_of n) ''./1gb.txt'' 0 0 3" "opens_to (file_of n) ''./1mb.txt'' 0 0 3"
  "opens_to (file_of n) ''./temp.txt'' 577 384 4" "n < 2 ^ 31 \<Longrightarrow> has_size (file_of n) 3 n" "sink (file_of n) 4"
  by (simp_all add: file_of_def opens_to_def has_size_def copy_files_def serve_sink)

lemma concat_replicates: "concat (replicate m (replicate k x)) = replicate (m * k) x"
  by (induction m) (simp_all add: replicate_add)

theorem victim_under_patch_copies_stale_buffer_witness:
  "\<exists>s. victim_main (patched (pr_call (\<lambda>_ _. 0) no_ctx) patch_started (file_of 50)) 3 (replicate 1024 9) = Done (0, s)
    \<and> given 4 (hist s) = replicate 66 9"
  using victim_under_patch_copies_stale_buffer [OF accepts_all_zero file_of_ok(1,3,4,5), of 50 "replicate 1024 9" 3 no_ctx]
  by (auto simp: concat_replicates)

section \<open>test_speed.c\<close>



end
