(* ===== verification/User_Deployed.thy ===== *)
theory User_Deployed
  imports Deployment Daemon_Loop
begin

text \<open>
  \<open>user.c\<close> over its own probes: the programs of \<open>user.bpf.c\<close> run where the loader has attached them, and the
  polls of the daemon find the records these programs have put on the two ring buffers.
\<close>

section \<open>The programs at the probes\<close>

definition user_prog :: "u64 \<Rightarrow> string \<Rightarrow> bpf_ctx \<Rightarrow> user \<Rightarrow> user" where
  "user_prog target p c s =
     (if p = ''readS'' then snd (us_readS target c s)
      else if p = ''preadRaw'' then snd (us_preadRaw c s)
      else if p = ''batchSubmit'' then snd (us_batchSubmit c s)
      else s)"

type_synonym user_hit = "string \<times> string \<times> bpf_ctx"

definition user_state :: "u64 \<Rightarrow> link list \<Rightarrow> user_hit list \<Rightarrow> user" where
  "user_state target links hs = fold (\<lambda>(path, probe, c). hit (user_prog target) links path probe c) hs user_loaded"

definition user_links :: "link list" where
  "user_links = [(''preadRaw'', CLICKHOUSE, ''preadRaw''), (''batchSubmit'', CLICKHOUSE, ''batchSubmit''), (''readS'', CLICKHOUSE, ''readS'')]"

text \<open>With these links a hit is an event of the program.\<close>

definition events_of :: "user_hit \<Rightarrow> user_ev list" where
  "events_of = (\<lambda>(path, probe, c).
     if path \<noteq> CLICKHOUSE then []
     else if probe = ''readS'' then [UsReadS c]
     else if probe = ''preadRaw'' then [UsPreadRaw c]
     else if probe = ''batchSubmit'' then [UsBatchSubmit c]
     else [])"

lemma user_hits_are_events:
  "user_state target user_links hs = fold (\<lambda>e s. snd (user_step target e s)) (concat (map events_of hs)) user_loaded"
proof -
  have one: "hit (user_prog target) user_links path probe c s = fold (\<lambda>e s. snd (user_step target e s)) (events_of (path, probe, c)) s"
    for path probe c s
    by (auto simp: hit_def links_at_def user_links_def events_of_def user_prog_def)
  have "fold (\<lambda>(path, probe, c). hit (user_prog target) user_links path probe c) hs s
      = fold (\<lambda>e s. snd (user_step target e s)) (concat (map events_of hs)) s" for s
    by (induction hs arbitrary: s) (auto simp: one)
  then show ?thesis by (simp add: user_state_def)
qed

section \<open>What the polls find\<close>

definition on_ring :: "string \<Rightarrow> bpf_ev list \<Rightarrow> u8 list list" where
  "on_ring r lg = concat (map (\<lambda>e. case e of RingbufOutput rb d \<Rightarrow> if rb = r then [d] else [] | _ \<Rightarrow> []) lg)"

text \<open>The number of records the polls of a ring have returned.\<close>

definition received :: "string \<Rightarrow> history \<Rightarrow> nat" where
  "received r h = sum_list (map (\<lambda>(e, a). if e = Lb (RbPoll r (- 1)) then nat (rv a) else 0) h)"

text \<open>
  When \<open>hits h\<close> are the hits of the probes up to a point of the run: a poll returns the records put on the
  ring since the poll before; it has no timeout, so without a record it lasts until SIGINT.
\<close>

definition carries :: "u64 \<Rightarrow> (history \<Rightarrow> user_hit list) \<Rightarrow> sys_env \<Rightarrow> bool" where
  "carries target hits env \<longleftrightarrow> (\<forall>h r.
     let new = drop (received r h) (on_ring r (blog (user_state target (usdt_links h) (hits h))));
         a = env h (Lb (RbPoll r (- 1)))
     in if new = [] then rv a = INTERRUPTED \<and> dat a = [] else rv a = int (length new) \<and> dat a = concat new)"

lemma quiet_ring:
  assumes "list_all (\<lambda>e. \<exists>a. e = ProbeWriteUser a [0]) lg"
  shows "on_ring r lg = []"
  using assms by (induction lg) (auto simp: on_ring_def)

section \<open>The run\<close>

lemma user_reaches_loop:
  assumes "starts env"
  shows "\<exists>s err. user_main env n = (let (err, s) = user_loop env n err s in user_cleanup env err s)
    \<and> usdt_links (hist s) = user_links \<and> tally_of s = no_tally
    \<and> polls PREPARES (hist s) = 0 \<and> polls SUBMITS (hist s) = 0"
  using assms
  by (simp add: starts_def user_main_def run_loader_def user_loader_def call_pair SIG_ERR_def user_tail_def Let_def)
    (intro exI conjI, rule refl, simp_all add: user_links_def tally_of_def no_tally_def prepared_def unsubmitted_def
      daemon_start_def is_seen_def polls_def)

text \<open>
  C40: \<open>user.c\<close> as it is deployed never does anything: \<open>readS\<close> compares addresses, not names, so as long as
  ClickHouse does not pass the address of the probe's own stack array, no read is ever taken over. Whatever
  else hits its three probes, they only write "not overridden" into ClickHouse; the daemon waits in its first
  poll until SIGINT, and exits with status 1 having prepared, submitted and collected nothing.
\<close>

theorem deployed_daemon_stays_idle:
  assumes "starts env" and "carries target hits env"
    and names: "\<And>h path c. (path, ''readS'', c) \<in> set (hits h) \<Longrightarrow> parm1 c \<noteq> target"
  shows "\<exists>s'. user_main env (Suc n) = Some (1, s') \<and> usdt_links (hist s') = user_links
    \<and> polls PREPARES (hist s') = 1 \<and> polls SUBMITS (hist s') = 0
    \<and> prepared (hist s') = [] \<and> unsubmitted (hist s') = 0 \<and> cnt is_seen (calls (hist s')) = 0
    \<and> (\<forall>h. list_all (\<lambda>e. \<exists>a. e = ProbeWriteUser a [0]) (blog (user_state target (usdt_links (hist s')) (hits h))))"
proof -
  have quiet: "list_all (\<lambda>e. \<exists>a. e = ProbeWriteUser a [0]) (blog (user_state target user_links (hits h)))" for h
  proof -
    have "\<forall>c. UsReadS c \<in> set (concat (map events_of (hits h))) \<longrightarrow> parm1 c \<noteq> target"
      using names [of _ _ h] by (auto simp: events_of_def split: if_splits)
    then show ?thesis unfolding user_hits_are_events by (rule inert [THEN conjunct1])
  qed
  obtain s err where s: "user_main env (Suc n) = (let (err, s) = user_loop env (Suc n) err s in user_cleanup env err s)"
      "usdt_links (hist s) = user_links" "tally_of s = no_tally" "polls PREPARES (hist s) = 0" "polls SUBMITS (hist s) = 0"
    using user_reaches_loop [OF assms(1)] by blast
  let ?a = "env (hist s) (Lb (RbPoll PREPARES (- 1)))"
  have a: "rv ?a = INTERRUPTED" "dat ?a = []"
    using assms(2) quiet_ring [OF quiet] s(2) by (simp_all add: carries_def Let_def)
  define s' where "s' = do_call env (Px (PrintErr ''Error polling the pread_prepare ring buffer: %d''))
      (do_call env (Lb (RbPoll PREPARES (- 1))) s)"
  have "user_loop env (Suc n) err s = (INTERRUPTED, s')"
    using a by (simp add: call_pair Let_def INTERRUPTED_def s'_def)
  then obtain s'' where run: "user_main env (Suc n) = Some (1, s'')"
      "s'' = do_call env (Ur QueueExit) (do_call env (Lb (SkelDestroy ''user'')) (do_call env (Lb (RbFree SUBMITS)) (do_call env (Lb (RbFree PREPARES)) s')))"
    using s(1) by (simp add: user_cleanup_def exit_code_def INTERRUPTED_def Let_def del: user_loop.simps)
  have "tally_of s'' = no_tally" using s(3) by (simp add: run(2) s'_def)
  then have t: "prepared (hist s'') = []" "unsubmitted (hist s'') = 0" "cnt is_seen (calls (hist s'')) = 0"
    by (simp_all add: tally_of_def no_tally_def)
  have "usdt_links (hist s'') = user_links" "polls PREPARES (hist s'') = 1" "polls SUBMITS (hist s'') = 0"
    using s(2,4,5) by (simp_all add: run(2) s'_def)
  then show ?thesis using run(1) t quiet by auto
qed

text \<open>An environment that carries the records of the probes.\<close>

definition carrier :: "u64 \<Rightarrow> (history \<Rightarrow> user_hit list) \<Rightarrow> sys_env" where
  "carrier target hits h e = (case e of
       Lb (RbPoll r t) \<Rightarrow>
         (let new = drop (received r h) (on_ring r (blog (user_state target (usdt_links h) (hits h))))
          in if new = [] then \<lparr>rv = INTERRUPTED, errno = 4, aux = 0, dat = []\<rparr>
             else \<lparr>rv = int (length new), errno = 0, aux = 0, dat = concat new\<rparr>)
     | Lb (SkelOpen nm) \<Rightarrow> \<lparr>rv = 1, errno = 0, aux = 0, dat = []\<rparr>
     | Lb (AttachUsdt p q path v m) \<Rightarrow> \<lparr>rv = 1, errno = 0, aux = 0, dat = []\<rparr>
     | Lb (RbNew r) \<Rightarrow> \<lparr>rv = 1, errno = 0, aux = 0, dat = []\<rparr>
     | _ \<Rightarrow> \<lparr>rv = 0, errno = 0, aux = 0, dat = []\<rparr>)"

lemma carrier_laws: "starts (carrier target hits)" "carries target hits (carrier target hits)"
  by (simp_all add: starts_def carries_def carrier_def Let_def)

definition sample_hits :: "user_hit list" where
  "sample_hits = [(CLICKHOUSE, ''readS'', sample_call), (CLICKHOUSE, ''preadRaw'', sample_call), (CLICKHOUSE, ''batchSubmit'', sample_call)]"

theorem deployed_daemon_stays_idle_witness:
  "\<exists>s. user_main (carrier 5 (\<lambda>h. sample_hits)) 3 = Some (1, s) \<and> prepared (hist s) = []"
proof -
  have "parm1 c \<noteq> 5" if "(path, ''readS'', c) \<in> set sample_hits" for path c
    using that by (auto simp: sample_hits_def sample_call_def)
  then show ?thesis
    using deployed_daemon_stays_idle [OF carrier_laws, where target = 5 and hits = "\<lambda>h. sample_hits" and n = 2]
    by (auto simp: numeral_3_eq_3 numeral_2_eq_2)
qed

end
