(* ===== verification/Spec2Isabelle.thy ===== *)
theory Spec2Isabelle
  imports Ring_Pipeline Backup_Bpf Observers Hotpatch_Bpf Batch_Bpf User_Bpf Loaders Uring_Readers Helper_Ids Writeback Fsync_Poc Uring_Net Posix_Programs
    Spool_Refinement Probe_Schedules Daemon_Loop Tp_Run Core_Copies Typed_Maps Dir_Bench Socket_Session Patched_Timed Patched_Copies User_Deployed
begin

text \<open>
  Clickhouse-Uring: system calls of unmodified programs batched through io_uring by BPF probes.

  The program. Uprobes and USDT probes that run in the bpftime user-space runtime intercept calls of
  ClickHouse, RocksDB and small test programs. A patched call is queued on a shared io_uring through
  extended helpers of the runtime, its caller is told at once that it succeeded, and every so many
  calls the batch is submitted and its completions are collected. Around these probes stand loaders
  that attach them, a daemon that does the queueing in user space, programs to try the patches on,
  liburing programs to compare with, kernel-side probes that credit write-backs, and a model of the
  pipeline an io_uring based server would have.

  How code is modelled. A C struct is a record, a machine integer a word of its width (or an \<open>int\<close>
  with \<open>c_int\<close> where the code converts), a buffer a list of bytes. Undefined behaviour is a value:
  \<open>None\<close>, or \<open>Undefined\<close> where a bound on a loop (\<open>More\<close>) has to be told apart from it. What is not
  in the repository answers from an environment, a function of the calls made so far and the call
  at hand: the runtime's helpers (\<open>Bpf_Runtime.bpf_env\<close>, with a log of calls in the state), liburing,
  libbpf and the operating system (\<open>Sys_Runtime.sys_env\<close>, with a history of calls and answers). The
  log or history is the observable behaviour, and the theorems speak about it. BPF maps are part of
  the state and behave as documented. A message is recorded without its final newline and without
  the values of a format, where no theorem depends on them.

  The theories, by source:

    \<^item> \<open>Prelude\<close>, \<open>C_String\<close>, \<open>Bytes\<close>: machine types, C remainder, strings, the layout of records that
      cross a ring buffer.
    \<^item> \<open>Bounded_Fifo\<close> (a queue's contract), \<open>Simple_Ring\<close>, \<open>Ring_Pipeline\<close>: \<open>ring_pipeline/four_ring_pipeline.c\<close>:
      its ring buffer and its \<open>main\<close>.
    \<^item> \<open>Bpf_Runtime\<close> (maps and helpers), \<open>Uring_Account\<close> (the abstract ring: requests queued and in
      flight, and the contract of a batching program).
    \<^item> \<open>Pending_Ops\<close>, \<open>Backup_Bpf\<close>: \<open>IO_syscall_patch/backup.bpf.c\<close>: the batching core and the handlers of
      read, write, pread, send, recv and the start and end marks. \<open>Probe_Races\<close> cuts its queueing
      handlers and its end mark into single accesses to the shared maps and the ring and interleaves
      threads; \<open>Probe_Schedules\<close> is about schedules in which end marks take part.
      \<open>Core_Copies\<close>: the copies of the core in \<open>clickhouse-uring.bpf.c\<close> and \<open>tp.bpf.c\<close>.
    \<^item> \<open>Spool\<close> (the specification of a batching program: requests that wait and requests submitted,
      in order), \<open>Spool_Refinement\<close>: \<open>backup.bpf.c\<close> and \<open>clickhouse-iouring/rocksdb.bpf.c\<close> refine it.
    \<^item> \<open>Typed_Maps\<close>: the types of the maps of all BPF programs, as one invariant.
    \<^item> \<open>Observers\<close>: \<open>clickhouse-uring.bpf.c\<close>, \<open>tp.bpf.c\<close>, \<open>uprobe.bpf.c\<close> and the consumer of \<open>tp.c\<close>.
    \<^item> \<open>Batch_Bpf\<close>: \<open>batch.bpf.c\<close>; \<open>User_Bpf\<close> and \<open>User_Daemon\<close>: \<open>user.bpf.c\<close> and the consumers of \<open>user.c\<close>.
      \<open>Daemon_Session\<close>: the records a log of the probes brings to the daemon, and the tally the daemon keeps
      of them. \<open>Daemon_Loop\<close>: the whole run of \<open>user.c\<close>, its two polls in turn.
    \<^item> \<open>Hotpatch_Bpf\<close>: \<open>clickhouse-iouring/rocksdb.bpf.c\<close>, \<open>iouring_hotpatch/rocksdb.bpf.c\<close>,
      \<open>iouring_hotpatch/test.bpf.c\<close>.
    \<^item> \<open>Helper_Ids\<close>: the seven tables of helper numbers.
    \<^item> \<open>Writeback\<close>: \<open>bpf/rocksdb.bpf.c\<close>, \<open>simple_override/rocksdb.bpf.c\<close>, \<open>fsync-latency-bpf/rocksdb.bpf.c\<close>.
    \<^item> \<open>Sys_Runtime\<close> (calls into libraries and kernel, and a specification of the submission queue),
      \<open>Attach_Override\<close>: the four copies of \<open>attach_override.h\<close>.
    \<^item> \<open>Loaders\<close>: every \<open>main\<close> that loads a skeleton: \<open>IO_syscall_patch/{clickhouse-uring,batch,uprobe,tp,user}.c\<close>,
      \<open>{bpf,clickhouse-iouring,iouring_hotpatch,simple_override,fsync-latency-bpf}/rocksdb.c\<close> and
      \<open>iouring_hotpatch/test.c\<close>. The common course is written once over a plan of attach steps; each
      loader is its plan and what follows its attach.
    \<^item> \<open>Deployment\<close>: the links a loader leaves, the probes of \<open>batch.bpf.c\<close> run by them, and the counter
      that \<open>clickhouse-uring.c\<close> shares with its probes. \<open>Tp_Run\<close>, \<open>User_Deployed\<close>: the whole
      runs of \<open>tp.c\<close> and of \<open>user.c\<close> over their probes.
    \<^item> \<open>Fsync_Poc\<close>: both files of \<open>iouring_fsync_poc\<close>.
    \<^item> \<open>Uring_Readers\<close>: \<open>vanilla_uring_read.c\<close>, \<open>read_uring.c\<close>; \<open>Uring_Net\<close>: \<open>uring_client.c\<close> and \<open>uring_client copy.c\<close>.
    \<^item> \<open>Posix_Programs\<close>: \<open>test_speed.c\<close>, \<open>victim.c\<close>, \<open>client.c\<close>, \<open>server.c\<close>, \<open>read.c\<close>, \<open>read_file.c\<close>,
      \<open>fsync_write.c\<close>, \<open>fsync/fsync.c\<close>; \<open>Socket_Session\<close> couples \<open>client.c\<close> with
      \<open>server.c\<close>. \<open>Dir_Bench\<close>: \<open>bpf/bench.cpp\<close>.
    \<^item> \<open>Intercept\<close> couples a program with uprobes on its calls: a call first runs the probe, and is answered by
      it or by the system. \<open>Patched_Timed\<close>: \<open>fsync_write.c\<close> and \<open>read.c\<close> under the probes written for them;
      \<open>Patched_Copies\<close>: \<open>victim.c\<close> and \<open>test_speed.c\<close> under those of \<open>backup.bpf.c\<close>.

  The end of this theory states what the probes of \<open>user.bpf.c\<close> and the daemon of \<open>user.c\<close> achieve together:
  a log of the probes is fed to the daemon record by record.

  What the lemmas show:

    \<^item> The ring buffer refines a bounded queue over every sequence of operations; the pipeline stays in
      its buffers in every environment and writes the ten processed packets.
    \<^item> Batching is conservative: along every sequence of probe events the accepted requests are those
      collected plus those counted, the count stays below a batch, and no wait can block
      (\<open>Backup_Bpf\<close>, \<open>Hotpatch_Bpf\<close>); the daemon counts its unsubmitted entries exactly and a submit
      collects exactly that many completions (\<open>User_Daemon\<close>). Where the code breaks this (a send and
      a read that queue two requests and count one, refused requests, failed waits), the theorem
      states by how much.
    \<^item> Batching keeps the order: the requests on the ring are those of a spool that is offered the
      intercepted calls one by one and submits when it is full or at an end mark.
    \<^item> With threads: the handlers run one after the other are the handlers above, and no schedule
      dereferences NULL; but there are schedules of two threads that lose a count, after which a
      completion is never collected, that flush a batch twice, or that let an end mark fall between a
      call's load and store of the counter; after these two a thread waits for ever.
    \<^item> The daemon's run is a function of what its polls deliver: every read is prepared in order, those
      that a poll found before a batch mark are collected, later ones wait. A batch whose records are
      found by two polls is therefore cut.
    \<^item> Deployed: a loader that exits with 0 leaves exactly the links of its plan; run by them the probes
      of \<open>batch.bpf.c\<close> queue their first reads before the ring is set up and then wait for ever, and
      \<open>clickhouse-uring.c\<close> shows the count of its probes plus the 79 it stored. \<open>tp.c\<close> shows exactly the
      hits of its two probes, and no fork event, although it says that the tracepoint is attached. \<open>user.c\<close>
      never gets a record from its own probes, because \<open>readS\<close> compares addresses; the theorems about its
      sessions are about the probes once a read is taken over.
    \<^item> Every map keeps its declared type under every sequence of events of its program.
    \<^item> What is queued is what was called: descriptor, address and length of an intercepted call reach
      the request, over the ring buffer as well, and the file offset does not.
    \<^item> Loaders: exit status 0 means every program is attached, for the eight loaders where that is so;
      for the others the run that breaks it. An attach opens one event at the offset of the function.
    \<^item> The liburing programs read a file once, block by block, and never find the queue full; the client
      prepares its transfer in order; \<open>read_uring.c\<close> never submits.
    \<^item> The directory listing decodes and prints every entry; the open benchmark leaks no descriptor.
    \<^item> The programs that are patched transfer exactly their input, however it is portioned; a session
      of the client with the server echoes the file, and the tail of a longer old response with it.
    \<^item> Under their probes the programs do not do what they are told: \<open>fsync_write.c\<close> closes its file before its requests were submitted, \<open>read.c\<close> does every
      read twice, \<open>victim.c\<close> writes what its buffer held before the first read, and \<open>test_speed.c\<close> writes
      from beyond its buffer.
    \<^item> A wait is skipped only against credited write-backs; but one submitted operation is credited with every
      write-back of its file.

  Interfaces. \<open>bounded_fifo\<close> is interpreted by \<open>simple_ring\<close>; \<open>bpf_map\<close> by the array and the hash map;
  \<open>batching\<close> by the handlers of \<open>backup.bpf.c\<close>, the ClickHouse probes and the test probes, and \<open>spooling\<close>,
  which extends it with the abstraction to a spool, by the first two; \<open>typed_program\<close> by the five
  programs whose events may come in any order;
  \<open>attacher\<close> by the four copies of the attach function; \<open>data_path\<close> by the copying loops of the client
  and the server; \<open>probes\<close> by the uprobes on the four programs that are run under them.

  Bounds. The loops over a batch or a file are total: their measures are the remaining completions or
  bytes. Loops that last until a signal, the clock or the end of a stream take a bound, and the
  theorems that claim a result give one that suffices: the number of bytes plus one for a stream
  (each read delivers at least one), the number of polls for a loader. \<open>ru_rounds\<close> and \<open>test_rounds\<close>
  are the state after that many rounds of a loop that never ends; a round of \<open>fsync_write.c\<close> ends within
  \<open>n\<close> passes if the clock advances by three seconds in \<open>n\<close> readings. The loops of \<open>bench.cpp\<close> over directory
  entries are partial functions, so that a loop without end is \<open>None\<close>; the listing theorem gives a result.

  Not modelled: \<open>vmlinux.h\<close> (generated), the Python, JSON and build files; of the modelled
  files, macros, types and maps that nothing uses, code in comments, and the contents of buffers whose bytes nothing depends on. Two sources do not compile
  as they stand: \<open>bpf/rocksdb.bpf.c\<close> prints an undeclared \<open>filename\<close>, taken as the name of the file,
  and \<open>iouring_hotpatch/rocksdb.bpf.c\<close> calls its probe on \<open>read\<close> also \<open>send\<close>, taken as \<open>hp_read\<close>.
\<close>

section \<open>From ClickHouse to the daemon\<close>



end
